(* ===== verification/Prelude.thy ===== *)
theory Prelude
  imports Main "HOL-Library.Monad_Syntax"
begin

text \<open>
  Shared vocabulary of the development: C strings as \<open>char\<close> lists (without the
  terminating NUL), the string routines of the C library the server calls, numbers in
  decimal, and the generic list facts the components share.

  The fact collections: \<open>cstr\<close> holds rewrite rules about C strings, \<open>heap_simps\<close>
  rules about the linked-list heap.
\<close>

named_theorems cstr
named_theorems heap_simps

section \<open>Characters\<close>

type_synonym cstring = string

abbreviation byte_of :: "char \<Rightarrow> nat" where
  "byte_of c \<equiv> of_char c"

text \<open>\<open>char\<close> is signed on the platforms the server is built for.\<close>

definition schar :: "char \<Rightarrow> int" where
  "schar c = (if byte_of c < 128 then int (byte_of c) else int (byte_of c) - 256)"

definition is_upper :: "char \<Rightarrow> bool" where
  "is_upper c \<longleftrightarrow> 65 \<le> byte_of c \<and> byte_of c \<le> 90"

definition is_lower :: "char \<Rightarrow> bool" where
  "is_lower c \<longleftrightarrow> 97 \<le> byte_of c \<and> byte_of c \<le> 122"

definition is_digit :: "char \<Rightarrow> bool" where
  "is_digit c \<longleftrightarrow> 48 \<le> byte_of c \<and> byte_of c \<le> 57"

definition tolower :: "char \<Rightarrow> char" where
  "tolower c = (if is_upper c then char_of (byte_of c + 32) else c)"

definition toupper :: "char \<Rightarrow> char" where
  "toupper c = (if is_lower c then char_of (byte_of c - 32) else c)"

lemma byte_of_inj [simp]: "byte_of a = byte_of b \<longleftrightarrow> a = b"
  by (rule of_char_eq_iff)

lemma byte_of_char_of: "n < 256 \<Longrightarrow> byte_of (char_of n) = n"
  by (simp add: of_char_of take_bit_eq_mod)

lemma byte_of_less [simp]: "byte_of c < 256"
  using of_char_of [where 'a = nat, of "byte_of c"] by (simp add: of_char_mod_256)

lemma byte_of_tolower:
  "byte_of (tolower c) = (if is_upper c then byte_of c + 32 else byte_of c)"
  by (simp add: tolower_def is_upper_def byte_of_char_of)

lemma byte_of_toupper:
  "byte_of (toupper c) = (if is_lower c then byte_of c - 32 else byte_of c)"
  by (auto simp: toupper_def is_lower_def)

lemma tolower_idem [simp]: "tolower (tolower c) = tolower c"
  by (auto simp: tolower_def [of "tolower c"] is_upper_def byte_of_tolower)

lemma toupper_idem [simp]: "toupper (toupper c) = toupper c"
  by (auto simp add: toupper_def [of "toupper c"] is_lower_def byte_of_toupper)

lemma tolower_toupper [simp]: "tolower (toupper c) = tolower c"
proof -
  have "byte_of (tolower (toupper c)) = byte_of (tolower c)"
    by (auto simp: byte_of_tolower byte_of_toupper is_upper_def is_lower_def)
  then show ?thesis by simp
qed

lemma tolower_eq_space: "byte_of x \<le> 64 \<Longrightarrow> tolower c = x \<longleftrightarrow> c = x"
proof -
  assume "byte_of x \<le> 64"
  then have "byte_of (tolower c) = byte_of x \<longleftrightarrow> byte_of c = byte_of x"
    by (auto simp: byte_of_tolower is_upper_def)
  then show ?thesis by simp
qed

section \<open>Comparison\<close>

text \<open>The sign of \<open>strcmp\<close>: bytes compare unsigned, a proper prefix is smaller.\<close>

fun strcmp :: "cstring \<Rightarrow> cstring \<Rightarrow> int" where
  "strcmp [] [] = 0"
| "strcmp [] (b # bs) = -1"
| "strcmp (a # as) [] = 1"
| "strcmp (a # as) (b # bs) =
     (if a = b then strcmp as bs else if byte_of a < byte_of b then -1 else 1)"

definition strcasecmp :: "cstring \<Rightarrow> cstring \<Rightarrow> int" where
  "strcasecmp a b = strcmp (map tolower a) (map tolower b)"

definition strcaseeq :: "cstring \<Rightarrow> cstring \<Rightarrow> bool" where
  "strcaseeq a b \<longleftrightarrow> map tolower a = map tolower b"

lemma strcmp_eq_0 [cstr]: "strcmp a b = 0 \<longleftrightarrow> a = b"
  by (induction a b rule: strcmp.induct) auto

lemma strcasecmp_eq_0 [cstr]: "strcasecmp a b = 0 \<longleftrightarrow> strcaseeq a b"
  by (simp add: strcasecmp_def strcaseeq_def cstr)

lemma strcmp_swap: "strcmp a b < 0 \<longleftrightarrow> 0 < strcmp b a"
  by (induction a b rule: strcmp.induct) (auto simp: not_less_iff_gr_or_eq)

lemma strcmp_refl [simp]: "strcmp a a = 0"
  by (simp add: cstr)

lemma strcmp_trans: "strcmp a b \<le> 0 \<Longrightarrow> strcmp b c \<le> 0 \<Longrightarrow> strcmp a c \<le> 0"
proof (induction a b arbitrary: c rule: strcmp.induct)
  case 1 then show ?case by simp
next
  case (2 b bs) then show ?case by (cases c) auto
next
  case (3 a as) then show ?case by simp
next
  case (4 a as b bs)
  then show ?case by (cases c) (auto split: if_splits)
qed

lemma strcaseeq_refl [simp]: "strcaseeq a a"
  by (simp add: strcaseeq_def)

lemma strcaseeq_sym: "strcaseeq a b \<longleftrightarrow> strcaseeq b a"
  by (auto simp: strcaseeq_def)

lemma strcaseeq_trans: "strcaseeq a b \<Longrightarrow> strcaseeq b c \<Longrightarrow> strcaseeq a c"
  by (simp add: strcaseeq_def)

lemma strcaseeq_Nil [simp]: "strcaseeq [] b \<longleftrightarrow> b = []" "strcaseeq b [] \<longleftrightarrow> b = []"
  by (auto simp: strcaseeq_def)

lemma strcaseeq_length: "strcaseeq a b \<Longrightarrow> length a = length b"
  unfolding strcaseeq_def by (metis length_map)

section \<open>Case conversion, numbers\<close>

text \<open>\<open>ucaseit\<close> and \<open>lcaseit\<close> of \<open>strutil.c\<close> are maps over the string.\<close>

lemma strcaseeq_map_toupper [simp]:
  "strcaseeq (map toupper a) b \<longleftrightarrow> strcaseeq a b"
  "strcaseeq a (map toupper b) \<longleftrightarrow> strcaseeq a b"
  by (simp_all add: strcaseeq_def comp_def)

text \<open>Decimal output, as \<open>printf\<close> with \<open>%d\<close>.\<close>

fun dec_nat :: "nat \<Rightarrow> cstring" where
  "dec_nat n = (if n < 10 then [char_of (48 + n)]
     else dec_nat (n div 10) @ [char_of (48 + n mod 10)])"

declare dec_nat.simps [simp del]

definition dec_int :: "int \<Rightarrow> cstring" where
  "dec_int i = (if i < 0 then CHR ''-'' # dec_nat (nat (- i)) else dec_nat (nat i))"

text \<open>
  \<open>atoi\<close>: white space, an optional sign, then digits up to the first other
  character. The value is converted to a 32-bit \<open>int\<close>, as the C library does.
\<close>

definition is_cspace :: "char \<Rightarrow> bool" where
  "is_cspace c \<longleftrightarrow> c = CHR '' '' \<or> (9 \<le> byte_of c \<and> byte_of c \<le> 13)"

definition digits_val :: "cstring \<Rightarrow> int" where
  "digits_val s = foldl (\<lambda>v c. 10 * v + (int (byte_of c) - 48)) 0 (takeWhile is_digit s)"

definition to_int32 :: "int \<Rightarrow> int" where
  "to_int32 v = (v + 2 ^ 31) mod 2 ^ 32 - 2 ^ 31"

definition clamp_long :: "int \<Rightarrow> int" where
  "clamp_long v = max (- (2 ^ 63)) (min (2 ^ 63 - 1) v)"

definition strtol :: "cstring \<Rightarrow> int" where
  "strtol s = clamp_long
     (case dropWhile is_cspace s of
        [] \<Rightarrow> 0
      | c # cs \<Rightarrow> if c = CHR ''-'' then - digits_val cs
                  else if c = CHR ''+'' then digits_val cs
                  else digits_val (c # cs))"

definition atoi :: "cstring \<Rightarrow> int" where
  "atoi s = to_int32 (strtol s)"

lemma to_int32_bounds: "- (2 ^ 31) \<le> to_int32 v" "to_int32 v < 2 ^ 31"
  by (simp_all add: to_int32_def)

lemma to_int32_id: "- (2 ^ 31) \<le> v \<Longrightarrow> v < 2 ^ 31 \<Longrightarrow> to_int32 v = v"
  by (simp add: to_int32_def)

lemma atoi_bounds: "- (2 ^ 31) \<le> atoi s" "atoi s < 2 ^ 31"
  by (simp_all only: atoi_def to_int32_bounds)

lemma dec_nat_digits: "\<forall>c \<in> set (dec_nat n). is_digit c"
proof (induction n rule: dec_nat.induct)
  case (1 n)
  then show ?case
    by (subst dec_nat.simps) (auto simp: is_digit_def byte_of_char_of)
qed

lemma takeWhile_digits: "takeWhile is_digit (dec_nat n) = dec_nat n"
  using dec_nat_digits by (simp add: takeWhile_eq_all_conv)

lemma digits_val_dec_nat: "digits_val (dec_nat n) = int n"
proof -
  have "foldl (\<lambda>v c. 10 * v + (int (byte_of c) - 48)) 0 (dec_nat n) = int n"
  proof (induction n rule: dec_nat.induct)
    case (1 n)
    have "10 * int (n div 10) + int (n mod 10) = int n"
      by (metis mult_div_mod_eq of_nat_add of_nat_mult of_nat_numeral)
    with 1 show ?case
      by (subst dec_nat.simps) (auto simp: byte_of_char_of)
  qed
  then show ?thesis by (simp add: digits_val_def takeWhile_digits)
qed

lemma dec_nat_ne [simp]: "dec_nat n \<noteq> []"
  by (subst dec_nat.simps) simp

lemma hd_dec_nat: "is_digit (hd (dec_nat n))"
  using dec_nat_digits [of n] by (meson dec_nat_ne hd_in_set)

lemma strtol_dec_nat: "int n < 2 ^ 63 \<Longrightarrow> strtol (dec_nat n) = int n"
proof -
  assume n: "int n < 2 ^ 63"
  obtain c cs where c: "dec_nat n = c # cs" by (meson dec_nat_ne list.exhaust)
  have d: "is_digit c" using hd_dec_nat [of n] c by simp
  then have "\<not> is_cspace c" "c \<noteq> CHR ''-''" "c \<noteq> CHR ''+''"
    by (auto simp: is_digit_def is_cspace_def)
  then show ?thesis
    using n by (simp add: strtol_def c clamp_long_def) (simp flip: c add: digits_val_dec_nat)
qed

lemma strtol_dec_int: "\<bar>i\<bar> < 2 ^ 63 \<Longrightarrow> strtol (dec_int i) = i"
proof (cases "i < 0")
  case True
  assume "\<bar>i\<bar> < 2 ^ 63"
  with True show ?thesis
    by (simp add: dec_int_def strtol_def is_cspace_def digits_val_dec_nat clamp_long_def)
next
  case False
  assume "\<bar>i\<bar> < 2 ^ 63"
  with False show ?thesis by (simp add: dec_int_def strtol_dec_nat)
qed

text \<open>Printing a 32-bit integer and reading it back with \<open>atoi\<close> is the identity.\<close>

lemma atoi_dec_int: "- (2 ^ 31) \<le> i \<Longrightarrow> i < 2 ^ 31 \<Longrightarrow> atoi (dec_int i) = i"
  by (simp add: atoi_def strtol_dec_int to_int32_id)

section \<open>Bounded copies\<close>

text \<open>
  \<open>snprintf\<close> into a buffer of \<open>n\<close> bytes keeps the first \<open>n - 1\<close> bytes of the
  formatted text; \<open>strncpy\<close> of \<open>n\<close> bytes into a cleared larger buffer keeps \<open>n\<close>.
\<close>

definition snprintf :: "nat \<Rightarrow> cstring \<Rightarrow> cstring" where
  "snprintf n s = take (n - 1) s"

definition strncpy0 :: "nat \<Rightarrow> cstring \<Rightarrow> cstring" where
  "strncpy0 n s = take n s"

lemma length_snprintf [simp]: "length (snprintf n s) \<le> n - 1"
  by (simp add: snprintf_def)

lemma length_strncpy0 [simp]: "length (strncpy0 n s) \<le> n"
  by (simp add: strncpy0_def)

section \<open>Lists\<close>

fun find_index :: "('a \<Rightarrow> bool) \<Rightarrow> 'a list \<Rightarrow> int" where
  "find_index P [] = -1"
| "find_index P (x # xs) =
     (if P x then 0 else (let r = find_index P xs in if r < 0 then -1 else r + 1))"

lemma find_index_lower: "- 1 \<le> find_index P xs"
  by (induction xs) (auto simp: Let_def)

lemma find_index_neg: "find_index P xs < 0 \<longleftrightarrow> (\<forall>x \<in> set xs. \<not> P x)"
  by (induction xs) (auto simp: Let_def)

lemma find_index_None: "find_index P xs = -1 \<longleftrightarrow> (\<forall>x \<in> set xs. \<not> P x)"
  using find_index_neg [of P xs] find_index_lower [of P xs] by linarith

lemma find_index_nonneg: "0 \<le> find_index P xs \<longleftrightarrow> (\<exists>x \<in> set xs. P x)"
  using find_index_neg [of P xs] by (meson not_less)

lemma find_index_Some:
  "find_index P xs = int i \<Longrightarrow> i < length xs \<and> P (xs ! i) \<and> (\<forall>j < i. \<not> P (xs ! j))"
proof (induction xs arbitrary: i)
  case Nil then show ?case by simp
next
  case (Cons x xs)
  show ?case
  proof (cases "P x")
    case True
    with Cons.prems show ?thesis by simp
  next
    case False
    with Cons.prems obtain k where k: "i = Suc k" "find_index P xs = int k"
      by (cases i) (auto simp: Let_def split: if_splits)
    from Cons.IH [OF k(2)] False k(1) show ?thesis
      by (auto simp: less_Suc_eq_0_disj)
  qed
qed

lemma find_index_nat:
  "0 \<le> find_index P xs \<Longrightarrow>
   nat (find_index P xs) < length xs \<and> P (xs ! nat (find_index P xs))"
  using find_index_Some [of P xs "nat (find_index P xs)"] by simp

lemma find_index_first:
  "0 \<le> find_index P xs \<Longrightarrow> j < nat (find_index P xs) \<Longrightarrow> \<not> P (xs ! j)"
  using find_index_Some [of P xs "nat (find_index P xs)"] by simp

end
