(* ===== verification/IcbDbm.thy ===== *)
theory IcbDbm
  imports Prelude "HOL-Library.Word" "HOL-Library.Multiset"
begin

text \<open>
  \<open>server/icb_dbm.c\<close>: the key/value store behind the user database, a chained hash table
  in memory with a flat file behind it. Keys, values and files are byte strings. Memory
  allocation succeeds; the counters \<open>nbuckets\<close> and \<open>nentries\<close> are natural numbers, which
  is the code's behaviour as long as the table has fewer than \<open>2^30\<close> entries.
\<close>

unbundle bit_operations_syntax

section \<open>The code\<close>

type_synonym bytes = cstring
type_synonym entry = "bytes \<times> bytes"

record dbm =
  db_path :: cstring
  db_mode :: int
  db_dirty :: bool
  db_buckets :: "entry list list"
  db_nbuckets :: nat
  db_nentries :: nat

record datum =
  dptr :: "bytes option"
  dsize :: int

definition ICB_DBM_MAGIC :: bytes where
  "ICB_DBM_MAGIC = ''IDB'' @ [CHR 0x01]"

definition ICB_DBM_HDR_SIZE :: nat where "ICB_DBM_HDR_SIZE = 8"
definition ICB_DBM_INIT_BUCKETS :: nat where "ICB_DBM_INIT_BUCKETS = 128"
definition ICB_DBM_MAX_RECSIZE :: nat where "ICB_DBM_MAX_RECSIZE = 1048576"

definition put32 :: "nat \<Rightarrow> bytes" where
  "put32 v = [char_of v, char_of (drop_bit 8 v), char_of (drop_bit 16 v), char_of (drop_bit 24 v)]"

definition get32 :: "bytes \<Rightarrow> nat" where
  "get32 b = byte_of (b ! 0) OR push_bit 8 (byte_of (b ! 1))
     OR push_bit 16 (byte_of (b ! 2)) OR push_bit 24 (byte_of (b ! 3))"

definition fnv1a :: "bytes \<Rightarrow> 32 word" where
  "fnv1a data = foldl (\<lambda>h c. (h XOR of_nat (byte_of c)) * 16777619) 2166136261 data"

definition bucket_of :: "nat \<Rightarrow> bytes \<Rightarrow> nat" where
  "bucket_of n k = unat (fnv1a k) mod n"

text \<open>Linking an entry in front of its bucket, and \<open>ht_resize\<close>'s walk over all entries.\<close>

definition link_entry :: "nat \<Rightarrow> entry \<Rightarrow> entry list list \<Rightarrow> entry list list" where
  "link_entry n e nb = (let h = bucket_of n (fst e) in nb[h := e # nb ! h])"

definition ht_resize :: "nat \<Rightarrow> dbm \<Rightarrow> dbm" where
  "ht_resize new_n db =
     db\<lparr>db_buckets := fold (link_entry new_n) (concat (db_buckets db)) (replicate new_n []),
        db_nbuckets := new_n\<rparr>"

definition ht_find :: "dbm \<Rightarrow> bytes \<Rightarrow> entry option" where
  "ht_find db k =
     find (\<lambda>e. length (fst e) = length k \<and> fst e = k) (db_buckets db ! bucket_of (db_nbuckets db) k)"

text \<open>Growing at a load of three quarters, then linking: the common end of load and store.\<close>

definition grow :: "dbm \<Rightarrow> dbm" where
  "grow db = (if db_nentries db * 4 \<ge> db_nbuckets db * 3
              then ht_resize (db_nbuckets db * 2) db else db)"

definition add_entry :: "entry \<Rightarrow> dbm \<Rightarrow> dbm" where
  "add_entry e db =
     (let db = grow db in
      db\<lparr>db_buckets := link_entry (db_nbuckets db) e (db_buckets db),
         db_nentries := db_nentries db + 1\<rparr>)"

text \<open>A file, and reading exactly \<open>n\<close> bytes of what is left of it.\<close>

datatype dfile = Absent | Unreadable | Data bytes

definition xread :: "nat \<Rightarrow> bytes \<Rightarrow> (bytes \<times> bytes) option" where
  "xread n s = (if length s < n then None else Some (take n s, drop n s))"

fun load_loop :: "nat \<Rightarrow> bytes \<Rightarrow> dbm \<Rightarrow> dbm option" where
  "load_loop 0 s db = Some db"
| "load_loop (Suc i) s db = do {
     (rh, s) \<leftarrow> xread 8 s;
     let klen = get32 rh;
     let vlen = get32 (drop 4 rh);
     if klen > ICB_DBM_MAX_RECSIZE \<or> vlen > ICB_DBM_MAX_RECSIZE then None
     else do {
       (k, s) \<leftarrow> xread klen s;
       (v, s) \<leftarrow> xread vlen s;
       load_loop i s (add_entry (k, v) db) } }"

definition load_file :: "dfile \<Rightarrow> dbm \<Rightarrow> dbm option" where
  "load_file f db =
     (case f of Absent \<Rightarrow> Some db
      | Unreadable \<Rightarrow> None
      | Data s \<Rightarrow> do {
          (hdr, s) \<leftarrow> xread ICB_DBM_HDR_SIZE s;
          if take 4 hdr \<noteq> ICB_DBM_MAGIC then None
          else load_loop (get32 (drop 4 hdr)) s db })"

text \<open>
  Flushing. The outcome of the system calls is an argument; the files are a function from
  paths. A failed write removes the temporary file, a failed rename leaves it.
\<close>

datatype write_outcome = Open_fails | Write_fails | Rename_fails | Written

type_synonym files = "cstring \<Rightarrow> dfile"

definition entry_bytes :: "entry \<Rightarrow> bytes" where
  "entry_bytes e = put32 (length (fst e)) @ put32 (length (snd e)) @ fst e @ snd e"

definition file_bytes :: "dbm \<Rightarrow> bytes" where
  "file_bytes db = ICB_DBM_MAGIC @ put32 (db_nentries db)
     @ concat (map entry_bytes (concat (db_buckets db)))"

definition flush_file :: "write_outcome \<Rightarrow> dbm \<Rightarrow> files \<Rightarrow> int \<times> dbm \<times> files" where
  "flush_file w db fs =
     (if \<not> db_dirty db then (0, db, fs)
      else let tmp = db_path db @ ''.tmp'' in
        case w of
          Open_fails \<Rightarrow> (-1, db, fs)
        | Write_fails \<Rightarrow> (-1, db, fs(tmp := Absent))
        | Rename_fails \<Rightarrow> (-1, db, fs(tmp := Data (file_bytes db)))
        | Written \<Rightarrow> (0, db\<lparr>db_dirty := False\<rparr>,
                      (fs(tmp := Absent))(db_path db := Data (file_bytes db))))"

definition dbm_open :: "cstring \<Rightarrow> int \<Rightarrow> files \<Rightarrow> dbm option" where
  "dbm_open file mode fs =
     (let path = file @ ''.db'' in
      load_file (fs path)
        \<lparr>db_path = path, db_mode = (if mode \<noteq> 0 then mode else 384), db_dirty = False,
         db_buckets = replicate ICB_DBM_INIT_BUCKETS [], db_nbuckets = ICB_DBM_INIT_BUCKETS,
         db_nentries = 0\<rparr>)"

definition dbm_close :: "write_outcome \<Rightarrow> dbm option \<Rightarrow> files \<Rightarrow> files" where
  "dbm_close w db fs = (case db of None \<Rightarrow> fs | Some db \<Rightarrow> snd (snd (flush_file w db fs)))"

text \<open>The bytes a datum refers to.\<close>

definition datum_bytes :: "datum \<Rightarrow> bytes" where
  "datum_bytes d = (case dptr d of None \<Rightarrow> [] | Some s \<Rightarrow> take (nat (dsize d)) s)"

definition datum_of :: "bytes \<Rightarrow> datum" where
  "datum_of s = \<lparr>dptr = Some s, dsize = int (length s)\<rparr>"

definition null_datum :: datum where
  "null_datum = \<lparr>dptr = None, dsize = 0\<rparr>"

definition dbm_fetch :: "dbm option \<Rightarrow> datum \<Rightarrow> datum" where
  "dbm_fetch db key =
     (case db of None \<Rightarrow> null_datum
      | Some db \<Rightarrow> if dptr key = None then null_datum
          else case ht_find db (datum_bytes key) of None \<Rightarrow> null_datum | Some e \<Rightarrow> datum_of (snd e))"

datatype store_flag = DBM_INSERT | DBM_REPLACE

fun replace_val :: "bytes \<Rightarrow> bytes \<Rightarrow> entry list \<Rightarrow> entry list" where
  "replace_val k v [] = []"
| "replace_val k v (e # es) = (if fst e = k then (fst e, v) # es else e # replace_val k v es)"

fun unlink_entry :: "bytes \<Rightarrow> entry list \<Rightarrow> entry list" where
  "unlink_entry k [] = []"
| "unlink_entry k (e # es) = (if fst e = k then es else e # unlink_entry k es)"

definition dbm_store :: "dbm option \<Rightarrow> datum \<Rightarrow> datum \<Rightarrow> store_flag \<Rightarrow> int \<times> dbm option" where
  "dbm_store dbo key content flag =
     (case dbo of None \<Rightarrow> (-1, None)
      | Some db \<Rightarrow>
         if dptr key = None then (-1, Some db)
         else if dptr content = None \<and> dsize content > 0 then (-1, Some db)
         else let k = datum_bytes key; v = datum_bytes content in
           case ht_find db k of
             Some e \<Rightarrow>
               if flag = DBM_INSERT then (1, Some db)
               else (let h = bucket_of (db_nbuckets db) k in
                 (0, Some (db\<lparr>db_buckets := (db_buckets db)[h := replace_val k v (db_buckets db ! h)],
                              db_dirty := True\<rparr>)))
           | None \<Rightarrow> (0, Some ((add_entry (k, v) db)\<lparr>db_dirty := True\<rparr>)))"

definition dbm_delete :: "dbm option \<Rightarrow> datum \<Rightarrow> int \<times> dbm option" where
  "dbm_delete dbo key =
     (case dbo of None \<Rightarrow> (-1, None)
      | Some db \<Rightarrow>
         if dptr key = None then (-1, Some db)
         else let k = datum_bytes key in
           case ht_find db k of
             None \<Rightarrow> (-1, Some db)
           | Some e \<Rightarrow> (let h = bucket_of (db_nbuckets db) k in
               (0, Some (db\<lparr>db_buckets := (db_buckets db)[h := unlink_entry k (db_buckets db ! h)],
                            db_nentries := db_nentries db - 1, db_dirty := True\<rparr>))))"

section \<open>Invariant and abstraction\<close>

definition dbm_ok :: "dbm \<Rightarrow> bool" where
  "dbm_ok db \<longleftrightarrow>
     db_nbuckets db = length (db_buckets db) \<and> 0 < db_nbuckets db
     \<and> db_nentries db = length (concat (db_buckets db))
     \<and> distinct (map fst (concat (db_buckets db)))
     \<and> (\<forall>i < db_nbuckets db. \<forall>e \<in> set (db_buckets db ! i). bucket_of (db_nbuckets db) (fst e) = i)"

text \<open>The map the table stands for.\<close>

definition dbm_map :: "dbm \<Rightarrow> bytes \<rightharpoonup> bytes" where
  "dbm_map db = map_of (concat (db_buckets db))"

lemma bucket_of_less: "0 < n \<Longrightarrow> bucket_of n k < n"
  by (simp add: bucket_of_def)

text \<open>A bucket list updated at one place, as a list of all entries.\<close>

lemma buckets_split:
  assumes "i < length bs"
  shows "concat bs = concat (take i bs) @ bs ! i @ concat (drop (Suc i) bs)"
    and "concat (bs[i := b]) = concat (take i bs) @ b @ concat (drop (Suc i) bs)"
proof -
  show "concat bs = concat (take i bs) @ bs ! i @ concat (drop (Suc i) bs)"
    using id_take_nth_drop [OF assms] by (metis concat.simps(2) concat_append)
  show "concat (bs[i := b]) = concat (take i bs) @ b @ concat (drop (Suc i) bs)"
    using assms by (simp add: upd_conv_take_nth_drop)
qed

lemma mem_concat_nth: "e \<in> set (concat bs) \<longleftrightarrow> (\<exists>i < length bs. e \<in> set (bs ! i))"
  unfolding set_concat by (metis UN_iff in_set_conv_nth)

lemma mset_set_map: "mset xs = mset ys \<Longrightarrow> set xs = set ys \<and> (distinct (map f xs) \<longleftrightarrow> distinct (map f ys))"
  by (metis mset_eq_imp_distinct_iff mset_eq_setD mset_map)

lemma map_of_mset:
  assumes "mset xs = mset ys" and "distinct (map fst xs)"
  shows "map_of xs = map_of ys"
proof -
  have "set xs = set ys" "distinct (map fst ys)" using assms mset_set_map by blast+
  with assms(2) show ?thesis by (intro map_of_inject_set [THEN iffD2]) auto
qed

lemma find_map_of: "find (\<lambda>e. length (fst e) = length k \<and> fst e = k) es = map_option (Pair k) (map_of es k)"
  by (induction es) auto

lemma map_of_ext_eq:
  assumes "distinct (map fst xs)" "distinct (map fst ys)"
    and "\<And>v. (k, v) \<in> set xs \<longleftrightarrow> (k, v) \<in> set ys"
  shows "map_of xs k = map_of ys k"
  using assms map_of_eq_Some_iff by (metis not_None_eq)

lemma dbm_ok_bucket:
  assumes "dbm_ok db"
  shows "bucket_of (db_nbuckets db) k < length (db_buckets db)"
proof -
  have "db_nbuckets db = length (db_buckets db)" "0 < db_nbuckets db"
    using assms unfolding dbm_ok_def by blast+
  with bucket_of_less [of "db_nbuckets db" k] show ?thesis by simp
qed

lemma distinct_bucket:
  assumes "dbm_ok db" and "i < length (db_buckets db)"
  shows "distinct (map fst (db_buckets db ! i))"
proof -
  have "distinct (map fst (concat (db_buckets db)))" using assms(1) unfolding dbm_ok_def by blast
  then show ?thesis unfolding buckets_split(1) [OF assms(2)] by simp
qed

lemma ht_find_map:
  assumes "dbm_ok db"
  shows "ht_find db k = map_option (Pair k) (dbm_map db k)"
proof -
  let ?h = "bucket_of (db_nbuckets db) k"
  have h: "?h < length (db_buckets db)" using dbm_ok_bucket [OF assms] .
  have "(k, v) \<in> set (concat (db_buckets db)) \<longleftrightarrow> (k, v) \<in> set (db_buckets db ! ?h)" for v
    using assms h unfolding mem_concat_nth dbm_ok_def by fastforce
  then have "map_of (concat (db_buckets db)) k = map_of (db_buckets db ! ?h) k"
    using assms distinct_bucket [OF assms h] unfolding dbm_ok_def by (intro map_of_ext_eq) blast+
  then show ?thesis by (simp add: ht_find_def find_map_of dbm_map_def)
qed

section \<open>Linking and growing\<close>

definition placed :: "nat \<Rightarrow> entry list list \<Rightarrow> bool" where
  "placed n bs \<longleftrightarrow> length bs = n \<and> (\<forall>i < n. \<forall>e \<in> set (bs ! i). bucket_of n (fst e) = i)"

lemma dbm_ok_alt:
  "dbm_ok db \<longleftrightarrow> 0 < db_nbuckets db \<and> placed (db_nbuckets db) (db_buckets db)
     \<and> db_nentries db = length (concat (db_buckets db))
     \<and> distinct (map fst (concat (db_buckets db)))"
  unfolding dbm_ok_def placed_def by (metis (no_types, lifting))

lemma placed_empty: "placed n (replicate n [])"
  by (simp add: placed_def)

lemma link_entry_placed:
  assumes "0 < n" and "placed n nb"
  shows "placed n (link_entry n e nb)"
  using assms bucket_of_less [of n "fst e"]
  by (auto simp: link_entry_def placed_def Let_def nth_list_update)

lemma link_entry_mset:
  assumes "0 < n" and "placed n nb"
  shows "mset (concat (link_entry n e nb)) = add_mset e (mset (concat nb))"
proof -
  let ?h = "bucket_of n (fst e)"
  have h: "?h < length nb" using assms bucket_of_less by (simp add: placed_def)
  show ?thesis
    unfolding link_entry_def Let_def buckets_split(2) [OF h] buckets_split(1) [OF h]
    by simp
qed

lemma fold_link_entry:
  assumes "0 < n" and "placed n nb"
  shows "placed n (fold (link_entry n) es nb)
    \<and> mset (concat (fold (link_entry n) es nb)) = mset es + mset (concat nb)"
  using assms(2)
proof (induction es arbitrary: nb)
  case (Cons e es)
  from Cons.IH [OF link_entry_placed [OF assms(1) Cons.prems]] link_entry_mset [OF assms(1) Cons.prems]
  show ?case by simp
qed simp

lemma resize_ok:
  assumes ok: "dbm_ok db" and n: "0 < n"
  shows "dbm_ok (ht_resize n db)" and "dbm_map (ht_resize n db) = dbm_map db"
    and "db_nbuckets (ht_resize n db) = n" and "db_nentries (ht_resize n db) = db_nentries db"
proof -
  let ?nb = "fold (link_entry n) (concat (db_buckets db)) (replicate n [])"
  have p: "placed n ?nb" and m: "mset (concat ?nb) = mset (concat (db_buckets db))"
    using fold_link_entry [OF n placed_empty] by simp_all
  have d: "distinct (map fst (concat (db_buckets db)))" using ok by (simp add: dbm_ok_alt)
  from mset_set_map [OF m, of fst] d have "distinct (map fst (concat ?nb))" by blast
  moreover have "length (concat ?nb) = length (concat (db_buckets db))" using m by (rule mset_eq_length)
  ultimately show "dbm_ok (ht_resize n db)"
    using p n ok by (simp add: dbm_ok_alt ht_resize_def)
  show "dbm_map (ht_resize n db) = dbm_map db"
    using map_of_mset [OF m [symmetric] d] by (simp add: dbm_map_def ht_resize_def)
qed (simp_all add: ht_resize_def)

lemma grow_ok:
  assumes "dbm_ok db"
  shows "dbm_ok (grow db)" and "dbm_map (grow db) = dbm_map db"
    and "db_nentries (grow db) = db_nentries db"
  using resize_ok [OF assms, of "db_nbuckets db * 2"] assms
  by (auto simp: grow_def dbm_ok_alt)

lemma fst_notin: "k \<notin> dom (map_of es) \<Longrightarrow> k \<notin> fst ` set es"
  by (simp add: dom_map_of_conv_image_fst)

lemma add_entry_ok:
  assumes ok: "dbm_ok db" and k: "k \<notin> dom (dbm_map db)"
  shows "dbm_ok (add_entry (k, v) db)" and "dbm_map (add_entry (k, v) db) = (dbm_map db)(k \<mapsto> v)"
    and "db_nentries (add_entry (k, v) db) = db_nentries db + 1"
proof -
  let ?g = "grow db"
  let ?bs = "link_entry (db_nbuckets ?g) (k, v) (db_buckets ?g)"
  note g = grow_ok [OF ok]
  have n: "0 < db_nbuckets ?g" and p: "placed (db_nbuckets ?g) (db_buckets ?g)"
    and d: "distinct (map fst (concat (db_buckets ?g)))"
    and len: "db_nentries ?g = length (concat (db_buckets ?g))"
    using g(1) by (simp_all add: dbm_ok_alt)
  have k': "k \<notin> fst ` set (concat (db_buckets ?g))"
    using k g(2) fst_notin [of k "concat (db_buckets ?g)"] unfolding dbm_map_def by simp
  have d': "distinct (map fst ((k, v) # concat (db_buckets ?g)))" using d k' by simp
  have "mset (concat ?bs) = mset ((k, v) # concat (db_buckets ?g))"
    using link_entry_mset [OF n p, of "(k, v)"] by simp
  note ms = mset_set_map [OF this, of fst] map_of_mset [OF this [symmetric] d'] mset_eq_length [OF this]
  show "dbm_ok (add_entry (k, v) db)"
    using link_entry_placed [OF n p, of "(k, v)"] ms d' n len
    by (simp add: add_entry_def Let_def dbm_ok_alt)
  show "dbm_map (add_entry (k, v) db) = (dbm_map db)(k \<mapsto> v)"
    using ms(2) g(2) by (simp add: add_entry_def Let_def dbm_map_def)
  show "db_nentries (add_entry (k, v) db) = db_nentries db + 1"
    using g(3) by (simp add: add_entry_def Let_def)
qed

section \<open>Storing and deleting\<close>

lemma map_fst_replace_val [simp]: "map fst (replace_val k v es) = map fst es"
  by (induction es) auto

lemma set_replace_val:
  "distinct (map fst es) \<Longrightarrow> k \<in> fst ` set es \<Longrightarrow>
   set (replace_val k v es) = insert (k, v) {e \<in> set es. fst e \<noteq> k}"
proof (induction es)
  case (Cons e es)
  show ?case
  proof (cases "fst e = k")
    case True
    with Cons.prems have "k \<notin> fst ` set es" by simp
    then have "{e \<in> set es. fst e \<noteq> k} = set es" by (auto simp: image_iff)
    with True show ?thesis by auto
  next
    case False
    with Cons show ?thesis by auto
  qed
qed simp

lemma unlink_entry_filter:
  "distinct (map fst es) \<Longrightarrow> unlink_entry k es = filter (\<lambda>e. fst e \<noteq> k) es"
proof (induction es)
  case (Cons e es)
  show ?case
  proof (cases "fst e = k")
    case True
    with Cons.prems have "k \<notin> fst ` set es" by simp
    then have "filter (\<lambda>e. fst e \<noteq> k) es = es" by (auto simp: filter_id_conv)
    with True show ?thesis by simp
  next
    case False
    with Cons show ?thesis by simp
  qed
qed simp

lemma map_of_filter_key: "map_of (filter (\<lambda>e. fst e \<noteq> k) es) = (map_of es)(k := None)"
  by (induction es) (auto simp: fun_eq_iff)

lemma filter_key_id: "k \<notin> fst ` set es \<Longrightarrow> filter (\<lambda>e. fst e \<noteq> k) es = es"
  by (auto simp: filter_id_conv)

text \<open>The bucket of \<open>k\<close> and the rest of the table.\<close>

lemma bucket_split:
  assumes ok: "dbm_ok db" and h_def: "h = bucket_of (db_nbuckets db) k"
  obtains A C where "concat (db_buckets db) = A @ db_buckets db ! h @ C"
    "\<And>b. concat ((db_buckets db)[h := b]) = A @ b @ C"
    "k \<notin> fst ` set A" "k \<notin> fst ` set C" "distinct (map fst (A @ db_buckets db ! h @ C))"
proof -
  have h: "h < length (db_buckets db)" using dbm_ok_bucket [OF ok] by (simp add: h_def)
  let ?A = "concat (take h (db_buckets db))" and ?C = "concat (drop (Suc h) (db_buckets db))"
  have pl: "\<forall>i < length (db_buckets db). \<forall>e \<in> set (db_buckets db ! i). bucket_of (db_nbuckets db) (fst e) = i"
    using ok unfolding dbm_ok_def by metis
  have no: "k \<noteq> fst e" if "e \<in> set (db_buckets db ! i)" "i < length (db_buckets db)" "i \<noteq> h" for e i
    using pl that h_def by metis
  have "k \<noteq> fst e" if "e \<in> set ?A" for e
  proof -
    from that obtain i where "i < h" "e \<in> set (db_buckets db ! i)"
      using mem_concat_nth [of e "take h (db_buckets db)"] h by auto
    with no [of e i] h show ?thesis by simp
  qed
  moreover have "k \<noteq> fst e" if "e \<in> set ?C" for e
  proof -
    from that obtain i where "i < length (db_buckets db) - Suc h" "e \<in> set (db_buckets db ! (Suc h + i))"
      using mem_concat_nth [of e "drop (Suc h) (db_buckets db)"] h by auto
    with no [of e "Suc h + i"] show ?thesis by simp
  qed
  ultimately have "k \<notin> fst ` set ?A" "k \<notin> fst ` set ?C" by blast+
  moreover have "distinct (map fst (?A @ db_buckets db ! h @ ?C))"
    using ok buckets_split(1) [OF h] by (metis dbm_ok_alt)
  ultimately show thesis using that buckets_split [OF h] by blast
qed

lemma placed_update:
  assumes "dbm_ok db" and "set (map fst b) \<subseteq> insert k (fst ` set (db_buckets db ! bucket_of (db_nbuckets db) k))"
  shows "placed (db_nbuckets db) ((db_buckets db)[bucket_of (db_nbuckets db) k := b])"
proof -
  let ?h = "bucket_of (db_nbuckets db) k"
  have p: "length (db_buckets db) = db_nbuckets db"
    "\<And>i e. i < db_nbuckets db \<Longrightarrow> e \<in> set (db_buckets db ! i) \<Longrightarrow> bucket_of (db_nbuckets db) (fst e) = i"
    using assms(1) unfolding dbm_ok_alt placed_def by blast+
  have h: "?h < db_nbuckets db" using dbm_ok_bucket [OF assms(1)] p(1) by simp
  have "bucket_of (db_nbuckets db) (fst e) = ?h" if "e \<in> set b" for e
  proof -
    have "fst e = k \<or> fst e \<in> fst ` set (db_buckets db ! ?h)" using assms(2) that by auto
    with p(2) [OF h] show ?thesis by auto
  qed
  with p show ?thesis unfolding placed_def
    by (simp add: nth_list_update split: if_splits) (metis nth_list_update_eq nth_list_update_neq h)
qed

lemma map_of_set_eq:
  assumes "distinct (map fst xs)" "distinct (map fst ys)" "set xs = set ys"
  shows "map_of xs = map_of ys"
  using assms map_of_inject_set by blast

lemma replace_ok:
  assumes ok: "dbm_ok db" and k: "k \<in> dom (dbm_map db)"
    and b_def: "b = (db_buckets db)[bucket_of (db_nbuckets db) k :=
                 replace_val k v (db_buckets db ! bucket_of (db_nbuckets db) k)]"
  shows "dbm_ok (db\<lparr>db_buckets := b, db_dirty := d\<rparr>)" and "map_of (concat b) = (dbm_map db)(k \<mapsto> v)"
proof -
  let ?h = "bucket_of (db_nbuckets db) k"
  let ?e = "db_buckets db ! ?h"
  obtain A C where AC: "concat (db_buckets db) = A @ ?e @ C"
    "\<And>b. concat ((db_buckets db)[?h := b]) = A @ b @ C"
    "k \<notin> fst ` set A" "k \<notin> fst ` set C" "distinct (map fst (A @ ?e @ C))"
    using bucket_split [OF ok refl] by blast
  have c: "concat b = A @ replace_val k v ?e @ C" by (simp add: b_def AC(2))
  have keys: "map fst (concat b) = map fst (concat (db_buckets db))" by (simp add: c AC(1))
  have p: "placed (db_nbuckets db) b"
    unfolding b_def using ok by (intro placed_update) auto
  have "length (concat b) = length (concat (db_buckets db))" using keys by (metis length_map)
  with p keys ok show "dbm_ok (db\<lparr>db_buckets := b, db_dirty := d\<rparr>)" by (simp add: dbm_ok_alt)
  have "k \<in> fst ` set ?e"
    using k AC(3,4) by (auto simp: dbm_map_def AC(1) dom_map_of_conv_image_fst)
  then have "set (concat b) = set ((k, v) # filter (\<lambda>e. fst e \<noteq> k) (concat (db_buckets db)))"
    using AC(3-5) by (auto simp: c AC(1) set_replace_val filter_key_id)
  then have "map_of (concat b) = map_of ((k, v) # filter (\<lambda>e. fst e \<noteq> k) (concat (db_buckets db)))"
    using keys AC(1,5) by (intro map_of_set_eq) (auto simp: distinct_map_filter)
  then show "map_of (concat b) = (dbm_map db)(k \<mapsto> v)"
    by (simp add: map_of_filter_key dbm_map_def)
qed

lemma unlink_ok:
  assumes ok: "dbm_ok db" and k: "k \<in> dom (dbm_map db)"
    and b_def: "b = (db_buckets db)[bucket_of (db_nbuckets db) k :=
                 unlink_entry k (db_buckets db ! bucket_of (db_nbuckets db) k)]"
  shows "dbm_ok (db\<lparr>db_buckets := b, db_nentries := db_nentries db - 1, db_dirty := d\<rparr>)"
    and "map_of (concat b) = (dbm_map db)(k := None)"
proof -
  let ?h = "bucket_of (db_nbuckets db) k"
  let ?e = "db_buckets db ! ?h"
  obtain A C where AC: "concat (db_buckets db) = A @ ?e @ C"
    "\<And>b. concat ((db_buckets db)[?h := b]) = A @ b @ C"
    "k \<notin> fst ` set A" "k \<notin> fst ` set C" "distinct (map fst (A @ ?e @ C))"
    using bucket_split [OF ok refl] by blast
  have c: "concat b = filter (\<lambda>e. fst e \<noteq> k) (concat (db_buckets db))"
    using AC by (simp add: b_def unlink_entry_filter filter_key_id)
  have "placed (db_nbuckets db) b"
    unfolding b_def using ok AC(5) by (intro placed_update) (auto simp: unlink_entry_filter)
  moreover have d': "distinct (map fst (concat (db_buckets db)))" using AC(1,5) by simp
  have "length (filter (\<lambda>e. fst e = k) (concat (db_buckets db))) = 1"
  proof -
    from k obtain v where kv: "(k, v) \<in> set (concat (db_buckets db))"
      unfolding dbm_map_def by (metis domD map_of_SomeD)
    have "set (filter (\<lambda>e. fst e = k) (concat (db_buckets db))) = {(k, v)}"
    proof (rule set_eqI)
      fix e
      show "e \<in> set (filter (\<lambda>e. fst e = k) (concat (db_buckets db))) \<longleftrightarrow> e \<in> {(k, v)}"
        using kv d' by (cases e) (auto simp del: set_concat dest: eq_key_imp_eq_value)
    qed
    moreover have "distinct (filter (\<lambda>e. fst e = k) (concat (db_buckets db)))"
      using d' by (simp add: distinct_map)
    ultimately show ?thesis by (metis distinct_card card.empty card_insert_if empty_iff finite.emptyI One_nat_def)
  qed
  then have "length (concat b) = db_nentries db - 1"
    using ok sum_length_filter_compl [of "\<lambda>e. fst e = k" "concat (db_buckets db)"]
    by (simp add: c dbm_ok_alt)
  moreover have "distinct (map fst (concat b))" using d' by (simp add: c distinct_map_filter)
  ultimately show "dbm_ok (db\<lparr>db_buckets := b, db_nentries := db_nentries db - 1, db_dirty := d\<rparr>)"
    using ok by (simp add: dbm_ok_alt)
  show "map_of (concat b) = (dbm_map db)(k := None)"
    by (simp add: c map_of_filter_key dbm_map_def)
qed

section \<open>The interface\<close>

lemma datum_bytes_of [simp]: "datum_bytes (datum_of s) = s" "dptr (datum_of s) = Some s"
  by (simp_all add: datum_bytes_def datum_of_def)

text \<open>A key/value store, as the user database sees it.\<close>

locale kv_store =
  fixes ok :: "'s \<Rightarrow> bool"
    and look :: "'s \<Rightarrow> bytes \<Rightarrow> bytes option"
    and put :: "bytes \<Rightarrow> bytes \<Rightarrow> 's \<Rightarrow> 's"
    and del :: "bytes \<Rightarrow> 's \<Rightarrow> int \<times> 's"
  assumes ok_put: "ok s \<Longrightarrow> ok (put k v s)"
    and ok_del: "ok s \<Longrightarrow> ok (snd (del k s))"
    and look_put: "ok s \<Longrightarrow> look (put k v s) = (look s)(k \<mapsto> v)"
    and look_del: "ok s \<Longrightarrow> look (snd (del k s)) = (look s)(k := None)"
    and del_result: "ok s \<Longrightarrow> fst (del k s) = (if look s k = None then -1 else 0)"
begin

lemma look_put_same: "ok s \<Longrightarrow> look (put k v s) k = Some v"
  by (simp add: look_put)

lemma look_put_other: "ok s \<Longrightarrow> k \<noteq> k' \<Longrightarrow> look (put k v s) k' = look s k'"
  by (simp add: look_put)

lemma put_all_ok: "ok s \<Longrightarrow> ok (fold (\<lambda>(k, v). put k v) kvs s)"
  by (induction kvs arbitrary: s) (auto simp: ok_put)

text \<open>A run of stores is a map update.\<close>

lemma look_put_all: "ok s \<Longrightarrow> look (fold (\<lambda>(k, v). put k v) kvs s) = look s ++ map_of (rev kvs)"
proof (induction kvs arbitrary: s)
  case (Cons kv kvs)
  obtain k v where kv: "kv = (k, v)" by (cases kv)
  have "look (fold (\<lambda>(k, v). put k v) (kv # kvs) s) = (look s)(k \<mapsto> v) ++ map_of (rev kvs)"
    by (simp only: kv fold_simps prod.case Cons.IH [OF ok_put [OF Cons.prems]] look_put [OF Cons.prems])
  also have "\<dots> = look s ++ map_of (rev (kv # kvs))"
    by (auto simp: kv map_add_def fun_eq_iff split: option.split)
  finally show ?case .
qed simp

lemma put_del_old: "ok s \<Longrightarrow> look s k = None \<Longrightarrow> look (snd (del k (put k v s))) = look s"
  by (auto simp: look_del look_put ok_put)

end

definition kv_put :: "bytes \<Rightarrow> bytes \<Rightarrow> dbm \<Rightarrow> dbm" where
  "kv_put k v db = the (snd (dbm_store (Some db) (datum_of k) (datum_of v) DBM_REPLACE))"

definition kv_del :: "bytes \<Rightarrow> dbm \<Rightarrow> int \<times> dbm" where
  "kv_del k db = apsnd the (dbm_delete (Some db) (datum_of k))"

definition kv_look :: "dbm \<Rightarrow> bytes \<Rightarrow> bytes option" where
  "kv_look db k = dptr (dbm_fetch (Some db) (datum_of k))"

lemma kv_look_map: "dbm_ok db \<Longrightarrow> kv_look db = dbm_map db"
  by (rule ext) (simp add: kv_look_def dbm_fetch_def ht_find_map null_datum_def split: option.split)

lemma store_result:
  assumes "dbm_ok db"
  obtains db' where "dbm_store (Some db) (datum_of k) (datum_of v) DBM_REPLACE = (0, Some db')"
    "dbm_ok db'" "dbm_map db' = (dbm_map db)(k \<mapsto> v)" "db_dirty db'" "db_path db' = db_path db"
proof (cases "dbm_map db k")
  case None
  then have k: "k \<notin> dom (dbm_map db)" by blast
  let ?db = "(add_entry (k, v) db)\<lparr>db_dirty := True\<rparr>"
  have "dbm_store (Some db) (datum_of k) (datum_of v) DBM_REPLACE = (0, Some ?db)"
    using None assms by (simp add: dbm_store_def ht_find_map Let_def)
  moreover have "dbm_ok ?db" using add_entry_ok(1) [OF assms k, of v] by (simp add: dbm_ok_alt)
  moreover have "dbm_map ?db = (dbm_map db)(k \<mapsto> v)"
    using add_entry_ok(2) [OF assms k, of v] by (simp add: dbm_map_def)
  moreover have "db_path ?db = db_path db" by (simp add: add_entry_def Let_def grow_def ht_resize_def)
  ultimately show thesis using that by simp
next
  case (Some w)
  then have k: "k \<in> dom (dbm_map db)" by blast
  from Some assms that [OF _ replace_ok(1) [OF assms k refl]] replace_ok(2) [OF assms k refl]
  show thesis by (simp add: dbm_store_def ht_find_map Let_def dbm_map_def)
qed

lemma delete_result:
  assumes "dbm_ok db"
  obtains db' where "dbm_delete (Some db) (datum_of k) = (if dbm_map db k = None then -1 else 0, Some db')"
    "dbm_ok db'" "dbm_map db' = (dbm_map db)(k := None)"
proof (cases "dbm_map db k")
  case None
  with assms that [of db] show thesis
    by (simp add: dbm_delete_def ht_find_map Let_def fun_upd_idem)
next
  case (Some w)
  then have k: "k \<in> dom (dbm_map db)" by blast
  from Some assms that [OF _ unlink_ok(1) [OF assms k refl]] unlink_ok(2) [OF assms k refl]
  show thesis by (simp add: dbm_delete_def ht_find_map Let_def dbm_map_def)
qed

lemma kv_put_ok:
  assumes "dbm_ok db"
  shows "dbm_ok (kv_put k v db)" and "dbm_map (kv_put k v db) = (dbm_map db)(k \<mapsto> v)"
proof -
  obtain db' where d: "dbm_store (Some db) (datum_of k) (datum_of v) DBM_REPLACE = (0, Some db')"
    "dbm_ok db'" "dbm_map db' = (dbm_map db)(k \<mapsto> v)"
    using store_result [OF assms] by blast
  then have "kv_put k v db = db'" by (simp add: kv_put_def)
  with d show "dbm_ok (kv_put k v db)" "dbm_map (kv_put k v db) = (dbm_map db)(k \<mapsto> v)" by simp_all
qed

lemma kv_del_ok:
  assumes "dbm_ok db"
  shows "dbm_ok (snd (kv_del k db))" and "dbm_map (snd (kv_del k db)) = (dbm_map db)(k := None)"
    and "fst (kv_del k db) = (if dbm_map db k = None then -1 else 0)"
proof -
  obtain db' where d: "dbm_delete (Some db) (datum_of k) = (if dbm_map db k = None then -1 else 0, Some db')"
    "dbm_ok db'" "dbm_map db' = (dbm_map db)(k := None)"
    using delete_result [OF assms] by blast
  then have "kv_del k db = (if dbm_map db k = None then -1 else 0, db')"
    by (simp only: kv_del_def apsnd_conv option.sel)
  with d show "dbm_ok (snd (kv_del k db))" "dbm_map (snd (kv_del k db)) = (dbm_map db)(k := None)"
    "fst (kv_del k db) = (if dbm_map db k = None then -1 else 0)" by simp_all
qed

interpretation db: kv_store dbm_ok kv_look kv_put kv_del
  by unfold_locales (simp_all add: kv_look_map kv_put_ok kv_del_ok)

section \<open>Files\<close>

lemma length_put32 [simp]: "length (put32 v) = 4"
  by (simp add: put32_def)

lemma get32_put32: "v < 2 ^ 32 \<Longrightarrow> get32 (put32 v @ r) = v"
proof -
  assume "v < 2 ^ 32"
  then have v: "take_bit 32 v = v" by (simp add: take_bit_eq_mod)
  have b: "byte_of (char_of n) = take_bit 8 n" for n :: nat
    by (simp add: take_bit_eq_mod)
  have g: "get32 (put32 v @ r) = take_bit 8 v OR push_bit 8 (take_bit 8 (drop_bit 8 v))
      OR push_bit 16 (take_bit 8 (drop_bit 16 v)) OR push_bit 24 (take_bit 8 (drop_bit 24 v))"
    by (simp only: get32_def put32_def append_Cons nth_Cons_0 nth_Cons_Suc One_nat_def
        numeral_2_eq_2 numeral_3_eq_3 b)
  have "get32 (put32 v @ r) = take_bit 32 v"
    unfolding g
  proof (rule bit_eqI)
    fix n :: nat
    consider "n < 8" | "8 \<le> n" "n < 16" | "16 \<le> n" "n < 24" | "24 \<le> n" by linarith
    then show "bit (take_bit 8 v OR push_bit 8 (take_bit 8 (drop_bit 8 v))
        OR push_bit 16 (take_bit 8 (drop_bit 16 v)) OR push_bit 24 (take_bit 8 (drop_bit 24 v))) n
      = bit (take_bit 32 v) n"
      by cases (auto simp: bit_simps)
  qed
  with v show ?thesis by simp
qed

lemma xread_append [simp]: "xread (length a) (a @ b) = Some (a, b)"
  by (simp add: xread_def)

lemma xread_append_n: "n = length a \<Longrightarrow> xread n (a @ b) = Some (a, b)"
  by simp

definition fits :: "entry \<Rightarrow> bool" where
  "fits e \<longleftrightarrow> length (fst e) \<le> ICB_DBM_MAX_RECSIZE \<and> length (snd e) \<le> ICB_DBM_MAX_RECSIZE"

lemma load_loop_step:
  assumes "fits e"
  shows "load_loop (Suc i) (entry_bytes e @ s) db = load_loop i s (add_entry e db)"
proof -
  obtain k v where e: "e = (k, v)" by (cases e)
  have len: "length k < 2 ^ 32" "length v < 2 ^ 32"
    using assms by (simp_all add: fits_def e ICB_DBM_MAX_RECSIZE_def)
  have "xread 8 (entry_bytes e @ s) = Some (put32 (length k) @ put32 (length v), k @ v @ s)"
    using xread_append_n [of 8 "put32 (length k) @ put32 (length v)" "k @ v @ s"]
    by (simp add: entry_bytes_def e)
  moreover have "get32 (put32 (length k) @ put32 (length v)) = length k"
    "get32 (drop 4 (put32 (length k) @ put32 (length v))) = length v"
    using get32_put32 [OF len(1)] get32_put32 [OF len(2), of "[]"] by simp_all
  ultimately show ?thesis using assms by (simp add: e fits_def)
qed

lemma load_loop_entries:
  "\<forall>e \<in> set es. fits e \<Longrightarrow>
   load_loop (length es) (concat (map entry_bytes es)) db = Some (fold add_entry es db)"
proof (induction es arbitrary: db)
  case (Cons e es)
  then show ?case using load_loop_step [of e "length es" "concat (map entry_bytes es)"] by simp
qed simp

lemma fold_add_entry:
  "dbm_ok db \<Longrightarrow> distinct (map fst es) \<Longrightarrow> fst ` set es \<inter> dom (dbm_map db) = {} \<Longrightarrow>
   dbm_ok (fold add_entry es db) \<and> dbm_map (fold add_entry es db) = dbm_map db ++ map_of es"
proof (induction es arbitrary: db)
  case (Cons e es)
  obtain k v where e: "e = (k, v)" by (cases e)
  have k: "k \<notin> dom (dbm_map db)" using Cons.prems(3) e by auto
  have "fst ` set es \<inter> dom (dbm_map (add_entry e db)) = {}"
    using Cons.prems e add_entry_ok(2) [OF Cons.prems(1) k, of v] by auto
  moreover have "distinct (map fst es)" using Cons.prems(2) by simp
  ultimately have "dbm_ok (fold add_entry (e # es) db)
    \<and> dbm_map (fold add_entry (e # es) db) = (dbm_map db)(k \<mapsto> v) ++ map_of es"
    using Cons.IH [of "add_entry e db"] add_entry_ok [OF Cons.prems(1) k, of v]
    unfolding e fold_simps by metis
  moreover have "map_of es k = None" using Cons.prems(2) e by (simp add: map_of_eq_None_iff)
  then have "(dbm_map db)(k \<mapsto> v) ++ map_of es = dbm_map db ++ map_of (e # es)"
    by (auto simp: e map_add_def fun_eq_iff split: option.split)
  ultimately show ?case by (simp only:)
qed simp

lemma load_file_bytes:
  assumes ok: "dbm_ok db" and fit: "\<forall>e \<in> set (concat (db_buckets db)). fits e"
    and n: "db_nentries db < 2 ^ 32"
  shows "load_file (Data (file_bytes db)) db0 = Some (fold add_entry (concat (db_buckets db)) db0)"
proof -
  let ?body = "concat (map entry_bytes (concat (db_buckets db)))"
  have "xread 8 (file_bytes db) = Some (ICB_DBM_MAGIC @ put32 (db_nentries db), ?body)"
    using xread_append_n [of 8 "ICB_DBM_MAGIC @ put32 (db_nentries db)" ?body]
    by (simp add: file_bytes_def ICB_DBM_MAGIC_def)
  moreover have "take 4 (ICB_DBM_MAGIC @ x) = ICB_DBM_MAGIC" "drop 4 (ICB_DBM_MAGIC @ x) = x" for x
    by (simp_all add: ICB_DBM_MAGIC_def)
  moreover have "get32 (put32 (db_nentries db)) = length (concat (db_buckets db))"
    using get32_put32 [OF n, of "[]"] ok by (simp add: dbm_ok_alt)
  ultimately show ?thesis
    using load_loop_entries [OF fit, of db0] by (simp add: load_file_def ICB_DBM_HDR_SIZE_def)
qed

lemma dbm_open_fresh:
  "dbm_ok \<lparr>db_path = p, db_mode = m, db_dirty = d, db_buckets = replicate ICB_DBM_INIT_BUCKETS [],
           db_nbuckets = ICB_DBM_INIT_BUCKETS, db_nentries = 0\<rparr>"
  by (simp add: dbm_ok_alt placed_empty ICB_DBM_INIT_BUCKETS_def)

section \<open>Properties\<close>

text \<open>
  C23 (the hash table is a map): on a well-formed table, storing with \<open>DBM_REPLACE\<close> returns 0
  and updates the map at the key and nowhere else, \<open>DBM_INSERT\<close> refuses an existing key and
  changes nothing, deleting returns 0 exactly for a present key and removes it only, and
  fetching returns what was stored last. Growing the table on the way changes nothing, and
  the table stays well-formed.
\<close>

theorem dbm_map_correct:
  assumes ok: "dbm_ok db"
  shows "kv_look (kv_put k v db) = (kv_look db)(k \<mapsto> v) \<and> dbm_ok (kv_put k v db)
    \<and> fst (dbm_store (Some db) (datum_of k) (datum_of v) DBM_REPLACE) = 0
    \<and> (kv_look db k \<noteq> None \<longrightarrow>
         dbm_store (Some db) (datum_of k) (datum_of v) DBM_INSERT = (1, Some db))
    \<and> fst (kv_del k db) = (if kv_look db k = None then -1 else 0)
    \<and> kv_look (snd (kv_del k db)) = (kv_look db)(k := None) \<and> dbm_ok (snd (kv_del k db))"
proof (intro conjI)
  show "fst (dbm_store (Some db) (datum_of k) (datum_of v) DBM_REPLACE) = 0"
    using store_result [OF ok, of k v] by (metis fst_conv)
  show "kv_look db k \<noteq> None \<longrightarrow>
      dbm_store (Some db) (datum_of k) (datum_of v) DBM_INSERT = (1, Some db)"
    using ok by (auto simp: kv_look_map dbm_store_def ht_find_map Let_def)
qed (rule db.look_put [OF ok] db.ok_put [OF ok] db.look_del [OF ok] db.ok_del [OF ok]
      db.del_result [OF ok])+

theorem dbm_map_correct_witness:
  "\<exists>db. dbm_open ''icbdb'' 0 (\<lambda>_. Absent) = Some db
     \<and> kv_look (kv_put ''a.nick'' ''bob'' db) ''a.nick'' = Some ''bob''"
proof -
  let ?db = "\<lparr>db_path = ''icbdb.db'', db_mode = 384, db_dirty = False,
    db_buckets = replicate ICB_DBM_INIT_BUCKETS [], db_nbuckets = ICB_DBM_INIT_BUCKETS,
    db_nentries = 0\<rparr>"
  have "dbm_open ''icbdb'' 0 (\<lambda>_. Absent) = Some ?db"
    by (simp add: dbm_open_def load_file_def)
  with dbm_map_correct [OF dbm_open_fresh, of "''a.nick''" "''bob''" "''icbdb.db''" 384 False]
  show ?thesis by simp
qed

text \<open>
  C24 (what is closed is what is opened): if every key and value is at most 1 MiB long,
  closing a changed database and opening it again gives a well-formed table with the same
  contents.
\<close>

theorem dbm_close_open:
  assumes ok: "dbm_ok db" and dirty: "db_dirty db" and path: "db_path db = f @ ''.db''"
    and fit: "\<forall>k v. kv_look db k = Some v \<longrightarrow> fits (k, v)" and n: "db_nentries db < 2 ^ 32"
  shows "\<exists>db'. dbm_open f m (dbm_close Written (Some db) fs) = Some db'
     \<and> dbm_ok db' \<and> kv_look db' = kv_look db"
proof -
  have d: "distinct (map fst (concat (db_buckets db)))" using ok by (simp add: dbm_ok_alt)
  have "\<forall>e \<in> set (concat (db_buckets db)). fits e"
  proof
    fix e assume e: "e \<in> set (concat (db_buckets db))"
    then have "kv_look db (fst e) = Some (snd e)"
      unfolding kv_look_map [OF ok] dbm_map_def by (intro map_of_is_SomeI [OF d]) simp
    with fit show "fits e" by fastforce
  qed
  note load = load_file_bytes [OF ok this n]
  let ?db0 = "\<lparr>db_path = f @ ''.db'', db_mode = (if m \<noteq> 0 then m else 384), db_dirty = False,
    db_buckets = replicate ICB_DBM_INIT_BUCKETS [], db_nbuckets = ICB_DBM_INIT_BUCKETS,
    db_nentries = 0\<rparr>"
  have e0: "dbm_map ?db0 = Map.empty" by (simp add: dbm_map_def ICB_DBM_INIT_BUCKETS_def)
  let ?db' = "fold add_entry (concat (db_buckets db)) ?db0"
  have r: "dbm_ok ?db'" "dbm_map ?db' = dbm_map db"
    using fold_add_entry [OF dbm_open_fresh d, of "f @ ''.db''" "if m \<noteq> 0 then m else 384" False]
    unfolding e0 by (simp_all add: dbm_map_def)
  have "dbm_open f m (dbm_close Written (Some db) fs) = Some ?db'"
    using dirty path load [of ?db0] by (simp add: dbm_open_def dbm_close_def flush_file_def Let_def)
  with r ok show ?thesis by (auto simp: kv_look_map)
qed

theorem dbm_close_open_witness:
  "\<exists>db db'. kv_look db ''a.nick'' = Some ''bob''
     \<and> dbm_open ''icbdb'' 0 (dbm_close Written (Some db) (\<lambda>_. Absent)) = Some db'
     \<and> kv_look db' ''a.nick'' = Some ''bob''"
proof -
  let ?db0 = "\<lparr>db_path = ''icbdb'' @ ''.db'', db_mode = 384, db_dirty = False,
    db_buckets = replicate ICB_DBM_INIT_BUCKETS [], db_nbuckets = ICB_DBM_INIT_BUCKETS,
    db_nentries = 0\<rparr>"
  obtain db where db: "dbm_ok db" "dbm_map db = (dbm_map ?db0)(''a.nick'' \<mapsto> ''bob'')"
    "db_dirty db" "db_path db = ''icbdb'' @ ''.db''"
    using store_result [OF dbm_open_fresh] by (metis dbm.select_convs(1))
  have look: "kv_look db = [''a.nick'' \<mapsto> ''bob'']"
    using db by (simp add: kv_look_map dbm_map_def ICB_DBM_INIT_BUCKETS_def)
  then have fit: "\<forall>k v. kv_look db k = Some v \<longrightarrow> fits (k, v)"
    by (simp add: fits_def ICB_DBM_MAX_RECSIZE_def)
  have "dbm_map db = [''a.nick'' \<mapsto> ''bob'']" using look kv_look_map [OF db(1)] by simp
  then have "fst ` set (concat (db_buckets db)) = {''a.nick''}"
    unfolding dbm_map_def by (metis dom_map_of_conv_image_fst dom_empty dom_fun_upd option.discI)
  moreover have "db_nentries db = card (fst ` set (concat (db_buckets db)))"
    using db(1) distinct_card [of "map fst (concat (db_buckets db))"] by (simp add: dbm_ok_alt)
  ultimately have "db_nentries db < 2 ^ 32" by simp
  from dbm_close_open [OF db(1) db(3) db(4) fit this, of 0 "\<lambda>_. Absent"] look show ?thesis
    by (metis fun_upd_same)
qed



end
