(* ===== verification/StrList.thy ===== *)
theory StrList
  imports Prelude "HOL-Library.Multiset"
begin

text \<open>
  \<open>server/strlist.c\<close>: the doubly linked list of strings, at the level of the heap.
  A node is a record at an address, a pointer is an optional address, and every
  dereference of \<open>NULL\<close> or of an unallocated address makes the operation return
  \<open>None\<close>. The invariant \<open>dll\<close> says that head, tail and the links of the nodes spell
  one address list; each operation is shown to implement the list operation its comment
  promises, to touch only the nodes of its list, and never to fault.
\<close>

section \<open>Nodes, pointers and the heap\<close>

type_synonym addr = nat
type_synonym ptr = "addr option"

record strnode =
  sl_next :: ptr
  sl_prev :: ptr
  sl_str :: cstring

type_synonym heap = "addr \<rightharpoonup> strnode"

text \<open>The heap with the two cells \<open>*head\<close> and \<open>*tail\<close> the list functions write.\<close>

type_synonym dstate = "heap \<times> ptr \<times> ptr"

definition deref :: "heap \<Rightarrow> ptr \<Rightarrow> strnode option" where
  "deref h p = Option.bind p h"

definition set_next :: "ptr \<Rightarrow> ptr \<Rightarrow> heap \<Rightarrow> heap option" where
  "set_next p v h = do { a \<leftarrow> p; n \<leftarrow> h a; Some (h(a \<mapsto> n\<lparr>sl_next := v\<rparr>)) }"

definition set_prev :: "ptr \<Rightarrow> ptr \<Rightarrow> heap \<Rightarrow> heap option" where
  "set_prev p v h = do { a \<leftarrow> p; n \<leftarrow> h a; Some (h(a \<mapsto> n\<lparr>sl_prev := v\<rparr>)) }"

section \<open>The operations\<close>

text \<open>\<open>malloc\<close> hands out an address or fails; the address is an argument.\<close>

definition strmakenode :: "ptr \<Rightarrow> heap \<Rightarrow> heap \<times> ptr" where
  "strmakenode mem h =
     (case mem of None \<Rightarrow> (h, None)
      | Some a \<Rightarrow> (h(a \<mapsto> \<lparr>sl_next = None, sl_prev = None, sl_str = []\<rparr>), Some a))"

fun strlinkhead :: "addr \<Rightarrow> dstate \<Rightarrow> dstate option" where
  "strlinkhead s (h, hp, tp) =
     (if tp = None then do {
        h \<leftarrow> set_next (Some s) None h;
        h \<leftarrow> set_prev (Some s) None h;
        Some (h, Some s, Some s) }
      else do {
        h \<leftarrow> set_prev hp (Some s) h;
        h \<leftarrow> set_prev (Some s) None h;
        h \<leftarrow> set_next (Some s) hp h;
        Some (h, Some s, tp) })"

fun strlinktail :: "addr \<Rightarrow> dstate \<Rightarrow> dstate option" where
  "strlinktail s (h, hp, tp) =
     (if hp = None then do {
        h \<leftarrow> set_next (Some s) None h;
        h \<leftarrow> set_prev (Some s) None h;
        Some (h, Some s, Some s) }
      else do {
        h \<leftarrow> set_next tp (Some s) h;
        h \<leftarrow> set_prev (Some s) tp h;
        h \<leftarrow> set_next (Some s) None h;
        Some (h, hp, Some s) })"

fun strlinkafter :: "addr \<Rightarrow> addr \<Rightarrow> dstate \<Rightarrow> dstate option" where
  "strlinkafter s i (h, hp, tp) = do {
     h \<leftarrow> set_prev (Some s) (Some i) h;
     ni \<leftarrow> h i;
     h \<leftarrow> set_next (Some s) (sl_next ni) h;
     h \<leftarrow> set_next (Some i) (Some s) h;
     if Some i = tp then Some (h, hp, Some s)
     else do { ns \<leftarrow> h s; h \<leftarrow> set_prev (sl_next ns) (Some s) h; Some (h, hp, tp) } }"

fun strlinkbefore :: "addr \<Rightarrow> addr \<Rightarrow> dstate \<Rightarrow> dstate option" where
  "strlinkbefore s i (h, hp, tp) = do {
     ni \<leftarrow> h i;
     h \<leftarrow> set_prev (Some s) (sl_prev ni) h;
     h \<leftarrow> set_next (Some s) (Some i) h;
     h \<leftarrow> set_prev (Some i) (Some s) h;
     ns \<leftarrow> h s;
     if sl_prev ns \<noteq> None then do {
       h \<leftarrow> set_next (sl_prev ns) (Some s) h; Some (h, hp, tp) }
     else Some (h, Some s, tp) }"

fun strunlink :: "addr \<Rightarrow> dstate \<Rightarrow> dstate option" where
  "strunlink s (h, hp, tp) = do {
     n \<leftarrow> h s;
     if sl_prev n = None then
       (if sl_next n \<noteq> None then do {
          h \<leftarrow> set_prev (sl_next n) None h; Some (h, sl_next n, tp) }
        else Some (h, None, None))
     else if sl_next n = None then do {
       h \<leftarrow> set_next (sl_prev n) None h; Some (h, hp, sl_prev n) }
     else do {
       h \<leftarrow> set_next (sl_prev n) (sl_next n) h;
       h \<leftarrow> set_prev (sl_next n) (sl_prev n) h;
       Some (h, hp, tp) } }"

text \<open>
  The search loops. On a cyclic list they would not return; \<open>partial_function\<close> gives
  \<open>None\<close> there, and the lemmas below show they return on every list that satisfies
  \<open>dll\<close>.
\<close>

partial_function (option) alpha_point :: "bool \<Rightarrow> cstring \<Rightarrow> heap \<Rightarrow> ptr \<Rightarrow> ptr option" where
  "alpha_point ci str h i =
     (case i of None \<Rightarrow> Some None
      | Some a \<Rightarrow> (case h a of None \<Rightarrow> None
          | Some n \<Rightarrow>
              if (if ci then strcasecmp str (sl_str n) < 0 else strcmp str (sl_str n) < 0)
              then Some i else alpha_point ci str h (sl_next n)))"

fun strlinkalpha :: "addr \<Rightarrow> bool \<Rightarrow> dstate \<Rightarrow> dstate option" where
  "strlinkalpha s ci (h, hp, tp) =
     (if hp = None then strlinkhead s (h, hp, tp)
      else do {
        ns \<leftarrow> h s;
        i \<leftarrow> alpha_point ci (sl_str ns) h hp;
        case i of
          Some a \<Rightarrow> if i = hp then strlinkhead s (h, hp, tp)
                    else strlinkbefore s a (h, hp, tp)
        | None \<Rightarrow> strlinktail s (h, hp, tp) })"

text \<open>
  \<open>strgetnode\<close> is given the matching test of its \<open>caseindep\<close>/\<open>pattern\<close> flags: the
  equality tests below, or \<open>wildmat\<close>.
\<close>

partial_function (option) strgetnode ::
    "(cstring \<Rightarrow> cstring \<Rightarrow> bool) \<Rightarrow> cstring \<Rightarrow> heap \<Rightarrow> ptr \<Rightarrow> ptr option" where
  "strgetnode test str h p =
     (case p of None \<Rightarrow> Some None
      | Some a \<Rightarrow> (case h a of None \<Rightarrow> None
          | Some n \<Rightarrow> if test str (sl_str n) then Some p
                      else strgetnode test str h (sl_next n)))"

section \<open>List segments\<close>

definition first_or :: "ptr \<Rightarrow> addr list \<Rightarrow> ptr" where
  "first_or q as = (case as of [] \<Rightarrow> q | a # _ \<Rightarrow> Some a)"

definition last_or :: "ptr \<Rightarrow> addr list \<Rightarrow> ptr" where
  "last_or p as = (if as = [] then p else Some (last as))"

fun lseg :: "heap \<Rightarrow> ptr \<Rightarrow> addr list \<Rightarrow> ptr \<Rightarrow> bool" where
  "lseg h p [] q = True"
| "lseg h p (a # as) q =
     ((\<exists>n. h a = Some n \<and> sl_prev n = p \<and> sl_next n = first_or q as) \<and> lseg h (Some a) as q)"

definition dll :: "dstate \<Rightarrow> addr list \<Rightarrow> bool" where
  "dll d as \<longleftrightarrow> (case d of (h, hp, tp) \<Rightarrow>
     lseg h None as None \<and> distinct as \<and> hp = first_or None as \<and> tp = last_or None as)"

text \<open>Strings of nodes, and the part of the heap an operation leaves alone.\<close>

definition strs :: "heap \<Rightarrow> addr list \<Rightarrow> cstring list" where
  "strs h as = map (\<lambda>a. sl_str (the (h a))) as"

definition frame :: "addr set \<Rightarrow> heap \<Rightarrow> heap \<Rightarrow> bool" where
  "frame S h h' \<longleftrightarrow>
     (\<forall>b. b \<notin> S \<longrightarrow> h' b = h b) \<and> (\<forall>b. map_option sl_str (h' b) = map_option sl_str (h b))"

lemma first_or_simps [simp]:
  "first_or q [] = q" "first_or q (a # as) = Some a"
  "first_or q (as @ bs) = first_or (first_or q bs) as"
  by (simp_all add: first_or_def split: list.split)

lemma last_or_simps [simp]:
  "last_or p [] = p" "last_or p (as @ [a]) = Some a"
  "last_or p (a # as) = last_or (Some a) as"
  "last_or p (as @ bs) = last_or (last_or p as) bs"
  by (simp_all add: last_or_def)

lemma first_or_None [simp]: "first_or None as = None \<longleftrightarrow> as = []"
  by (cases as) auto

lemma last_or_None [simp]: "last_or None as = None \<longleftrightarrow> as = []"
  by (cases as) (auto simp: last_or_def)

lemma first_or_Some [simp]: "\<exists>y. first_or (Some b) as = Some y"
  by (cases as) auto

lemma last_or_Some [simp]: "\<exists>y. last_or (Some b) as = Some y"
  by (simp add: last_or_def)

lemma lseg_append [simp]:
  "lseg h p (xs @ ys) q \<longleftrightarrow> lseg h p xs (first_or q ys) \<and> lseg h (last_or p xs) ys q"
  by (induction xs arbitrary: p) auto

lemma lseg_upd [simp]: "a \<notin> set as \<Longrightarrow> lseg (h(a := v)) p as q = lseg h p as q"
  by (induction as arbitrary: p) auto

lemma lseg_alloc: "lseg h p as q \<Longrightarrow> a \<in> set as \<Longrightarrow> \<exists>n. h a = Some n"
  by (induction as arbitrary: p) auto

lemma set_next_Some [heap_simps]:
  "set_next (Some a) v h = map_option (\<lambda>n. h(a \<mapsto> n\<lparr>sl_next := v\<rparr>)) (h a)"
  by (simp add: set_next_def split: Option.bind_split)

lemma set_prev_Some [heap_simps]:
  "set_prev (Some a) v h = map_option (\<lambda>n. h(a \<mapsto> n\<lparr>sl_prev := v\<rparr>)) (h a)"
  by (simp add: set_prev_def split: Option.bind_split)

lemma frame_refl [simp]: "frame S h h"
  by (simp add: frame_def)

lemma frame_trans: "frame S h h' \<Longrightarrow> frame S h' h'' \<Longrightarrow> frame S h h''"
  by (simp add: frame_def)

lemma frame_mono: "frame S h h' \<Longrightarrow> S \<subseteq> T \<Longrightarrow> frame T h h'"
  by (auto simp: frame_def)

lemma frame_upd:
  "a \<in> S \<Longrightarrow> map_option sl_str (h a) = Some (sl_str n) \<Longrightarrow> frame S h h' \<Longrightarrow>
   frame S h (h'(a \<mapsto> n))"
  by (auto simp: frame_def)

lemma frame_strs:
  assumes "frame S h h'"
  shows "strs h' as = strs h as"
proof -
  have "sl_str (the (h' a)) = sl_str (the (h a))" for a
    using assms unfolding frame_def by (cases "h a"; cases "h' a") (auto dest: spec [of _ a])
  then show ?thesis by (simp add: strs_def)
qed

section \<open>The operations implement list operations\<close>

text \<open>
  One pattern for all of them: on a heap that holds the list \<open>as\<close>, the operation returns
  (no fault), the result holds the new address list, and the frame holds.
\<close>

definition implements :: "dstate option \<Rightarrow> heap \<Rightarrow> addr set \<Rightarrow> addr list \<Rightarrow> bool" where
  "implements r h S as \<longleftrightarrow>
     (\<exists>h' hp tp. r = Some (h', hp, tp) \<and> dll (h', hp, tp) as \<and> frame S h h')"

lemma implementsI:
  "r = Some (h', hp, tp) \<Longrightarrow> dll (h', hp, tp) as \<Longrightarrow> frame S h h' \<Longrightarrow> implements r h S as"
  by (auto simp: implements_def)

lemma strlinkhead_implements:
  assumes "dll (h, hp, tp) as" and "s \<notin> set as" and "h s = Some n"
  shows "implements (strlinkhead s (h, hp, tp)) h (insert s (set as)) (s # as)"
proof (cases as)
  case Nil
  with assms show ?thesis
    by (auto simp: dll_def heap_simps implements_def intro!: frame_upd)
next
  case (Cons b bs)
  with assms show ?thesis
    by (auto simp: dll_def heap_simps implements_def last_or_def intro!: frame_upd)
qed

lemma strlinktail_implements:
  assumes "dll (h, hp, tp) as" and "s \<notin> set as" and "h s = Some n"
  shows "implements (strlinktail s (h, hp, tp)) h (insert s (set as)) (as @ [s])"
proof (cases as rule: rev_cases)
  case Nil
  with assms show ?thesis
    by (auto simp: dll_def heap_simps implements_def intro!: frame_upd)
next
  case (snoc bs b)
  with assms show ?thesis
    by (auto simp: dll_def heap_simps implements_def intro!: frame_upd)
qed

lemma strlinkbefore_implements:
  assumes "dll (h, hp, tp) (xs @ i # ys)" and "s \<notin> set (xs @ i # ys)" and "h s = Some n"
  shows "implements (strlinkbefore s i (h, hp, tp)) h (insert s (set (xs @ i # ys)))
           (xs @ s # i # ys)"
proof (cases xs rule: rev_cases)
  case Nil
  with assms show ?thesis
    by (auto simp: dll_def heap_simps implements_def intro!: frame_upd)
next
  case (snoc bs b)
  with assms show ?thesis
    by (auto simp: dll_def heap_simps implements_def intro!: frame_upd)
qed

lemma strlinkafter_implements:
  assumes "dll (h, hp, tp) (xs @ i # ys)" and "s \<notin> set (xs @ i # ys)" and "h s = Some n"
  shows "implements (strlinkafter s i (h, hp, tp)) h (insert s (set (xs @ i # ys)))
           (xs @ i # s # ys)"
proof (cases ys)
  case Nil
  with assms show ?thesis
    by (auto simp: dll_def heap_simps implements_def intro!: frame_upd)
next
  case (Cons b bs)
  with assms have "Some i \<noteq> tp"
    by (auto simp: dll_def last_or_def)
  with assms Cons show ?thesis
    by (auto simp: dll_def heap_simps implements_def intro!: frame_upd)
qed

lemma strunlink_implements:
  assumes "dll (h, hp, tp) (xs @ s # ys)"
  shows "implements (strunlink s (h, hp, tp)) h (set (xs @ s # ys)) (xs @ ys)"
proof (cases xs rule: rev_cases)
  case Nil
  with assms show ?thesis
    by (cases ys) (auto simp: dll_def heap_simps implements_def intro!: frame_upd)
next
  case (snoc bs b)
  with assms show ?thesis
    by (cases ys) (auto simp: dll_def heap_simps implements_def intro!: frame_upd)
qed

section \<open>Searching and alphabetical insertion\<close>

text \<open>The string comparison of \<open>strlinkalpha\<close>: strictly before, by case or not.\<close>

definition str_before :: "bool \<Rightarrow> cstring \<Rightarrow> cstring \<Rightarrow> bool" where
  "str_before ci a b \<longleftrightarrow> (if ci then strcasecmp a b < 0 else strcmp a b < 0)"

abbreviation node_str :: "heap \<Rightarrow> addr \<Rightarrow> cstring" where
  "node_str h a \<equiv> sl_str (the (h a))"

lemma strgetnode_lseg:
  "lseg h p as None \<Longrightarrow>
   strgetnode test str h (first_or None as)
     = Some (first_or None (dropWhile (\<lambda>a. \<not> test str (node_str h a)) as))"
  by (induction as arbitrary: p) (subst strgetnode.simps, force)+

lemma alpha_point_lseg:
  "lseg h p as None \<Longrightarrow>
   alpha_point ci str h (first_or None as)
     = Some (first_or None (dropWhile (\<lambda>a. \<not> str_before ci str (node_str h a)) as))"
  by (induction as arbitrary: p) (subst alpha_point.simps, force simp: str_before_def)+

text \<open>
  \<open>strgetnode\<close> returns the first node whose string passes the test, and \<open>NULL\<close> exactly
  when there is none.
\<close>

lemma strgetnode_find:
  assumes "dll (h, hp, tp) as"
  shows "strgetnode test str h hp = Some (find (\<lambda>a. test str (node_str h a)) as)"
proof -
  have "first_or None (dropWhile (\<lambda>a. \<not> test str (node_str h a)) as)
      = find (\<lambda>a. test str (node_str h a)) as"
    by (induction as) auto
  with assms strgetnode_lseg [of h None as test str] show ?thesis
    by (simp add: dll_def)
qed

text \<open>Where \<open>strlinkalpha\<close> puts the new node.\<close>

definition alpha_split :: "bool \<Rightarrow> heap \<Rightarrow> addr \<Rightarrow> addr list \<Rightarrow> addr list" where
  "alpha_split ci h s as =
     takeWhile (\<lambda>a. \<not> str_before ci (node_str h s) (node_str h a)) as @
     s # dropWhile (\<lambda>a. \<not> str_before ci (node_str h s) (node_str h a)) as"

lemma strlinkalpha_implements:
  assumes d: "dll (h, hp, tp) as" and s: "s \<notin> set as" and n: "h s = Some n"
  shows "implements (strlinkalpha s ci (h, hp, tp)) h (insert s (set as)) (alpha_split ci h s as)"
proof (cases as)
  case Nil
  with strlinkhead_implements [OF d s n] d show ?thesis
    by (simp add: dll_def alpha_split_def)
next
  case (Cons b bs)
  define P where "P = (\<lambda>a. \<not> str_before ci (sl_str n) (node_str h a))"
  have pt: "alpha_point ci (sl_str n) h hp = Some (first_or None (dropWhile P as))"
    using d alpha_point_lseg [of h None as ci "sl_str n"] by (simp add: dll_def P_def)
  have hp: "hp = Some b" using d Cons by (simp add: dll_def)
  have sp: "alpha_split ci h s as = takeWhile P as @ s # dropWhile P as"
    using n by (simp add: alpha_split_def P_def)
  show ?thesis
  proof (cases "dropWhile P as")
    case Nil
    then have "takeWhile P as = as" by (metis append_Nil2 takeWhile_dropWhile_id)
    with Nil sp pt have "alpha_split ci h s as = as @ [s]"
      and "alpha_point ci (sl_str n) h hp = Some None" by simp_all
    with hp n strlinktail_implements [OF d s n] show ?thesis by simp
  next
    case (Cons i ys)
    then have as: "as = takeWhile P as @ i # ys" by (metis takeWhile_dropWhile_id)
    show ?thesis
    proof (cases "takeWhile P as")
      case Nil
      with as \<open>as = b # bs\<close> have "i = b" by (metis append_Nil list.inject)
      with Nil Cons sp pt hp n as strlinkhead_implements [OF d s n] show ?thesis by simp
    next
      case (Cons c cs)
      with as \<open>as = b # bs\<close> d have "i \<noteq> b" by (auto simp: dll_def)
      moreover have "implements (strlinkbefore s i (h, hp, tp)) h (insert s (set as))
          (takeWhile P as @ s # i # ys)"
        using strlinkbefore_implements [of h hp tp "takeWhile P as" i ys s n] d s n as
        by metis
      ultimately show ?thesis
        using sp pt hp n \<open>dropWhile P as = i # ys\<close> by simp
    qed
  qed
qed

lemma str_before_trans:
  "\<not> str_before ci b a \<Longrightarrow> \<not> str_before ci c b \<Longrightarrow> \<not> str_before ci c a"
proof -
  have t: "\<not> strcmp b a < 0 \<Longrightarrow> \<not> strcmp c b < 0 \<Longrightarrow> \<not> strcmp c a < 0" for a b c
    using strcmp_trans [of a b c] strcmp_swap by (metis not_less)
  show "\<not> str_before ci b a \<Longrightarrow> \<not> str_before ci c b \<Longrightarrow> \<not> str_before ci c a"
    using t [of b a c] t [of "map tolower b" "map tolower a" "map tolower c"]
    unfolding str_before_def strcasecmp_def by (cases ci) simp_all
qed

lemma str_before_asym: "str_before ci a b \<Longrightarrow> \<not> str_before ci b a"
  unfolding str_before_def strcasecmp_def
  using strcmp_swap by (metis less_asym)

text \<open>A list in alphabetical order: no string comes strictly before an earlier one.\<close>

abbreviation alpha_sorted :: "bool \<Rightarrow> cstring list \<Rightarrow> bool" where
  "alpha_sorted ci \<equiv> sorted_wrt (\<lambda>a b. \<not> str_before ci b a)"

lemma alpha_sorted_insert:
  assumes "alpha_sorted ci xs"
  shows "alpha_sorted ci
    (takeWhile (\<lambda>a. \<not> str_before ci x a) xs @ x # dropWhile (\<lambda>a. \<not> str_before ci x a) xs)"
  using assms
proof (induction xs)
  case Nil
  then show ?case by simp
next
  case (Cons y ys)
  show ?case
  proof (cases "str_before ci x y")
    case True
    then have "\<not> str_before ci y x" by (rule str_before_asym)
    moreover have "\<not> str_before ci z x" if "z \<in> set ys" for z
      using Cons.prems that calculation str_before_trans [of ci y x z] by simp
    ultimately show ?thesis using True Cons.prems by auto
  next
    case False
    then show ?thesis
      using Cons by (auto dest: set_takeWhileD set_dropWhileD)
  qed
qed

lemma strs_alpha_split:
  "strs h (alpha_split ci h s as) =
     takeWhile (\<lambda>a. \<not> str_before ci (node_str h s) a) (strs h as) @
     node_str h s # dropWhile (\<lambda>a. \<not> str_before ci (node_str h s) a) (strs h as)"
  by (simp add: strs_def alpha_split_def takeWhile_map dropWhile_map comp_def)

lemma set_alpha_split: "set (alpha_split ci h s as) = insert s (set as)"
proof -
  have "set (takeWhile P as) \<union> set (dropWhile P as) = set as" for P
    by (metis set_append takeWhile_dropWhile_id)
  then show ?thesis by (simp add: alpha_split_def)
qed

section \<open>Properties\<close>

text \<open>
  Alphabetical insertion: linking an allocated node into a list that is in alphabetical
  order (with or without regard to case) never follows a bad pointer, gives a well-formed
  doubly linked list that is in alphabetical order again and holds the old strings and the
  new one, and changes no node outside the list.
\<close>

lemma strlinkalpha_sorted:
  assumes d: "dll (h, hp, tp) as" and s: "s \<notin> set as" and n: "h s = Some n"
    and srt: "alpha_sorted ci (strs h as)"
  shows "\<exists>h' hp' tp' as'. strlinkalpha s ci (h, hp, tp) = Some (h', hp', tp')
     \<and> dll (h', hp', tp') as' \<and> set as' = insert s (set as) \<and> alpha_sorted ci (strs h' as')
     \<and> mset (strs h' as') = mset (strs h as) + {#sl_str n#}
     \<and> frame (insert s (set as)) h h'"
proof -
  let ?as = "alpha_split ci h s as"
  from strlinkalpha_implements [OF d s n, of ci] obtain h' hp' tp' where
    r: "strlinkalpha s ci (h, hp, tp) = Some (h', hp', tp')" "dll (h', hp', tp') ?as"
    "frame (insert s (set as)) h h'" by (auto simp: implements_def)
  have "alpha_sorted ci (strs h' ?as)"
    using alpha_sorted_insert [OF srt] by (simp add: frame_strs [OF r(3)] strs_alpha_split)
  moreover have "mset (takeWhile P xs) + mset (dropWhile P xs) = mset xs" for P and xs :: "cstring list"
    by (metis mset_append takeWhile_dropWhile_id)
  then have "mset (strs h' ?as) = mset (strs h as) + {#sl_str n#}"
    using n by (simp add: frame_strs [OF r(3)] strs_alpha_split)
  ultimately show ?thesis using r set_alpha_split by blast
qed

text \<open>Witness: \<open>bob\<close> goes between \<open>Al\<close> and \<open>carl\<close>.\<close>

lemma strlinkalpha_sorted_example:
  "\<exists>h h' hp' tp' as'. strlinkalpha 3 True (h, Some 1, Some 2) = Some (h', hp', tp')
     \<and> dll (h', hp', tp') as' \<and> set as' = {1, 2, 3} \<and> alpha_sorted True (strs h' as')
     \<and> mset (strs h' as') = {#''Al'', ''bob'', ''carl''#}"
proof -
  let ?n = "\<lparr>sl_next = None, sl_prev = None, sl_str = ''bob''\<rparr>"
  let ?h = "[1 \<mapsto> \<lparr>sl_next = Some 2, sl_prev = None, sl_str = ''Al''\<rparr>,
             2 \<mapsto> \<lparr>sl_next = None, sl_prev = Some 1, sl_str = ''carl''\<rparr>, 3 \<mapsto> ?n] :: heap"
  have d: "dll (?h, Some 1, Some 2) [1, 2]" by (simp add: dll_def)
  have "\<not> str_before True ''carl'' ''Al''" by code_simp
  then have "alpha_sorted True (strs ?h [1, 2])" by (simp add: strs_def)
  from strlinkalpha_sorted [OF d _ _ this, of 3 ?n] obtain h' hp' tp' as' where
    "strlinkalpha 3 True (?h, Some 1, Some 2) = Some (h', hp', tp')" "dll (h', hp', tp') as'"
    "set as' = {3, 1, 2}" "alpha_sorted True (strs h' as')"
    "mset (strs h' as') = mset (strs ?h [1, 2]) + {#''bob''#}" by auto
  moreover have "mset (strs ?h [1, 2]) + {#''bob''#} = {#''Al'', ''bob'', ''carl''#}"
    by (simp add: strs_def)
  ultimately show ?thesis
    by (intro exI [of _ ?h] exI [of _ h'] exI [of _ hp'] exI [of _ tp'] exI [of _ as']) auto
qed

end
