(* ===== verification/Wildmat.thy ===== *)
theory Wildmat
  imports Prelude
begin

text \<open>
  \<open>server/wildmat.c\<close>: shell-style matching of \<open>?\<close>, \<open>*\<close>, \<open>[...]\<close> and \<open>\\\<close>. Text and
  pattern are the C strings from the current pointer on; \<open>[]\<close> is the terminating NUL.
  Stepping past the NUL, which the source does for an unterminated \<open>[\<close>, is \<open>None\<close>. The
  reference meaning of a pattern is a list of tokens, and the theorem of this theory is
  that \<open>DoMatch\<close>, with its ABORT short cut, decides it.
\<close>

section \<open>The code\<close>

datatype mres = MTrue | MFalse | MAbort

text \<open>
  The scan of a character class. \<open>c\<close> is \<open>*text\<close>, \<open>last\<close> the variable of that name,
  \<open>rest\<close> what follows \<open>p\<close>. The result is the \<open>matched\<close> flag and what follows the
  closing bracket, or \<open>None\<close> there when the scan stopped at the NUL; the outer \<open>None\<close>
  is a read past the NUL.
\<close>

fun class_scan :: "char \<Rightarrow> int \<Rightarrow> cstring \<Rightarrow> bool \<Rightarrow> (bool \<times> cstring option) option" where
  "class_scan c lst [] m = Some (m, None)"
| "class_scan c lst (x # xs) m =
     (if x = CHR '']'' then Some (m, Some xs)
      else if x = CHR ''-'' \<and> (xs = [] \<or> hd xs \<noteq> CHR '']'')
      then (case xs of [] \<Rightarrow> None
            | y # ys \<Rightarrow> class_scan c (schar y) ys
                          (m \<or> (schar c \<le> schar y \<and> lst \<le> schar c)))
      else class_scan c (schar x) xs (m \<or> c = x))"

text \<open>The whole class after its \<open>[\<close>: inversion, a leading \<open>]\<close> or \<open>-\<close>, the scan.\<close>

definition class_start :: "char \<Rightarrow> cstring \<Rightarrow> bool \<times> bool \<times> char \<times> cstring" where
  "class_start c p =
     (let (reverse, at, p1) = (case p of
              x # q \<Rightarrow> if x = CHR ''^'' then (True, x, q) else (False, CHR ''['', p)
            | [] \<Rightarrow> (False, CHR ''['', p))
      in case p1 of
           x # q \<Rightarrow> if x = CHR '']'' \<or> x = CHR ''-'' then (reverse, x = c, x, q)
                     else (reverse, False, at, p1)
         | [] \<Rightarrow> (reverse, False, at, p1))"

definition class_match :: "char \<Rightarrow> cstring \<Rightarrow> (bool \<times> bool \<times> cstring option) option" where
  "class_match c p =
     (case class_start c p of (reverse, m, at, q) \<Rightarrow>
        map_option (\<lambda>(m, r). (reverse, m, r)) (class_scan c (schar at) q m))"

function (sequential) do_match :: "cstring \<Rightarrow> cstring \<Rightarrow> mres option"
  and star_loop :: "cstring \<Rightarrow> cstring \<Rightarrow> mres option" where
  "do_match text [] = Some (if text = [] then MTrue else MFalse)"
| "do_match text (c # p) =
     (if text = [] \<and> c \<noteq> CHR ''*'' then Some MAbort
      else if c = CHR 0x5C then
        (case p of [] \<Rightarrow> Some MFalse
         | d # q \<Rightarrow> if hd text \<noteq> d then Some MFalse else do_match (tl text) q)
      else if c = CHR ''?'' then do_match (tl text) p
      else if c = CHR ''*'' then
        (let q = dropWhile (\<lambda>x. x = CHR ''*'') p
         in if q = [] then Some MTrue else star_loop text q)
      else if c = CHR ''['' then
        (case class_match (hd text) p of None \<Rightarrow> None
         | Some (reverse, matched, rest) \<Rightarrow>
             if matched = reverse then Some MFalse
             else (case rest of None \<Rightarrow> None
                   | Some q \<Rightarrow> if length q < length p then do_match (tl text) q else None))
      else if hd text \<noteq> c then Some MFalse else do_match (tl text) p)"
| "star_loop [] q = Some MAbort"
| "star_loop (x # t) q =
     (case do_match (x # t) q of
        Some MFalse \<Rightarrow> star_loop t q
      | r \<Rightarrow> r)"
  by pat_completeness auto

termination
proof (relation "measures [\<lambda>a. case a of Inl (t, p) \<Rightarrow> 2 * length p | Inr (t, q) \<Rightarrow> 2 * length q + 1,
                           \<lambda>a. case a of Inl (t, p) \<Rightarrow> 0 | Inr (t, q) \<Rightarrow> length t]", goal_cases)
  case (4 u c p q)
  then show ?case using length_dropWhile_le [of "\<lambda>x. x = CHR ''*''" p] by simp
qed auto

text \<open>
  The guard \<open>length q < length p\<close> in the class case is there for the termination proof
  only: what follows the closing bracket is always shorter.
\<close>

lemma class_scan_shorter:
  "class_scan c lst p m = Some (m', Some q) \<Longrightarrow> length q < length p"
proof (induction c lst p m rule: class_scan.induct)
  case (2 c lst x xs m)
  consider (close) "x = CHR '']''"
    | (range) "x \<noteq> CHR '']''" "x = CHR ''-'' \<and> (xs = [] \<or> hd xs \<noteq> CHR '']'')"
    | (single) "x \<noteq> CHR '']''" "\<not> (x = CHR ''-'' \<and> (xs = [] \<or> hd xs \<noteq> CHR '']''))"
    by blast
  then show ?case
  proof cases
    case close
    with "2.prems" show ?thesis by simp
  next
    case range
    with "2.prems" obtain y ys where "xs = y # ys" by (cases xs) auto
    with "2.IH"(1) [of y ys] range "2.prems" show ?thesis by simp
  next
    case single
    then have "class_scan c (schar x) xs (m \<or> c = x) = Some (m', Some q)"
      using "2.prems" by (simp only: class_scan.simps if_False simp_thms)
    with "2.IH"(2) single show ?thesis by simp
  qed
qed simp

lemma class_start_shorter: "class_start c p = (r, m, at, q) \<Longrightarrow> length q \<le> length p"
  by (auto simp: class_start_def Let_def split: list.splits if_splits)

lemma class_match_shorter:
  "class_match c p = Some (r, m, Some q) \<Longrightarrow> length q < length p"
  unfolding class_match_def
  by (auto split: prod.splits dest!: class_scan_shorter class_start_shorter)

definition wildmat :: "cstring \<Rightarrow> cstring \<Rightarrow> bool option" where
  "wildmat text p =
     (if p = ''*'' then Some True
      else map_option (\<lambda>r. r = MTrue) (do_match text p))"

text \<open>
  The server's callers want a yes or no. A pattern that makes the code read past its end
  counts as no match; \<open>wf_pattern\<close> below says which patterns do not.
\<close>

definition wild :: "cstring \<Rightarrow> cstring \<Rightarrow> bool" where
  "wild text p \<longleftrightarrow> wildmat text p = Some True"

section \<open>Reference meaning\<close>

datatype tok = One "char \<Rightarrow> bool" | Star

text \<open>A class as a predicate on characters, and what follows it.\<close>

definition class_pred :: "cstring \<Rightarrow> char \<Rightarrow> bool" where
  "class_pred p c = (case class_match c p of Some (r, m, _) \<Rightarrow> m \<noteq> r | None \<Rightarrow> False)"

definition class_rest :: "cstring \<Rightarrow> cstring option" where
  "class_rest p = (case class_match (CHR ''a'') p of Some (_, _, r) \<Rightarrow> r | None \<Rightarrow> None)"

function (sequential) tokens :: "cstring \<Rightarrow> tok list option" where
  "tokens [] = Some []"
| "tokens (c # p) =
     (if c = CHR 0x5C then
        (case p of [] \<Rightarrow> Some [One (\<lambda>_. False)]
         | d # q \<Rightarrow> map_option (Cons (One (\<lambda>x. x = d))) (tokens q))
      else if c = CHR ''?'' then map_option (Cons (One (\<lambda>_. True))) (tokens p)
      else if c = CHR ''*'' then map_option (Cons Star) (tokens p)
      else if c = CHR ''['' then
        (case class_rest p of None \<Rightarrow> None
         | Some q \<Rightarrow> if length q < length p
                     then map_option (Cons (One (class_pred p))) (tokens q) else None)
      else map_option (Cons (One (\<lambda>x. x = c))) (tokens p))"
  by pat_completeness auto
termination by (relation "measure length") auto

fun matches :: "tok list \<Rightarrow> cstring \<Rightarrow> bool" where
  "matches [] t \<longleftrightarrow> t = []"
| "matches (One P # ts) t \<longleftrightarrow> (case t of [] \<Rightarrow> False | x # xs \<Rightarrow> P x \<and> matches ts xs)"
| "matches (Star # ts) t \<longleftrightarrow> (\<exists>k \<le> length t. matches ts (drop k t))"

definition wf_pattern :: "cstring \<Rightarrow> bool" where
  "wf_pattern p \<longleftrightarrow> tokens p \<noteq> None"

section \<open>Correctness\<close>

lemma class_scan_indep:
  "map_option snd (class_scan c lst p m) = map_option snd (class_scan c' lst' p m')"
proof (induction c lst p m arbitrary: lst' m' rule: class_scan.induct)
  case (2 c lst x xs m)
  then show ?case by (cases xs) (simp_all split: if_splits)
qed simp

lemma class_start_indep:
  "class_start c p = (r, m, at, q) \<Longrightarrow> \<exists>m'. class_start c' p = (r, m', at, q)"
  by (auto simp: class_start_def Let_def split: list.splits if_splits)

lemma class_match_indep:
  assumes "class_match c p = Some (r, m, rest)"
  shows "\<exists>m'. class_match c' p = Some (r, m', rest)"
proof -
  obtain m1 at q where st: "class_start c p = (r, m1, at, q)"
    and sc: "class_scan c (schar at) q m1 = Some (m, rest)"
    using assms by (auto simp: class_match_def split: prod.splits)
  obtain m2 where "class_start c' p = (r, m2, at, q)"
    using class_start_indep [OF st] by blast
  moreover have "map_option snd (class_scan c' (schar at) q m2) = Some rest"
    using class_scan_indep [of c "schar at" q m1 c' "schar at" m2] sc
    by (metis option.simps(9) snd_conv)
  then obtain m3 where "class_scan c' (schar at) q m2 = Some (m3, rest)"
    by (auto simp: map_option_eq_Some)
  ultimately show ?thesis by (simp add: class_match_def)
qed

lemma class_rest_match:
  assumes "class_rest p = Some q"
  shows "\<exists>r m. class_match c p = Some (r, m, Some q) \<and> class_pred p c = (m \<noteq> r)"
proof -
  obtain r m where "class_match (CHR ''a'') p = Some (r, m, Some q)"
    using assms by (cases "class_match (CHR ''a'') p") (auto simp: class_rest_def)
  then obtain m' where "class_match c p = Some (r, m', Some q)"
    using class_match_indep by blast
  then show ?thesis by (simp add: class_pred_def)
qed

lemma matches_Star: "matches (Star # ts) t \<longleftrightarrow> (\<exists>k. matches ts (drop k t))"
  by (auto) (metis drop_all le_cases order_refl)

declare matches.simps(3) [simp del]

lemma matches_stars:
  "(\<exists>k. matches (replicate n Star @ ts) (drop k t)) \<longleftrightarrow> (\<exists>k. matches ts (drop k t))"
proof (induction n)
  case (Suc n)
  have "(\<exists>k. matches (replicate (Suc n) Star @ ts) (drop k t))
      \<longleftrightarrow> (\<exists>k j. matches (replicate n Star @ ts) (drop (j + k) t))"
    by (simp add: matches_Star)
  also have "\<dots> \<longleftrightarrow> (\<exists>k. matches (replicate n Star @ ts) (drop k t))"
    by (metis add_0)
  finally show ?case using Suc by simp
qed simp

lemma tokens_stars:
  "tokens p = Some ts \<Longrightarrow>
   \<exists>n tq. tokens (dropWhile (\<lambda>x. x = CHR ''*'') p) = Some tq \<and> ts = replicate n Star @ tq"
proof (induction p arbitrary: ts)
  case (Cons c p)
  show ?case
  proof (cases "c = CHR ''*''")
    case True
    with Cons.prems obtain ts' where ts': "tokens p = Some ts'" "ts = Star # ts'" by auto
    with Cons.IH obtain n tq where
      "tokens (dropWhile (\<lambda>x. x = CHR ''*'') p) = Some tq" "ts' = replicate n Star @ tq"
      by blast
    with True ts' show ?thesis by (auto intro!: exI [of _ "Suc n"])
  next
    case False
    with Cons.prems show ?thesis by (auto intro!: exI [of _ "0 :: nat"])
  qed
qed simp

lemma tokens_One:
  "tokens (x # q) = Some ts \<Longrightarrow> x \<noteq> CHR ''*'' \<Longrightarrow> \<exists>P ts'. ts = One P # ts'"
  by (auto split: if_splits list.splits option.splits)

text \<open>What a result promises: TRUE exactly on a match, ABORT only if no suffix matches.\<close>

definition sound :: "mres \<Rightarrow> tok list \<Rightarrow> cstring \<Rightarrow> bool" where
  "sound r ts t \<longleftrightarrow>
     (r = MTrue \<longleftrightarrow> matches ts t) \<and> (r = MAbort \<longrightarrow> (\<forall>k. \<not> matches ts (drop k t)))"

lemma sound_One:
  assumes "t \<noteq> []" and "P (hd t)" and "sound r ts (tl t)"
  shows "sound r (One P # ts) t"
proof -
  obtain x xs where t: "t = x # xs" using assms(1) by (cases t) auto
  have "\<not> matches (One P # ts) (drop k t)" if "\<forall>k. \<not> matches ts (drop k xs)" for k
    using that spec [OF that, of k] by (auto simp: t drop_Cons' split: list.splits)
      (metis drop_Suc list.sel(3) tl_drop)+
  with assms t show ?thesis by (auto simp: sound_def)
qed

lemma sound_fail: "t \<noteq> [] \<Longrightarrow> \<not> P (hd t) \<Longrightarrow> sound MFalse (One P # ts) t"
  by (cases t) (auto simp: sound_def)

lemma sound_end: "sound MAbort (One P # ts) []"
  by (simp add: sound_def)

text \<open>The single-character tokens share one step of the proof.\<close>

lemma sound_step:
  assumes "t \<noteq> []"
    and "P (hd t) \<Longrightarrow> \<exists>r. rec = Some r \<and> sound r ts (tl t)"
  shows "\<exists>r. (if \<not> P (hd t) then Some MFalse else rec) = Some r \<and> sound r (One P # ts) t"
  using assms sound_One [of t P _ ts] sound_fail [of t P ts] by auto

definition star_sound :: "mres \<Rightarrow> tok list \<Rightarrow> cstring \<Rightarrow> bool" where
  "star_sound r ts t \<longleftrightarrow>
     r \<noteq> MFalse \<and> (r = MTrue \<longleftrightarrow> (\<exists>k. matches ts (drop k t)))"

lemma star_sound_step:
  assumes "sound r (One P # ts) (x # t)" and "r = MFalse \<Longrightarrow> star_sound r' (One P # ts) t"
  shows "star_sound (if r = MFalse then r' else r) (One P # ts) (x # t)"
proof -
  have "(\<exists>k. matches (One P # ts) (drop k (x # t)))
      \<longleftrightarrow> matches (One P # ts) (x # t) \<or> (\<exists>k. matches (One P # ts) (drop k t))"
    by (metis drop0 drop_Suc_Cons not0_implies_Suc)
  with assms show ?thesis
    by (cases r) (auto simp: sound_def star_sound_def simp del: matches.simps)
qed

lemma star_sound_sound:
  assumes "star_sound r tq t"
  shows "sound r (Star # replicate n Star @ tq) t"
proof -
  have *: "matches (Star # replicate n Star @ tq) u \<longleftrightarrow> (\<exists>k. matches tq (drop k u))" for u
    by (simp only: matches_Star matches_stars)
  have "\<not> (\<exists>k. matches tq (drop k (drop j t)))" if "\<not> (\<exists>k. matches tq (drop k t))" for j
    using that by auto
  with assms show ?thesis by (cases r) (auto simp: sound_def star_sound_def *)
qed

lemma star_case:
  assumes toks: "tokens (CHR ''*'' # p) = Some ts"
    and IH: "\<And>P us. dropWhile (\<lambda>x. x = CHR ''*'') p \<noteq> [] \<Longrightarrow>
      tokens (dropWhile (\<lambda>x. x = CHR ''*'') p) = Some (One P # us) \<Longrightarrow>
      \<exists>r. star_loop t (dropWhile (\<lambda>x. x = CHR ''*'') p) = Some r \<and> star_sound r (One P # us) t"
  shows "\<exists>r. do_match t (CHR ''*'' # p) = Some r \<and> sound r ts t"
proof -
  obtain ts' where ts': "tokens p = Some ts'" "ts = Star # ts'" using toks by auto
  define q where "q = dropWhile (\<lambda>x. x = CHR ''*'') p"
  obtain n tq where tq: "tokens q = Some tq" "ts' = replicate n Star @ tq"
    using tokens_stars [OF ts'(1)] unfolding q_def by blast
  show ?thesis
  proof (cases q)
    case Nil
    then have "do_match t (CHR ''*'' # p) = Some MTrue" by (simp add: q_def)
    moreover have "star_sound MTrue [] t"
      by (auto simp: star_sound_def intro!: exI [of _ "length t"])
    ultimately show ?thesis using Nil tq ts' star_sound_sound [of MTrue "[]" t n] by auto
  next
    case (Cons x q')
    then have "x \<noteq> CHR ''*''"
      unfolding q_def by (metis (mono_tags, lifting) hd_dropWhile list.discI list.sel(1))
    then obtain P us where P: "tq = One P # us" using tokens_One tq(1) Cons by blast
    have "do_match t (CHR ''*'' # p) = star_loop t q"
      using Cons by (simp add: q_def [symmetric])
    moreover have "\<exists>r. star_loop t q = Some r \<and> star_sound r tq t"
      unfolding P using tq(1) by (intro IH [of P us, folded q_def])
        (simp_all only: Cons P list.simps not_False_eq_True)
    ultimately show ?thesis using star_sound_sound tq(2) ts'(2) by metis
  qed
qed

lemma do_match_sound:
  "tokens p = Some ts \<Longrightarrow> \<exists>r. do_match t p = Some r \<and> sound r ts t"
  "tokens q = Some (One P # us) \<Longrightarrow> \<exists>r. star_loop t q = Some r \<and> star_sound r (One P # us) t"
proof (induction t p and t q arbitrary: ts and P us rule: do_match_star_loop.induct)
  case (1 t)
  then show ?case by (auto simp: sound_def)
next
  case (2 t c p)
  consider (stop) "t = []" "c \<noteq> CHR ''*''" | (star) "c = CHR ''*''"
    | (esc) "t \<noteq> []" "c = CHR 0x5C" | (any) "t \<noteq> []" "c = CHR ''?''"
    | (cls) "t \<noteq> []" "c = CHR ''[''"
    | (lit) "t \<noteq> []" "c \<noteq> CHR ''*''" "c \<noteq> CHR 0x5C" "c \<noteq> CHR ''?''" "c \<noteq> CHR ''[''"
    by blast
  then show ?case
  proof cases
    case stop
    with tokens_One [OF "2.prems"] sound_end show ?thesis by auto
  next
    case star
    show ?thesis
      unfolding star by (rule star_case) (use "2.prems" "2.IH"(3) star in auto)
  next
    case esc
    show ?thesis
    proof (cases p)
      case Nil
      with esc "2.prems" sound_fail [of t "\<lambda>_. False"] show ?thesis by auto
    next
      case (Cons d q)
      with esc "2.prems" obtain ts' where ts': "tokens q = Some ts'" "ts = One (\<lambda>x. x = d) # ts'"
        by auto
      with sound_step [OF esc(1), of "\<lambda>x. x = d" "do_match (tl t) q" ts'] "2.IH"(1) [of d q] esc Cons
      show ?thesis by simp
    qed
  next
    case any
    with "2.prems" obtain ts' where "tokens p = Some ts'" "ts = One (\<lambda>_. True) # ts'" by auto
    with sound_step [OF any(1), of "\<lambda>_. True" "do_match (tl t) p" ts'] "2.IH"(2) any
    show ?thesis by simp
  next
    case cls
    with "2.prems" obtain q ts' where q: "class_rest p = Some q" "length q < length p"
      and ts': "tokens q = Some ts'" "ts = One (class_pred p) # ts'"
      by (auto split: option.splits if_splits)
    obtain r m where rm: "class_match (hd t) p = Some (r, m, Some q)"
      "class_pred p (hd t) = (m \<noteq> r)"
      using class_rest_match [OF q(1)] by blast
    have "\<exists>r. do_match (tl t) q = Some r \<and> sound r ts' (tl t)" if "m \<noteq> r"
      using "2.IH"(4) [of "(r, m, Some q)" r "(m, Some q)" m "Some q" q] cls q ts' rm that by simp
    with sound_step [OF cls(1), of "class_pred p" "do_match (tl t) q" ts'] cls q ts' rm
    show ?thesis by (cases "m = r") auto
  next
    case lit
    with "2.prems" obtain ts' where "tokens p = Some ts'" "ts = One (\<lambda>x. x = c) # ts'" by auto
    with sound_step [OF lit(1), of "\<lambda>x. x = c" "do_match (tl t) p" ts'] "2.IH"(5) lit
    show ?thesis by simp
  qed
next
  case (3 q)
  then show ?case by (simp add: star_sound_def)
next
  case (4 x t q)
  from "4.IH"(1) [OF "4.prems"] obtain r where
    r: "do_match (x # t) q = Some r" "sound r (One P # us) (x # t)" by blast
  show ?case
  proof (cases "r = MFalse")
    case True
    with "4.IH"(2) [of MFalse] r(1) "4.prems" obtain r' where
      "star_loop t q = Some r'" "star_sound r' (One P # us) t" by auto
    with star_sound_step [OF r(2), of r'] True r(1) show ?thesis by simp
  next
    case False
    with star_sound_step [OF r(2), of r] r(1) show ?thesis by (cases r) auto
  qed
qed

section \<open>Properties\<close>



end
