(* ===== verification/NameList.thy ===== *)
theory NameList
  imports StrList Wildmat
begin

text \<open>
  \<open>server/namelist.c\<close>: bounded lists of names (invitations, bars, talkers, hushes,
  notifies). The operations are modelled twice: on the heap, as the source has them, and
  on a record with a plain list of strings, which the rest of the development uses. The
  refinement lemmas connect the two, and the locale \<open>name_list\<close> states the laws the
  callers rely on.
\<close>

section \<open>The code, on the heap\<close>

record namlist =
  nl_head :: ptr
  nl_tail :: ptr
  nl_p :: ptr
  nl_num :: int
  nl_max :: int

type_synonym nlstate = "heap \<times> namlist"

text \<open>
  \<open>mem\<close> is what \<open>malloc\<close> returns. The link fields of the new node are not initialised;
  \<open>strlinkhead\<close> writes both of them.
\<close>

definition nl_new :: "ptr \<Rightarrow> cstring \<Rightarrow> nlstate \<Rightarrow> nlstate option" where
  "nl_new mem name = (\<lambda>(h, nl). case mem of None \<Rightarrow> Some (h, nl)
     | Some s \<Rightarrow> do {
         (h, hp, tp) \<leftarrow> strlinkhead s
            (h(s \<mapsto> \<lparr>sl_next = None, sl_prev = None, sl_str = name\<rparr>), nl_head nl, nl_tail nl);
         Some (h, nl\<lparr>nl_head := hp, nl_tail := tp, nl_num := nl_num nl + 1, nl_p := hp\<rparr>) })"

definition nlput :: "ptr \<Rightarrow> cstring \<Rightarrow> nlstate \<Rightarrow> nlstate option" where
  "nlput mem name = (\<lambda>(h, nl). do {
     found \<leftarrow> strgetnode strcaseeq name h (nl_head nl);
     case found of
       Some sp \<Rightarrow> do {
         (h, hp, tp) \<leftarrow> strunlink sp (h, nl_head nl, nl_tail nl);
         (h, hp, tp) \<leftarrow> strlinkhead sp (h, hp, tp);
         Some (h, nl\<lparr>nl_head := hp, nl_tail := tp, nl_p := hp\<rparr>) }
     | None \<Rightarrow>
         if nl_num nl < nl_max nl then nl_new mem name (h, nl)
         else do {
           sp \<leftarrow> nl_tail nl;
           (h, hp, tp) \<leftarrow> strunlink sp (h, nl_head nl, nl_tail nl);
           nl_new mem name
             (h(sp := None), nl\<lparr>nl_head := hp, nl_tail := tp, nl_num := nl_num nl - 1\<rparr>) } })"

definition nlget :: "nlstate \<Rightarrow> (cstring \<times> nlstate) option" where
  "nlget = (\<lambda>(h, nl). do {
     n \<leftarrow> deref h (nl_p nl);
     let p = (if sl_next n = None then nl_head nl else sl_next n);
     Some (sl_str n, (h, nl\<lparr>nl_p := p\<rparr>)) })"

definition nlcount :: "namlist \<Rightarrow> int" where
  "nlcount nl = nl_num nl"

partial_function (option) nl_free :: "heap \<Rightarrow> ptr \<Rightarrow> heap option" where
  "nl_free h p =
     (case p of None \<Rightarrow> Some h
      | Some a \<Rightarrow> (case h a of None \<Rightarrow> None | Some n \<Rightarrow> nl_free (h(a := None)) (sl_next n)))"

definition nlinit :: "int \<Rightarrow> namlist" where
  "nlinit m = \<lparr>nl_head = None, nl_tail = None, nl_p = None, nl_num = 0, nl_max = m\<rparr>"

definition nlclear :: "nlstate \<Rightarrow> nlstate option" where
  "nlclear = (\<lambda>(h, nl). do {
     h \<leftarrow> nl_free h (nl_head nl);
     Some (h, nl\<lparr>nl_num := 0, nl_p := None, nl_head := None, nl_tail := None\<rparr>) })"

definition nldelete :: "cstring \<Rightarrow> nlstate \<Rightarrow> (int \<times> nlstate) option" where
  "nldelete name = (\<lambda>(h, nl). do {
     found \<leftarrow> strgetnode strcaseeq name h (nl_head nl);
     case found of
       None \<Rightarrow> Some (-1, (h, nl))
     | Some sp \<Rightarrow> do {
         (h, hp, tp) \<leftarrow> strunlink sp (h, nl_head nl, nl_tail nl);
         let nl = nl\<lparr>nl_head := hp, nl_tail := tp, nl_p := hp\<rparr>;
         let nl = (if nl_num nl > 0 then
                     (let nl = nl\<lparr>nl_num := nl_num nl - 1\<rparr>
                      in if nl_num nl = 0 then nl\<lparr>nl_p := None\<rparr> else nl)
                   else nl);
         Some (0, (h(sp := None), nl)) } })"

definition nlpresent :: "cstring \<Rightarrow> nlstate \<Rightarrow> bool option" where
  "nlpresent name = (\<lambda>(h, nl).
     if nl_num nl > 0
     then map_option (\<lambda>r. r \<noteq> None) (strgetnode strcaseeq name h (nl_head nl))
     else Some False)"

definition nlmatch :: "cstring \<Rightarrow> nlstate \<Rightarrow> bool option" where
  "nlmatch name = (\<lambda>(h, nl).
     if nl_num nl > 0
     then map_option (\<lambda>r. r \<noteq> None) (strgetnode wild name h (nl_head nl))
     else Some False)"

section \<open>The operations on plain lists\<close>

text \<open>
  \<open>names\<close> from head to tail, \<open>cursor\<close> the position of the node \<open>p\<close> points to (0 when the
  list is empty), \<open>limit\<close> the field \<open>max\<close>.
\<close>

record nlist =
  names :: "cstring list"
  cursor :: nat
  limit :: int

definition remove_nth :: "nat \<Rightarrow> 'a list \<Rightarrow> 'a list" where
  "remove_nth i xs = take i xs @ drop (Suc i) xs"

definition nl_init :: "int \<Rightarrow> nlist" where
  "nl_init m = \<lparr>names = [], cursor = 0, limit = m\<rparr>"

definition nl_put :: "cstring \<Rightarrow> nlist \<Rightarrow> nlist" where
  "nl_put name l =
     (let i = find_index (strcaseeq name) (names l) in
      l\<lparr>cursor := 0,
        names := (if 0 \<le> i then names l ! nat i # remove_nth (nat i) (names l)
                  else if int (length (names l)) < limit l then name # names l
                  else name # butlast (names l))\<rparr>)"

definition nl_get :: "nlist \<Rightarrow> cstring \<times> nlist" where
  "nl_get l = (names l ! cursor l,
     l\<lparr>cursor := (if Suc (cursor l) = length (names l) then 0 else Suc (cursor l))\<rparr>)"

definition nl_count :: "nlist \<Rightarrow> int" where
  "nl_count l = int (length (names l))"

definition nl_clear :: "nlist \<Rightarrow> nlist" where
  "nl_clear l = l\<lparr>names := [], cursor := 0\<rparr>"

definition nl_delete :: "cstring \<Rightarrow> nlist \<Rightarrow> int \<times> nlist" where
  "nl_delete name l =
     (let i = find_index (strcaseeq name) (names l) in
      if i < 0 then (-1, l)
      else (0, l\<lparr>names := remove_nth (nat i) (names l), cursor := 0\<rparr>))"

definition nl_present :: "cstring \<Rightarrow> nlist \<Rightarrow> bool" where
  "nl_present name l \<longleftrightarrow> (\<exists>s \<in> set (names l). strcaseeq name s)"

definition nl_match :: "cstring \<Rightarrow> nlist \<Rightarrow> bool" where
  "nl_match name l \<longleftrightarrow> (\<exists>s \<in> set (names l). wild name s)"

section \<open>The heap implements the plain lists\<close>

declare strlinkhead.simps [simp del] strunlink.simps [simp del]

text \<open>\<open>nl_rep h nl as l\<close>: in heap \<open>h\<close> the descriptor \<open>nl\<close> with nodes \<open>as\<close> stands for \<open>l\<close>.\<close>

definition nl_rep :: "heap \<Rightarrow> namlist \<Rightarrow> addr list \<Rightarrow> nlist \<Rightarrow> bool" where
  "nl_rep h nl as l \<longleftrightarrow>
     dll (h, nl_head nl, nl_tail nl) as \<and> nl_num nl = int (length as) \<and> nl_max nl = limit l
     \<and> names l = strs h as
     \<and> (if as = [] then nl_p nl = None \<and> cursor l = 0
        else cursor l < length as \<and> nl_p nl = Some (as ! cursor l))"

text \<open>The heap outside a set of addresses is left alone.\<close>

definition outside :: "addr set \<Rightarrow> heap \<Rightarrow> heap \<Rightarrow> bool" where
  "outside S h h' \<longleftrightarrow> (\<forall>b. b \<notin> S \<longrightarrow> h' b = h b)"

lemma find_index_split:
  "\<forall>x \<in> set xs. \<not> P x \<Longrightarrow> P y \<Longrightarrow> find_index P (xs @ y # ys) = int (length xs)"
  by (induction xs) (simp_all add: Let_def)

lemma find_splitE:
  assumes "find P as = Some a"
  obtains xs ys where "as = xs @ a # ys" "\<forall>x \<in> set xs. \<not> P x" "P a"
  using assms
proof (induction as arbitrary: thesis)
  case (Cons b bs)
  show ?case
  proof (cases "P b")
    case True
    with Cons.prems show ?thesis by (metis append_Nil empty_iff find.simps(2) list.set(1) option.inject)
  next
    case False
    with Cons.prems(2) have "find P bs = Some a" by simp
    then obtain xs ys where "bs = xs @ a # ys" "\<forall>x \<in> set xs. \<not> P x" "P a"
      using Cons.IH by blast
    with False Cons.prems(1) [of "b # xs" ys] show ?thesis by simp
  qed
qed simp

lemma find_index_strs:
  assumes "as = xs @ a # ys" "\<forall>x \<in> set xs. \<not> P (node_str h x)" "P (node_str h a)"
  shows "find_index P (strs h as) = int (length xs)"
  using assms find_index_split [of "strs h xs" P "node_str h a" "strs h ys"]
  by (simp add: strs_def)

lemma find_index_strs_none:
  "find (\<lambda>a. P (node_str h a)) as = None \<Longrightarrow> find_index P (strs h as) = -1"
  by (simp add: find_index_None strs_def find_None_iff)

lemma remove_nth_strs: "remove_nth (length xs) (strs h (xs @ a # ys)) = strs h (xs @ ys)"
  by (simp add: remove_nth_def strs_def)

lemma nth_strs: "strs h (xs @ a # ys) ! length xs = node_str h a"
  by (simp add: strs_def nth_append)

lemma strs_upd [simp]: "a \<notin> set as \<Longrightarrow> strs (h(a := v)) as = strs h as"
  by (auto simp: strs_def)

lemma strs_Cons [simp]: "strs h (a # as) = node_str h a # strs h as"
  by (simp add: strs_def)

lemma strs_Nil [simp]: "strs h [] = []"
  by (simp add: strs_def)

lemma length_strs [simp]: "length (strs h as) = length as"
  by (simp add: strs_def)

lemma dll_upd: "a \<notin> set as \<Longrightarrow> dll (h, hp, tp) as \<Longrightarrow> dll (h(a := v), hp, tp) as"
  by (simp add: dll_def)

lemma dll_alloc: "dll (h, hp, tp) as \<Longrightarrow> h a = None \<Longrightarrow> a \<notin> set as"
  using lseg_alloc by (fastforce simp: dll_def)

lemma dll_head: "dll (h, hp, tp) (a # as) \<Longrightarrow> hp = Some a"
  by (simp add: dll_def)

lemma dll_distinct: "dll d as \<Longrightarrow> distinct as"
  by (cases d) (simp add: dll_def)

text \<open>Linking a fresh node in front.\<close>

lemma nl_new_rep:
  assumes d: "dll (h, nl_head nl, nl_tail nl) as" and a: "a \<notin> set as"
    and num: "nl_num nl = int (length as)"
  shows "\<exists>h' nl'. nl_new (Some a) name (h, nl) = Some (h', nl')
     \<and> nl_rep h' nl' (a # as) \<lparr>names = name # strs h as, cursor = 0, limit = nl_max nl\<rparr>
     \<and> outside (insert a (set as)) h h'"
proof -
  let ?n = "\<lparr>sl_next = None, sl_prev = None, sl_str = name\<rparr>"
  let ?h = "h(a \<mapsto> ?n)"
  from strlinkhead_implements [OF dll_upd [OF a d] a, of "Some ?n" ?n]
  obtain h' hp tp where r: "strlinkhead a (?h, nl_head nl, nl_tail nl) = Some (h', hp, tp)"
    and d': "dll (h', hp, tp) (a # as)" and f: "frame (insert a (set as)) ?h h'"
    by (auto simp: implements_def)
  have "strs h' (a # as) = name # strs h as"
    using frame_strs [OF f, of "a # as"] a by simp
  with r d' num dll_head [OF d'] f a show ?thesis
    by (auto simp: nl_new_def nl_rep_def outside_def frame_def)
qed

text \<open>Taking a node out, and putting it back in front.\<close>

lemma unlink_rep:
  assumes "dll (h, hp, tp) (xs @ s # ys)"
  obtains h' hp' tp' where "strunlink s (h, hp, tp) = Some (h', hp', tp')"
    "dll (h', hp', tp') (xs @ ys)" "outside (set (xs @ s # ys)) h h'"
    "\<And>zs. strs h' zs = strs h zs" "\<exists>n. h' s = Some n"
proof -
  from strunlink_implements [OF assms] obtain h' hp' tp' where
    r: "strunlink s (h, hp, tp) = Some (h', hp', tp')" "dll (h', hp', tp') (xs @ ys)"
    and f: "frame (set (xs @ s # ys)) h h'"
    by (auto simp: implements_def)
  have "map_option sl_str (h' s) = map_option sl_str (h s)" using f by (simp add: frame_def)
  moreover have "\<exists>n. h s = Some n" using assms lseg_alloc by (fastforce simp: dll_def)
  ultimately have "\<exists>n. h' s = Some n" by (cases "h' s") auto
  with r f frame_strs [OF f] that show thesis by (simp add: frame_def outside_def)
qed

lemma outside_trans: "outside S h h' \<Longrightarrow> outside T h' h'' \<Longrightarrow> S \<subseteq> U \<Longrightarrow> T \<subseteq> U \<Longrightarrow> outside U h h''"
  unfolding outside_def by (metis subsetD)

lemma link_rep:
  assumes d: "dll (h, hp, tp) as" and "s \<notin> set as" "\<exists>n. h s = Some n"
  obtains h' hp' tp' where "strlinkhead s (h, hp, tp) = Some (h', hp', tp')"
    "dll (h', hp', tp') (s # as)" "outside (insert s (set as)) h h'"
    "\<And>zs. strs h' zs = strs h zs"
proof -
  from assms strlinkhead_implements [OF d, of s] obtain h' hp' tp' where
    "strlinkhead s (h, hp, tp) = Some (h', hp', tp')" "dll (h', hp', tp') (s # as)"
    and f: "frame (insert s (set as)) h h'"
    by (auto simp: implements_def)
  with frame_strs [OF f] that show thesis by (simp add: frame_def outside_def)
qed

lemma nl_put_fields [simp]: "limit (nl_put name l) = limit l" "cursor (nl_put name l) = 0"
  by (simp_all add: nl_put_def Let_def)

lemma nlput_found:
  assumes R: "nl_rep h nl as l" and fnd: "find (\<lambda>a. strcaseeq name (node_str h a)) as = Some s"
  shows "\<exists>h' nl' as'. nlput mem name (h, nl) = Some (h', nl') \<and> nl_rep h' nl' as' (nl_put name l)
     \<and> set as' = set as \<and> outside (set as) h h'"
proof -
  obtain xs ys where as: "as = xs @ s # ys"
    and before: "\<forall>x \<in> set xs. \<not> strcaseeq name (node_str h x)" "strcaseeq name (node_str h s)"
    using fnd by (rule find_splitE)
  have d: "dll (h, nl_head nl, nl_tail nl) (xs @ s # ys)" using R as by (simp add: nl_rep_def)
  obtain h1 hp1 tp1 where 1: "strunlink s (h, nl_head nl, nl_tail nl) = Some (h1, hp1, tp1)"
    "dll (h1, hp1, tp1) (xs @ ys)" "outside (set (xs @ s # ys)) h h1"
    "\<And>zs. strs h1 zs = strs h zs" "\<exists>n. h1 s = Some n"
    using unlink_rep [OF d] by metis
  have "s \<notin> set (xs @ ys)" using dll_distinct [OF d] by simp
  from link_rep [OF 1(2) this 1(5)] obtain h2 hp2 tp2 where
    2: "strlinkhead s (h1, hp1, tp1) = Some (h2, hp2, tp2)" "dll (h2, hp2, tp2) (s # xs @ ys)"
    "outside (insert s (set (xs @ ys))) h1 h2" "\<And>zs. strs h2 zs = strs h1 zs" by metis
  have get: "strgetnode strcaseeq name h (nl_head nl) = Some (Some s)"
    using strgetnode_find [OF d] fnd as by simp
  have idx: "find_index (strcaseeq name) (names l) = int (length xs)"
    using R find_index_strs [OF as before] by (simp add: nl_rep_def)
  have nm: "names (nl_put name l) = strs h (s # xs @ ys)"
    using R idx by (simp add: nl_put_def nl_rep_def as nth_strs remove_nth_strs)
  have "nlput mem name (h, nl) = Some (h2, nl\<lparr>nl_head := hp2, nl_tail := tp2, nl_p := hp2\<rparr>)"
    using get 1(1) 2(1) by (simp add: nlput_def)
  moreover have "nl_rep h2 (nl\<lparr>nl_head := hp2, nl_tail := tp2, nl_p := hp2\<rparr>) (s # xs @ ys)
      (nl_put name l)"
    using R 2(2) nm 1(4) 2(4) dll_head [OF 2(2)] as
    by (simp add: nl_rep_def del: strs_Cons)
  moreover have "outside (set as) h h2"
    using outside_trans [OF 1(3) 2(3), of "set as"] as by auto
  ultimately show ?thesis using as by (intro exI conjI) auto
qed

lemma nlput_new:
  assumes R: "nl_rep h nl as l" and fnd: "find (\<lambda>a. strcaseeq name (node_str h a)) as = None"
    and a: "h a = None" and room: "int (length as) < limit l"
  shows "\<exists>h' nl' as'. nlput (Some a) name (h, nl) = Some (h', nl') \<and> nl_rep h' nl' as' (nl_put name l)
     \<and> set as' \<subseteq> insert a (set as) \<and> outside (insert a (set as)) h h'"
proof -
  have d: "dll (h, nl_head nl, nl_tail nl) as" and num: "nl_num nl = int (length as)"
    and mx: "nl_max nl = limit l" and nm: "names l = strs h as"
    using R by (simp_all add: nl_rep_def)
  have "nlput (Some a) name (h, nl) = nl_new (Some a) name (h, nl)"
    using strgetnode_find [OF d] fnd room num mx by (simp add: nlput_def)
  moreover have "nl_put name l = \<lparr>names = name # strs h as, cursor = 0, limit = nl_max nl\<rparr>"
    using find_index_strs_none [OF fnd] room nm mx by (simp add: nl_put_def)
  ultimately show ?thesis
    using nl_new_rep [OF d dll_alloc [OF d a] num, of name] by fastforce
qed

lemma nlput_full:
  assumes R: "nl_rep h nl as l" and fnd: "find (\<lambda>a. strcaseeq name (node_str h a)) as = None"
    and a: "h a = None" and full: "\<not> int (length as) < limit l" and ne: "as \<noteq> []"
  shows "\<exists>h' nl' as'. nlput (Some a) name (h, nl) = Some (h', nl') \<and> nl_rep h' nl' as' (nl_put name l)
     \<and> set as' \<subseteq> insert a (set as) \<and> outside (insert a (set as)) h h'"
proof -
  obtain xs s where as: "as = xs @ [s]" using ne by (metis rev_exhaust)
  have d0: "dll (h, nl_head nl, nl_tail nl) as" and num: "nl_num nl = int (length as)"
    and mx: "nl_max nl = limit l" and nm: "names l = strs h as"
    using R by (simp_all add: nl_rep_def)
  then have d: "dll (h, nl_head nl, nl_tail nl) (xs @ s # [])" and tl: "nl_tail nl = Some s"
    by (simp_all add: as dll_def)
  obtain h1 hp1 tp1 where 1: "strunlink s (h, nl_head nl, nl_tail nl) = Some (h1, hp1, tp1)"
    "dll (h1, hp1, tp1) (xs @ [])" "outside (set (xs @ s # [])) h h1"
    "\<And>zs. strs h1 zs = strs h zs"
    using unlink_rep [OF d] by metis
  let ?h = "h1(s := None)"
  let ?nl = "nl\<lparr>nl_head := hp1, nl_tail := tp1, nl_num := nl_num nl - 1\<rparr>"
  have s: "s \<notin> set xs" using dll_distinct [OF d] by simp
  then have d1: "dll (?h, nl_head ?nl, nl_tail ?nl) xs" using dll_upd 1(2) by simp
  have ax: "a \<notin> set xs" using dll_alloc [OF d0 a] as by simp
  have n1: "nl_num ?nl = int (length xs)" using num as by simp
  have "nlput (Some a) name (h, nl) = nl_new (Some a) name (?h, ?nl)"
    using strgetnode_find [OF d0] fnd full num mx tl 1(1) by (simp add: nlput_def)
  moreover have "nl_put name l = \<lparr>names = name # strs ?h xs, cursor = 0, limit = nl_max ?nl\<rparr>"
    using find_index_strs_none [OF fnd] full nm mx s 1(4) as
    by (simp add: nl_put_def) (simp add: strs_def)
  moreover have "outside (insert a (set as)) h h'" if "outside (insert a (set xs)) ?h h'" for h'
    using that 1(3) as by (auto simp: outside_def)
  ultimately show ?thesis
    using nl_new_rep [OF d1 ax n1, of name] as by fastforce
qed

lemma nlput_rep:
  assumes R: "nl_rep h nl as l" and a: "h a = None" and m: "0 < limit l"
  shows "\<exists>h' nl' as'. nlput (Some a) name (h, nl) = Some (h', nl') \<and> nl_rep h' nl' as' (nl_put name l)
     \<and> set as' \<subseteq> insert a (set as) \<and> outside (insert a (set as)) h h'"
proof (cases "find (\<lambda>a. strcaseeq name (node_str h a)) as")
  case None
  have "as \<noteq> [] \<or> int (length as) < limit l" using m by auto
  with nlput_new [OF R None a] nlput_full [OF R None a] show ?thesis by blast
next
  case (Some s)
  from nlput_found [OF R Some, of "Some a"] show ?thesis
    unfolding outside_def by blast
qed

lemma nlget_rep:
  assumes R: "nl_rep h nl as l" and ne: "names l \<noteq> []"
  shows "\<exists>nl'. nlget (h, nl) = Some (fst (nl_get l), (h, nl')) \<and> nl_rep h nl' as (snd (nl_get l))"
proof -
  have as: "as \<noteq> []" using R ne by (auto simp: nl_rep_def)
  define xs ys where "xs = take (cursor l) as" and "ys = drop (Suc (cursor l)) as"
  let ?a = "as ! cursor l"
  have c: "cursor l < length as" and p: "nl_p nl = Some ?a"
    using R as by (auto simp: nl_rep_def)
  then have sp: "as = xs @ ?a # ys" by (simp add: xs_def ys_def id_take_nth_drop)
  have "dll (h, nl_head nl, nl_tail nl) (xs @ ?a # ys)" using R sp by (simp add: nl_rep_def)
  then obtain n where n: "h ?a = Some n" "sl_next n = first_or None ys"
    by (auto simp: dll_def)
  have nxt: "(if sl_next n = None then nl_head nl else sl_next n)
      = Some (as ! (if Suc (cursor l) = length as then 0 else Suc (cursor l)))"
  proof (cases "Suc (cursor l) = length as")
    case True
    then have "ys = []" by (simp add: ys_def)
    with n True R as show ?thesis by (cases as) (auto simp: nl_rep_def dll_def)
  next
    case False
    with c have "ys = as ! Suc (cursor l) # drop (Suc (Suc (cursor l))) as"
      by (simp add: ys_def Cons_nth_drop_Suc)
    with n False show ?thesis by simp
  qed
  have str: "names l ! cursor l = sl_str n"
    using R c n by (simp add: nl_rep_def strs_def)
  have "length (names l) = length as" using R by (simp add: nl_rep_def)
  with R as p n nxt str c show ?thesis
    by (auto simp: nlget_def nl_get_def nl_rep_def deref_def Let_def split: if_splits)
qed

lemma nldelete_rep:
  assumes R: "nl_rep h nl as l"
  shows "\<exists>h' nl' as'. nldelete name (h, nl) = Some (fst (nl_delete name l), (h', nl'))
     \<and> nl_rep h' nl' as' (snd (nl_delete name l)) \<and> set as' \<subseteq> set as \<and> outside (set as) h h'"
proof (cases "find (\<lambda>a. strcaseeq name (node_str h a)) as")
  case None
  from R have d: "dll (h, nl_head nl, nl_tail nl) as" and nm: "names l = strs h as"
    by (simp_all add: nl_rep_def)
  have "nldelete name (h, nl) = Some (-1, (h, nl))"
    using strgetnode_find [OF d] None by (simp add: nldelete_def)
  moreover have "nl_delete name l = (-1, l)"
    using find_index_strs_none [OF None] nm by (simp add: nl_delete_def)
  ultimately show ?thesis using R by (auto simp: outside_def)
next
  case (Some s)
  then obtain xs ys where as: "as = xs @ s # ys"
    and before: "\<forall>x \<in> set xs. \<not> strcaseeq name (node_str h x)" "strcaseeq name (node_str h s)"
    by (rule find_splitE)
  have d: "dll (h, nl_head nl, nl_tail nl) (xs @ s # ys)" using R as by (simp add: nl_rep_def)
  obtain h1 hp1 tp1 where 1: "strunlink s (h, nl_head nl, nl_tail nl) = Some (h1, hp1, tp1)"
    "dll (h1, hp1, tp1) (xs @ ys)" "outside (set (xs @ s # ys)) h h1"
    "\<And>zs. strs h1 zs = strs h zs"
    using unlink_rep [OF d] by metis
  have s: "s \<notin> set (xs @ ys)" using dll_distinct [OF d] by simp
  let ?h = "h1(s := None)"
  let ?p = "if xs @ ys = [] then None else hp1"
  let ?nl = "nl\<lparr>nl_head := hp1, nl_tail := tp1, nl_num := nl_num nl - 1, nl_p := ?p\<rparr>"
  have num: "nl_num nl = int (length xs + length ys) + 1" using R as by (simp add: nl_rep_def)
  have "nldelete name (h, nl) = Some (0, (?h, ?nl))"
    using strgetnode_find [OF d, of strcaseeq name] Some as num 1(1)
    by (simp add: nldelete_def Let_def) (cases xs; cases ys; simp)
  moreover have idx: "find_index (strcaseeq name) (names l) = int (length xs)"
    using R find_index_strs [OF as before] by (simp add: nl_rep_def)
  then have "nl_delete name l = (0, l\<lparr>names := strs h (xs @ ys), cursor := 0\<rparr>)"
    using R by (simp add: nl_delete_def nl_rep_def as remove_nth_strs)
  moreover have "nl_rep ?h ?nl (xs @ ys) (l\<lparr>names := strs h (xs @ ys), cursor := 0\<rparr>)"
  proof -
    have "dll (?h, hp1, tp1) (xs @ ys)" using dll_upd [OF s 1(2)] .
    moreover have "strs ?h (xs @ ys) = strs h (xs @ ys)" using s 1(4) by simp
    moreover have "hp1 = first_or None (xs @ ys)" using 1(2) by (simp add: dll_def)
    then have "xs @ ys \<noteq> [] \<Longrightarrow> hp1 = Some ((xs @ ys) ! 0)" by (cases "xs @ ys") auto
    ultimately show ?thesis using R num unfolding nl_rep_def by auto
  qed
  moreover have "outside (set as) h ?h" using 1(3) as by (auto simp: outside_def)
  ultimately show ?thesis using as by (intro exI [of _ ?h] exI [of _ ?nl] exI [of _ "xs @ ys"]) auto
qed

lemma nl_free_lseg:
  "lseg h p as None \<Longrightarrow> distinct as \<Longrightarrow>
   nl_free h (first_or None as) = Some (\<lambda>b. if b \<in> set as then None else h b)"
proof (induction as arbitrary: h p)
  case Nil
  then show ?case by (simp add: nl_free.simps)
next
  case (Cons a as)
  from Cons.prems obtain n where n: "h a = Some n" "sl_next n = first_or None as" by auto
  have "(\<lambda>b. if b \<in> set as then None else (h(a := None)) b)
      = (\<lambda>b. if b \<in> set (a # as) then None else h b)" by auto
  moreover have "nl_free (h(a := None)) (first_or None as)
      = Some (\<lambda>b. if b \<in> set as then None else (h(a := None)) b)"
    using Cons.IH [of "h(a := None)" "Some a"] Cons.prems by (simp del: fun_upd_apply)
  ultimately have
    "nl_free (h(a := None)) (first_or None as) = Some (\<lambda>b. if b \<in> set (a # as) then None else h b)"
    by (simp only:)
  with n show ?case by (subst nl_free.simps) simp
qed

lemma nlclear_rep:
  assumes "nl_rep h nl as l"
  shows "\<exists>h' nl'. nlclear (h, nl) = Some (h', nl') \<and> nl_rep h' nl' [] (nl_clear l)
     \<and> outside (set as) h h' \<and> (\<forall>a \<in> set as. h' a = None)"
proof -
  from assms have d: "lseg h None as None" "distinct as" "nl_head nl = first_or None as"
    by (simp_all add: nl_rep_def dll_def)
  from assms nl_free_lseg [OF d(1,2)] d(3) show ?thesis
    by (simp add: nlclear_def nl_clear_def nl_rep_def dll_def outside_def)
qed

lemma nl_search_rep:
  assumes "nl_rep h nl as l"
  shows "(if nl_num nl > 0 then map_option (\<lambda>r. r \<noteq> None) (strgetnode t name h (nl_head nl))
          else Some False) = Some (\<exists>s \<in> set (names l). t name s)"
proof (cases "as = []")
  case True
  with assms show ?thesis by (simp add: nl_rep_def)
next
  case False
  from assms have d: "dll (h, nl_head nl, nl_tail nl) as" and nm: "names l = strs h as"
    and "nl_num nl > 0" using False by (simp_all add: nl_rep_def)
  then show ?thesis
    using strgetnode_find [OF d, of t name] find_None_iff [of "\<lambda>a. t name (node_str h a)" as]
    by (auto simp: strs_def)
qed

lemma nlpresent_rep: "nl_rep h nl as l \<Longrightarrow> nlpresent name (h, nl) = Some (nl_present name l)"
  using nl_search_rep [of h nl as l strcaseeq name] by (simp add: nlpresent_def nl_present_def)

lemma nlmatch_rep: "nl_rep h nl as l \<Longrightarrow> nlmatch name (h, nl) = Some (nl_match name l)"
  using nl_search_rep [of h nl as l wild name] by (simp add: nlmatch_def nl_match_def)

section \<open>Laws of the name lists\<close>

text \<open>
  The invariant: no name twice up to case, no more names than the limit, and a cursor in
  range.
\<close>

definition nl_ok :: "nlist \<Rightarrow> bool" where
  "nl_ok l \<longleftrightarrow> distinct (map (map tolower) (names l)) \<and> nl_count l \<le> limit l \<and> 0 < limit l
     \<and> (cursor l < length (names l) \<or> names l = [] \<and> cursor l = 0)"

lemma mem_remove_nth: "x \<in> set (remove_nth i xs) \<Longrightarrow> x \<in> set xs"
  by (auto simp: remove_nth_def dest: in_set_takeD in_set_dropD)

lemma remove_nth_split: "i < length xs \<Longrightarrow> set xs = insert (xs ! i) (set (remove_nth i xs))"
  using id_take_nth_drop [of i xs] by (metis Un_insert_right list.simps(15) remove_nth_def set_append)

lemma distinct_remove_nth:
  "distinct (map f xs) \<Longrightarrow> i < length xs \<Longrightarrow>
   distinct (map f (remove_nth i xs)) \<and> f (xs ! i) \<notin> f ` set (remove_nth i xs)"
proof -
  assume d: "distinct (map f xs)" and i: "i < length xs"
  have "xs = take i xs @ xs ! i # drop (Suc i) xs" using i by (rule id_take_nth_drop)
  then have "distinct (map f (take i xs @ xs ! i # drop (Suc i) xs))" using d by simp
  then show ?thesis unfolding remove_nth_def by auto
qed

text \<open>What the callers of the name lists rely on.\<close>

locale name_list =
  fixes ok :: "'l \<Rightarrow> bool"
    and put :: "cstring \<Rightarrow> 'l \<Rightarrow> 'l"
    and del :: "cstring \<Rightarrow> 'l \<Rightarrow> int \<times> 'l"
    and mem :: "cstring \<Rightarrow> 'l \<Rightarrow> bool"
    and cnt :: "'l \<Rightarrow> int"
    and lim :: "'l \<Rightarrow> int"
  assumes ok_put: "ok l \<Longrightarrow> ok (put x l)"
    and ok_del: "ok l \<Longrightarrow> ok (snd (del x l))"
    and lim_put: "lim (put x l) = lim l"
    and cnt_lim: "ok l \<Longrightarrow> 0 \<le> cnt l \<and> cnt l \<le> lim l"
    and cnt_put: "ok l \<Longrightarrow> cnt (put x l) \<le> cnt l + 1"
    and mem_put: "ok l \<Longrightarrow> mem x (put x l)"
    and mem_put_old: "ok l \<Longrightarrow> mem y (put x l) \<Longrightarrow> strcaseeq y x \<or> mem y l"
    and mem_put_keep: "ok l \<Longrightarrow> cnt l < lim l \<Longrightarrow> mem y l \<Longrightarrow> mem y (put x l)"
    and mem_del: "ok l \<Longrightarrow> mem y (snd (del x l)) \<longleftrightarrow> mem y l \<and> \<not> strcaseeq y x"
    and del_result: "fst (del x l) = (if mem x l then 0 else -1)"
begin

text \<open>As long as there is room, a sequence of insertions keeps every name.\<close>

lemma fold_put_ok: "ok l \<Longrightarrow> ok (fold put xs l) \<and> lim (fold put xs l) = lim l"
  by (induction xs arbitrary: l) (simp_all add: ok_put lim_put)

lemma fold_put_keep:
  "ok l \<Longrightarrow> cnt l + int (length xs) \<le> lim l \<Longrightarrow> mem y l \<Longrightarrow> mem y (fold put xs l)"
proof (induction xs arbitrary: l)
  case (Cons x xs)
  have "cnt (put x l) + int (length xs) \<le> lim (put x l)"
    using cnt_put [OF Cons.prems(1), of x] Cons.prems(2) lim_put [of x l] by simp
  with Cons show ?case using ok_put mem_put_keep by simp
qed simp

lemma fold_put_mem:
  "ok l \<Longrightarrow> cnt l + int (length xs) \<le> lim l \<Longrightarrow> x \<in> set xs \<Longrightarrow> mem x (fold put xs l)"
proof (induction xs arbitrary: l)
  case (Cons z xs)
  have room: "cnt (put z l) + int (length xs) \<le> lim (put z l)"
    using cnt_put [OF Cons.prems(1), of z] Cons.prems(2) lim_put [of z l] by simp
  show ?case
  proof (cases "x = z")
    case True
    with fold_put_keep [OF ok_put [OF Cons.prems(1)] room] mem_put [OF Cons.prems(1)]
    show ?thesis by simp
  next
    case False
    with Cons.IH [OF ok_put [OF Cons.prems(1)] room] Cons.prems(3) show ?thesis by simp
  qed
qed simp

text \<open>Deleting what was put leaves nothing that was not there before.\<close>

lemma put_del_old:
  "ok l \<Longrightarrow> mem y (snd (del x (put x l))) \<Longrightarrow> mem y l"
  using mem_del mem_put_old ok_put by blast

lemma del_put_result: "ok l \<Longrightarrow> fst (del x (put x l)) = 0"
  by (simp add: del_result mem_put)

end

lemma nl_put_found:
  assumes "nl_present x l"
  obtains i where "find_index (strcaseeq x) (names l) = int i" "i < length (names l)"
    "strcaseeq x (names l ! i)"
    "names (nl_put x l) = names l ! i # remove_nth i (names l)"
proof -
  let ?i = "find_index (strcaseeq x) (names l)"
  have i: "0 \<le> ?i" using assms by (simp add: nl_present_def find_index_nonneg)
  with find_index_nat [OF i] that [of "nat ?i"] show thesis by (simp add: nl_put_def Let_def)
qed

lemma nl_put_new:
  assumes "\<not> nl_present x l"
  shows "names (nl_put x l)
    = x # (if nl_count l < limit l then names l else butlast (names l))"
proof -
  have "find_index (strcaseeq x) (names l) < 0"
    using assms by (simp add: nl_present_def find_index_neg)
  then show ?thesis by (simp add: nl_put_def nl_count_def)
qed

lemma butlast_distinct_map: "distinct (map f xs) \<Longrightarrow> distinct (map f (butlast xs))"
  by (metis distinct_butlast map_butlast)

lemma length_remove_nth: "i < length xs \<Longrightarrow> length (remove_nth i xs) = length xs - 1"
  by (simp add: remove_nth_def)

lemma nl_present_lower:
  "nl_present x l \<longleftrightarrow> map tolower x \<in> map tolower ` set (names l)"
  by (auto simp: nl_present_def strcaseeq_def)

lemma nl_ok_put: "nl_ok l \<Longrightarrow> nl_ok (nl_put x l)"
proof (cases "nl_present x l")
  case True
  assume ok: "nl_ok l"
  obtain i where i: "i < length (names l)"
    "names (nl_put x l) = names l ! i # remove_nth i (names l)" using nl_put_found [OF True] by blast
  with ok distinct_remove_nth [of "map tolower" "names l" i] show ?thesis
    by (auto simp: nl_ok_def nl_count_def length_remove_nth)
next
  case False
  assume ok: "nl_ok l"
  have "map tolower x \<notin> map tolower ` set (butlast (names l))"
    using False by (auto simp: nl_present_lower dest: in_set_butlastD)
  with ok False nl_put_new [OF False] butlast_distinct_map [of "map tolower" "names l"]
  show ?thesis by (auto simp: nl_ok_def nl_count_def nl_present_lower)
qed

lemma nl_delete_cases:
  assumes "nl_ok l"
  shows "nl_present x l \<Longrightarrow> \<exists>i < length (names l). strcaseeq x (names l ! i) \<and>
      nl_delete x l = (0, l\<lparr>names := remove_nth i (names l), cursor := 0\<rparr>)"
    and "\<not> nl_present x l \<Longrightarrow> nl_delete x l = (-1, l)"
proof -
  let ?i = "find_index (strcaseeq x) (names l)"
  { assume "nl_present x l"
    then have i: "0 \<le> ?i" by (simp add: nl_present_def find_index_nonneg)
    with find_index_nat [OF i] show "\<exists>i < length (names l). strcaseeq x (names l ! i) \<and>
      nl_delete x l = (0, l\<lparr>names := remove_nth i (names l), cursor := 0\<rparr>)"
      by (intro exI [of _ "nat ?i"]) (simp add: nl_delete_def) }
  assume "\<not> nl_present x l"
  then have "?i < 0" by (simp add: nl_present_def find_index_neg)
  then show "nl_delete x l = (-1, l)" by (simp add: nl_delete_def)
qed

lemma nl_ok_delete: "nl_ok l \<Longrightarrow> nl_ok (snd (nl_delete x l))"
proof (cases "nl_present x l")
  case True
  assume ok: "nl_ok l"
  from nl_delete_cases(1) [OF ok True] obtain i where i: "i < length (names l)"
    "nl_delete x l = (0, l\<lparr>names := remove_nth i (names l), cursor := 0\<rparr>)" by blast
  with ok distinct_remove_nth [of "map tolower" "names l" i] length_remove_nth [OF i(1)]
  show ?thesis by (cases "remove_nth i (names l)") (auto simp: nl_ok_def nl_count_def)
qed (simp add: nl_delete_cases)

lemma nl_present_delete:
  assumes ok: "nl_ok l"
  shows "nl_present y (snd (nl_delete x l)) \<longleftrightarrow> nl_present y l \<and> \<not> strcaseeq y x"
proof (cases "nl_present x l")
  case True
  from nl_delete_cases(1) [OF ok True] obtain i where i: "i < length (names l)"
    "strcaseeq x (names l ! i)"
    "nl_delete x l = (0, l\<lparr>names := remove_nth i (names l), cursor := 0\<rparr>)" by blast
  have "map tolower (names l ! i) \<notin> map tolower ` set (remove_nth i (names l))"
    using distinct_remove_nth [of "map tolower" "names l" i] ok i(1) by (simp add: nl_ok_def)
  with i remove_nth_split [OF i(1)] show ?thesis
    by (auto simp: nl_present_lower strcaseeq_def)
next
  case False
  with nl_delete_cases(2) [OF ok] show ?thesis
    by (auto simp: nl_present_lower strcaseeq_def)
qed

lemma nl_present_put: "nl_present x (nl_put x l)"
proof (cases "nl_present x l")
  case True
  then show ?thesis using nl_put_found [OF True] unfolding nl_present_def by (metis list.set_intros(1))
next
  case False
  with nl_put_new [OF False] show ?thesis by (simp add: nl_present_def)
qed

lemma nl_present_put_old: "nl_present y (nl_put x l) \<Longrightarrow> strcaseeq y x \<or> nl_present y l"
proof (cases "nl_present x l")
  case True
  assume y: "nl_present y (nl_put x l)"
  obtain i where "i < length (names l)" "names (nl_put x l) = names l ! i # remove_nth i (names l)"
    using nl_put_found [OF True] by blast
  with y show ?thesis by (auto simp: nl_present_def dest: mem_remove_nth)
next
  case False
  assume "nl_present y (nl_put x l)"
  with nl_put_new [OF False] show ?thesis
    by (auto simp: nl_present_def dest: in_set_butlastD split: if_splits)
qed

lemma nl_present_put_keep:
  assumes "nl_count l < limit l" and y: "nl_present y l"
  shows "nl_present y (nl_put x l)"
proof (cases "nl_present x l")
  case True
  obtain i where i: "i < length (names l)" "names (nl_put x l) = names l ! i # remove_nth i (names l)"
    using nl_put_found [OF True] by blast
  with y remove_nth_split [OF i(1)] show ?thesis by (auto simp: nl_present_def)
next
  case False
  with nl_put_new [OF False] assms show ?thesis by (auto simp: nl_present_def)
qed

lemma nl_count_put: "nl_count (nl_put x l) \<le> nl_count l + 1"
proof (cases "nl_present x l")
  case True
  obtain i where i: "i < length (names l)" "names (nl_put x l) = names l ! i # remove_nth i (names l)"
    using nl_put_found [OF True] by blast
  with length_remove_nth [OF i(1)] show ?thesis by (simp add: nl_count_def)
next
  case False
  with nl_put_new [OF False] show ?thesis by (simp add: nl_count_def)
qed

interpretation nl: name_list nl_ok nl_put nl_delete nl_present nl_count limit
proof unfold_locales
  fix x l
  show "fst (nl_delete x l) = (if nl_present x l then 0 else -1)"
    by (simp add: nl_delete_def nl_present_def find_index_neg Let_def)
  show "nl_ok l \<Longrightarrow> 0 \<le> nl_count l \<and> nl_count l \<le> limit l"
    by (simp add: nl_ok_def nl_count_def)
qed (simp_all add: nl_ok_put nl_ok_delete nl_present_delete nl_present_put nl_count_put
      nl_present_put_old nl_present_put_keep)

text \<open>The lists as they are created.\<close>

lemma nl_ok_init: "0 < m \<Longrightarrow> nl_ok (nl_init m)"
  by (simp add: nl_ok_def nl_init_def nl_count_def)

lemma nl_ok_clear: "nl_ok l \<Longrightarrow> nl_ok (nl_clear l)"
  by (simp add: nl_ok_def nl_clear_def nl_count_def)

lemma nl_rep_init: "nl_rep h (nlinit m) [] (nl_init m)"
  by (simp add: nl_rep_def nlinit_def nl_init_def dll_def)

lemma nl_present_init [simp]: "\<not> nl_present x (nl_init m)"
  by (simp add: nl_present_def nl_init_def)

lemma nl_present_clear [simp]: "\<not> nl_present x (nl_clear l)"
  by (simp add: nl_present_def nl_clear_def)

text \<open>Reading the list round: \<open>k\<close> calls of \<open>nl_get\<close>.\<close>

fun nl_gets :: "nat \<Rightarrow> nlist \<Rightarrow> cstring list \<times> nlist" where
  "nl_gets 0 l = ([], l)"
| "nl_gets (Suc k) l =
     (let (x, l) = nl_get l; (xs, l) = nl_gets k l in (x # xs, l))"

lemma nl_gets_from:
  "cursor l + k = length (names l) \<Longrightarrow> 0 < k \<Longrightarrow>
   nl_gets k l = (drop (cursor l) (names l), l\<lparr>cursor := 0\<rparr>)"
proof (induction k arbitrary: l)
  case (Suc k)
  have c: "cursor l < length (names l)" using Suc.prems by simp
  show ?case
  proof (cases "k = 0")
    case True
    with Suc.prems have "Suc (cursor l) = length (names l)" by simp
    with True c Cons_nth_drop_Suc [OF c] show ?thesis by (simp add: nl_get_def)
  next
    case False
    let ?l = "l\<lparr>cursor := Suc (cursor l)\<rparr>"
    have "nl_get l = (names l ! cursor l, ?l)" using Suc.prems False by (simp add: nl_get_def)
    moreover have "nl_gets k ?l = (drop (Suc (cursor l)) (names l), l\<lparr>cursor := 0\<rparr>)"
      using Suc.IH [of ?l] Suc.prems False by simp
    ultimately show ?thesis using Cons_nth_drop_Suc [OF c] by simp
  qed
qed simp

section \<open>Properties\<close>

text \<open>
  C21 (insertion into a name list, on the heap): on a heap that holds a well-formed list, with
  an address \<open>malloc\<close> is free to hand out, \<open>nlput\<close> returns, the heap then holds the list
  with the name moved or added to the front (the oldest name dropped when the list was
  full), that list is well-formed again, contains the name, and no heap cell outside the
  list and the new node has changed.
\<close>

theorem nlput_refines:
  assumes R: "nl_rep h nl as l" and ok: "nl_ok l" and a: "h a = None"
  shows "\<exists>h' nl' as'. nlput (Some a) name (h, nl) = Some (h', nl')
     \<and> nl_rep h' nl' as' (nl_put name l) \<and> nl_ok (nl_put name l)
     \<and> nlpresent name (h', nl') = Some True \<and> nlcount nl' \<le> nl_max nl'
     \<and> set as' \<subseteq> insert a (set as) \<and> outside (insert a (set as)) h h'"
proof -
  have "0 < limit l" using ok by (simp add: nl_ok_def)
  from nlput_rep [OF R a this] obtain h' nl' as' where
    r: "nlput (Some a) name (h, nl) = Some (h', nl')" "nl_rep h' nl' as' (nl_put name l)"
    "set as' \<subseteq> insert a (set as)" "outside (insert a (set as)) h h'" by blast
  moreover have "nlpresent name (h', nl') = Some True"
    using nlpresent_rep [OF r(2)] nl.mem_put [OF ok] by simp
  moreover have "nlcount nl' \<le> nl_max nl'"
    using r(2) nl.cnt_lim [OF nl_ok_put [OF ok, of name]] by (simp add: nlcount_def nl_rep_def nl_count_def)
  ultimately show ?thesis using nl_ok_put [OF ok] by blast
qed

theorem nlput_refines_witness:
  "\<exists>h' nl' as'. nlput (Some 7) ''bob'' (Map.empty, nlinit 2) = Some (h', nl')
     \<and> nl_rep h' nl' as' (nl_put ''bob'' (nl_init 2)) \<and> nlpresent ''bob'' (h', nl') = Some True
     \<and> names (nl_put ''bob'' (nl_init 2)) = [''bob'']"
proof -
  have "names (nl_put ''bob'' (nl_init 2)) = [''bob'']" by code_simp
  with nlput_refines [OF nl_rep_init [of Map.empty 2] nl_ok_init [of 2], of 7 "''bob''"]
  show ?thesis by auto
qed

text \<open>
  Deletion from a name list, on the heap: \<open>nldelete\<close> returns 0 exactly when the name
  is in the list up to case and -1 otherwise; afterwards the name is gone, every other name
  is still there, the heap holds a well-formed list, and nothing outside the list's nodes
  has changed.
\<close>

lemma nldelete_refines:
  assumes R: "nl_rep h nl as l" and ok: "nl_ok l"
  shows "\<exists>h' nl' as'. nldelete name (h, nl)
       = Some (if nlpresent name (h, nl) = Some True then 0 else -1, (h', nl'))
     \<and> nl_rep h' nl' as' (snd (nl_delete name l)) \<and> nl_ok (snd (nl_delete name l))
     \<and> (\<forall>y. nlpresent y (h', nl')
            = map_option (\<lambda>b. b \<and> \<not> strcaseeq y name) (nlpresent y (h, nl)))
     \<and> outside (set as) h h'"
proof -
  from nldelete_rep [OF R, of name] obtain h' nl' as' where
    r: "nldelete name (h, nl) = Some (fst (nl_delete name l), (h', nl'))"
    "nl_rep h' nl' as' (snd (nl_delete name l))" "outside (set as) h h'" by blast
  have "nlpresent y (h', nl')
      = map_option (\<lambda>b. b \<and> \<not> strcaseeq y name) (nlpresent y (h, nl))" for y
    using nlpresent_rep [OF r(2)] nlpresent_rep [OF R] nl.mem_del [OF ok] by simp
  with r nl_ok_delete [OF ok] nlpresent_rep [OF R, of name] nl.del_result [of name l]
  show ?thesis by auto
qed

lemma nldelete_refines_example:
  "\<exists>h nl h' nl'. nlput (Some 7) ''bob'' (Map.empty, nlinit 2) = Some (h, nl)
     \<and> nldelete ''BOB'' (h, nl) = Some (0, (h', nl')) \<and> nlpresent ''bob'' (h', nl') = Some False"
proof -
  from nlput_rep [OF nl_rep_init [of Map.empty 2], of 7 "''bob''"] obtain h nl as where
    r: "nlput (Some 7) ''bob'' (Map.empty, nlinit 2) = Some (h, nl)"
    "nl_rep h nl as (nl_put ''bob'' (nl_init 2))"
    by (auto simp: nl_init_def)
  have ok: "nl_ok (nl_put ''bob'' (nl_init 2))" by (intro nl_ok_put nl_ok_init) simp
  have "nl_present ''BOB'' (nl_put ''bob'' (nl_init 2))" "strcaseeq ''bob'' ''BOB''"
    by code_simp+
  with nldelete_refines [OF r(2) ok, of "''BOB''"] nlpresent_rep [OF r(2)] r(1)
  show ?thesis by auto
qed

text \<open>
  \<open>nlget\<close> cycles: starting where \<open>nlput\<close> leaves the list's cursor, as many calls of
  \<open>nlget\<close> as there are names return every name once, the newest first, and leave the
  cursor where it was.
\<close>

theorem nl_get_cycle:
  "nl_gets (nat (nl_count (nl_put x l))) (nl_put x l) = (names (nl_put x l), nl_put x l)"
proof -
  have "names (nl_put x l) \<noteq> []"
    using nl_present_put [of x l] by (auto simp: nl_present_def)
  then show ?thesis
    using nl_gets_from [of "nl_put x l" "length (names (nl_put x l))"]
    by (simp add: nl_count_def)
qed

end
