(* ===== verification/StrUtil.thy ===== *)
theory StrUtil
  imports Prelude
begin

text \<open>
  \<open>server/strutil.c\<close>: the filters for nicknames and group names, the check of
  user-supplied format strings, case conversion, word splitting and the splitting of a
  packet into its fields. (\<open>filtertext\<close> is in the theory on UTF-8.)
\<close>

unbundle bit_operations_syntax

section \<open>The code\<close>

definition is_alnum :: "char \<Rightarrow> bool" where
  "is_alnum c \<longleftrightarrow> is_upper c \<or> is_lower c \<or> is_digit c"

definition OKGROUPCHARS :: cstring where
  "OKGROUPCHARS = ''-.!'' @ [CHR 0x27] @ ''$+,/?_~''"

definition OKNICKCHARS :: cstring where
  "OKNICKCHARS = ''-.!'' @ [CHR 0x27] @ ''$+,/?_@''"

definition filter_char :: "cstring \<Rightarrow> char \<Rightarrow> char" where
  "filter_char okchars c =
     (if is_alnum c then c
      else if c \<in> set okchars then c
      else if c = CHR '' '' then CHR ''_'' else CHR ''?'')"

definition filternickname :: "cstring \<Rightarrow> cstring" where
  "filternickname txt = map (filter_char OKNICKCHARS) txt"

definition filtergroupname :: "cstring \<Rightarrow> cstring" where
  "filtergroupname txt = map (filter_char OKGROUPCHARS) txt"

text \<open>
  The loop of \<open>filterfmt\<close>: the counts of \<open>%s\<close> and of other directives. After \<open>%s\<close> and
  after a bad directive the search goes on at the character behind the percent sign.
\<close>

fun fmt_scan :: "cstring \<Rightarrow> nat \<Rightarrow> nat \<Rightarrow> nat \<times> nat" where
  "fmt_scan [] num_s num_bad = (num_s, num_bad)"
| "fmt_scan (c # cs) num_s num_bad =
     (if c \<noteq> CHR ''%'' then fmt_scan cs num_s num_bad
      else case cs of
        [] \<Rightarrow> (num_s, num_bad + 1)
      | d # ds \<Rightarrow>
          if d = CHR ''s'' then fmt_scan cs (num_s + 1) num_bad
          else if d = CHR ''%'' then fmt_scan ds num_s num_bad
          else fmt_scan cs num_s (num_bad + 1))"

definition fmt_bad :: cstring where
  "fmt_bad = ''Message can''@[CHR 0x27]@''t include %d, %f and such. Use %% to quote a single %.''"

definition fmt_one :: "int \<Rightarrow> cstring" where
  "fmt_one n = ''Message must contain (only) '' @ dec_int n @ '' %s for the username.''"

text \<open>The error string, if any, and the new value of \<open>*n\<close>.\<close>

definition filterfmt :: "cstring \<Rightarrow> int \<Rightarrow> cstring option \<times> int" where
  "filterfmt newstr n =
     (let (num_s, num_bad) = fmt_scan newstr 0 0 in
      if num_bad > 0 then (Some fmt_bad, -1)
      else if int num_s \<noteq> n then (Some (if n = 0 then fmt_bad else fmt_one n), int num_s)
      else (None, n))"

definition lcaseit :: "cstring \<Rightarrow> cstring" where
  "lcaseit s = map (\<lambda>c. if is_upper c then char_of (byte_of c OR 32) else c) s"

definition ucaseit :: "cstring \<Rightarrow> cstring" where
  "ucaseit s = map (\<lambda>c. if is_lower c then char_of (byte_of c XOR 32) else c) s"

text \<open>
  \<open>getword\<close> copies into a static buffer of 64 bytes and then stores a NUL behind the word,
  at index \<open>length (getword s)\<close>.
\<close>

abbreviation is_blank :: "char \<Rightarrow> bool" where
  "is_blank c \<equiv> c = CHR '' '' \<or> c = CHR 0x09"

definition getword :: "cstring \<Rightarrow> cstring" where
  "getword s = take 64 (takeWhile (\<lambda>c. \<not> is_blank c) s)"

definition get_tail :: "cstring \<Rightarrow> cstring" where
  "get_tail s = dropWhile is_blank (dropWhile (\<lambda>c. \<not> is_blank c) s)"

text \<open>
  \<open>split\<close>: the strings it stores in \<open>fields[0]\<close>, \<open>fields[1]\<close>, and so on, and what it
  returns. \<open>s\<close> is the packet from \<open>p\<close> on.
\<close>

definition MAX_FIELDS :: nat where
  "MAX_FIELDS = 20"

abbreviation (input) SEP :: char where
  "SEP \<equiv> CHR 0x01"

function split_loop :: "nat \<Rightarrow> cstring \<Rightarrow> cstring list \<times> nat" where
  "split_loop i s =
     (if i > MAX_FIELDS then ([s], MAX_FIELDS)
      else case dropWhile (\<lambda>c. c \<noteq> SEP) s of
        [] \<Rightarrow> ([s], i)
      | _ # p \<Rightarrow>
          (let (fs, n) = split_loop (Suc i) p in (takeWhile (\<lambda>c. c \<noteq> SEP) s # fs, n)))"
  by pat_completeness auto
termination by (relation "measure (\<lambda>(i, s). Suc MAX_FIELDS - i)") auto

definition split :: "cstring \<Rightarrow> cstring list \<times> nat" where
  "split s = split_loop 1 s"

text \<open>The global array after \<open>split\<close>: what was not written keeps its old value.\<close>

definition store_fields :: "cstring list \<Rightarrow> cstring list \<Rightarrow> cstring list" where
  "store_fields old fs = take MAX_FIELDS (fs @ drop (length fs) old)"

declare split_loop.simps [simp del]

section \<open>Filters and case\<close>

lemma filter_char_ok: "{CHR ''_'', CHR ''?''} \<subseteq> set okchars \<Longrightarrow>
  is_alnum (filter_char okchars c) \<or> filter_char okchars c \<in> set okchars"
  by (auto simp: filter_char_def)

lemma filter_char_id: "is_alnum c \<or> c \<in> set okchars \<Longrightarrow> filter_char okchars c = c"
  by (auto simp: filter_char_def)

lemma okchars [simp]:
  "{CHR ''_'', CHR ''?''} \<subseteq> set OKNICKCHARS" "{CHR ''_'', CHR ''?''} \<subseteq> set OKGROUPCHARS"
  by (simp_all add: OKNICKCHARS_def OKGROUPCHARS_def)

text \<open>The two case conversions, by bit operations, are the C library's.\<close>

lemma upper_or_32:
  assumes "is_upper c"
  shows "byte_of c OR 32 = byte_of c + 32"
proof -
  have "\<forall>n \<in> set [65..<91]. n OR 32 = n + (32 :: nat)" by code_simp
  moreover have "byte_of c \<in> set [65..<91]" using assms by (simp only: is_upper_def set_upt atLeastLessThan_iff) auto
  ultimately show ?thesis by blast
qed

lemma lower_xor_32:
  assumes "is_lower c"
  shows "byte_of c XOR 32 = byte_of c - 32"
proof -
  have "\<forall>n \<in> set [97..<123]. n XOR 32 = n - (32 :: nat)" by code_simp
  moreover have "byte_of c \<in> set [97..<123]" using assms by (simp only: is_lower_def set_upt atLeastLessThan_iff) auto
  ultimately show ?thesis by blast
qed

lemma lcaseit_map: "lcaseit s = map tolower s"
  by (auto simp: lcaseit_def tolower_def upper_or_32)

lemma ucaseit_map: "ucaseit s = map toupper s"
  by (auto simp: ucaseit_def toupper_def lower_xor_32)

lemma lcaseit_eq: "strcaseeq (lcaseit s) s"
  by (simp add: lcaseit_map strcaseeq_def)

section \<open>Format strings\<close>

text \<open>
  What \<open>printf\<close> does with a format and string arguments: \<open>None\<close> where the C library's
  behaviour is undefined (a missing argument) or where the directive would take an argument
  that is not a string.
\<close>

fun fmt_apply :: "cstring \<Rightarrow> cstring list \<Rightarrow> (cstring \<times> cstring list) option" where
  "fmt_apply [] args = Some ([], args)"
| "fmt_apply (c # cs) args =
     (if c \<noteq> CHR ''%'' then map_option (apfst (Cons c)) (fmt_apply cs args)
      else case cs of
        [] \<Rightarrow> None
      | d # ds \<Rightarrow>
          if d = CHR ''s'' then
            (case args of [] \<Rightarrow> None
             | a # as \<Rightarrow> map_option (apfst (append a)) (fmt_apply ds as))
          else if d = CHR ''%'' then map_option (apfst (Cons d)) (fmt_apply ds args)
          else None)"

lemma fmt_scan_apply:
  assumes "fmt_scan s a b = (x, y)"
  shows "a \<le> x \<and> b \<le> y \<and>
    (if y = b \<and> x \<le> a + length args then \<exists>out. fmt_apply s args = Some (out, drop (x - a) args)
     else fmt_apply s args = None)"
  using assms
proof (induction s a b arbitrary: x y args rule: fmt_scan.induct)
  case (2 c cs a b)
  show ?case
  proof (cases "c = CHR ''%''")
    case False
    with "2.IH"(1) [of x y args] "2.prems" show ?thesis by (auto split: if_splits)
  next
    case True
    show ?thesis
    proof (cases cs)
      case Nil
      with True "2.prems" show ?thesis by auto
    next
      case (Cons d ds)
      consider "d = CHR ''s''" | "d = CHR ''%''" | "d \<noteq> CHR ''s''" "d \<noteq> CHR ''%''" by blast
      then show ?thesis
      proof cases
        case 1
        have sc: "fmt_scan cs (a + 1) b = (x, y)" using 1 True Cons "2.prems" by simp
        have IH: "a + 1 \<le> x \<and> b \<le> y \<and>
          (if y = b \<and> x \<le> a + 1 + length as
           then \<exists>out. fmt_apply cs as = Some (out, drop (x - (a + 1)) as)
           else fmt_apply cs as = None)" for as
          using "2.IH"(2) [OF _ Cons 1 sc, of as] True by (auto split: if_splits)
        have cs: "fmt_apply cs as = map_option (apfst (Cons d)) (fmt_apply ds as)" for as
          using Cons 1 by simp
        show ?thesis
        proof (cases args)
          case Nil
          with IH [of "[]"] 1 True Cons show ?thesis by simp
        next
          case args: (Cons e as)
          have "x - a = Suc (x - (a + 1))" using IH [of as] by linarith
          with IH [of as] args 1 True Cons cs [of as] show ?thesis by (auto split: if_splits)
        qed
      next
        case 2
        have "fmt_scan ds a b = (x, y)" using 2 True Cons "2.prems" by simp
        with "2.IH"(3) [OF _ Cons _ 2, of x y args] 2 True Cons show ?thesis
          by (auto split: if_splits)
      next
        case 3
        have "fmt_scan cs a (b + 1) = (x, y)" using 3 True Cons "2.prems" by simp
        with "2.IH"(4) [OF _ Cons 3, of x y args] 3 True Cons show ?thesis by auto
      qed
    qed
  qed
qed auto

section \<open>Fields\<close>

fun join_fields :: "cstring list \<Rightarrow> cstring" where
  "join_fields [] = []"
| "join_fields [f] = f"
| "join_fields (f # g # fs) = f @ SEP # join_fields (g # fs)"

lemma join_fields_Cons: "fs \<noteq> [] \<Longrightarrow> join_fields (f # fs) = f @ SEP # join_fields fs"
  by (cases fs) auto

lemma split_loop_ne: "fst (split_loop i s) \<noteq> []"
  by (subst split_loop.simps) (auto split: list.split prod.split)

lemma split_loop_cases:
  obtains (stop) "MAX_FIELDS < i" "split_loop i s = ([s], MAX_FIELDS)"
  | (single) "i \<le> MAX_FIELDS" "SEP \<notin> set s" "split_loop i s = ([s], i)"
  | (more) f p where "i \<le> MAX_FIELDS" "SEP \<notin> set f" "s = f @ SEP # p"
      "split_loop i s = (f # fst (split_loop (Suc i) p), snd (split_loop (Suc i) p))"
proof (cases "MAX_FIELDS < i")
  case True
  then show thesis using stop by (simp add: split_loop.simps)
next
  case i: False
  show thesis
  proof (cases "dropWhile (\<lambda>c. c \<noteq> SEP) s")
    case Nil
    then have "SEP \<notin> set s" by (auto simp: dropWhile_eq_Nil_conv)
    moreover have "split_loop i s = ([s], i)" using i by (subst split_loop.simps) (simp add: Nil)
    ultimately show thesis using single i by simp
  next
    case (Cons x p)
    then have x: "x = SEP" using hd_dropWhile [of "\<lambda>c. c \<noteq> SEP" s] by simp
    let ?f = "takeWhile (\<lambda>c. c \<noteq> SEP) s"
    have "s = ?f @ SEP # p" using Cons x by (metis takeWhile_dropWhile_id)
    moreover have "SEP \<notin> set ?f" using set_takeWhileD by fastforce
    moreover have "split_loop i s = (?f # fst (split_loop (Suc i) p), snd (split_loop (Suc i) p))"
      using i Cons by (subst split_loop.simps) (auto split: prod.split)
    ultimately show thesis using more [of ?f p] i by simp
  qed
qed

lemma split_loop_join: "join_fields (fst (split_loop i s)) = s"
proof (induction "Suc MAX_FIELDS - i" arbitrary: i s)
  case 0
  then show ?case by (cases rule: split_loop_cases [of i s]) auto
next
  case (Suc n)
  show ?case
  proof (cases rule: split_loop_cases [of i s])
    case (more f p)
    with Suc.hyps(1) [of "Suc i" p] Suc.hyps(2) split_loop_ne [of "Suc i" p]
    show ?thesis by (simp add: join_fields_Cons)
  qed auto
qed

lemma split_loop_count:
  assumes "0 < i" and "i \<le> Suc MAX_FIELDS"
  shows "length (fst (split_loop i s)) = min (Suc (count_list s SEP)) (Suc (Suc MAX_FIELDS) - i)
     \<and> snd (split_loop i s) = min (i + count_list s SEP) MAX_FIELDS"
  using assms
proof (induction "Suc MAX_FIELDS - i" arbitrary: i s)
  case 0
  then show ?case by (cases rule: split_loop_cases [of i s]) auto
next
  case (Suc n)
  show ?case
  proof (cases rule: split_loop_cases [of i s])
    case single
    then have "count_list s SEP = 0" by (simp add: count_list_0_iff)
    with single Suc.prems show ?thesis by auto
  next
    case (more f p)
    have "count_list s SEP = Suc (count_list p SEP)"
      using more by (simp add: count_list_0_iff)
    with Suc.hyps(1) [of "Suc i" p] Suc.hyps(2) more show ?thesis by auto
  qed (use Suc.hyps(2) in auto)
qed

lemma split_loop_fields:
  assumes "fs \<noteq> []" "\<forall>f \<in> set fs. SEP \<notin> set f" "i + length fs \<le> Suc MAX_FIELDS"
  shows "split_loop i (join_fields fs) = (fs, i + length fs - 1)"
  using assms
proof (induction fs arbitrary: i rule: join_fields.induct)
  case (2 f)
  then show ?case by (cases rule: split_loop_cases [of i f]) auto
next
  case (3 f g fs)
  have tk: "takeWhile (\<lambda>c. c \<noteq> SEP) (join_fields (f # g # fs)) = f"
    and dr: "dropWhile (\<lambda>c. c \<noteq> SEP) (join_fields (f # g # fs)) = SEP # join_fields (g # fs)"
    using "3.prems"(2) by (simp_all add: takeWhile_append2 dropWhile_append2 takeWhile_append dropWhile_append)
  have "split_loop (Suc i) (join_fields (g # fs)) = (g # fs, Suc i + length (g # fs) - 1)"
    using "3.IH" [of "Suc i"] "3.prems" by simp
  with tk dr "3.prems"(3) show ?case
    by (subst split_loop.simps) simp
qed simp

section \<open>Properties\<close>

text \<open>
  Splitting undoes joining: a packet body built from at most \<open>MAX_FIELDS\<close> fields that
  do not contain the separator is split into exactly those fields, and \<open>split\<close> returns
  their number; every entry of the global array beyond them keeps its old value.
\<close>

lemma split_join:
  assumes "fs \<noteq> []" "length fs \<le> MAX_FIELDS" "\<forall>f \<in> set fs. SEP \<notin> set f"
    and "length old = MAX_FIELDS"
  shows "split (join_fields fs) = (fs, length fs)
    \<and> store_fields old (fst (split (join_fields fs))) = fs @ drop (length fs) old"
  using split_loop_fields [of fs 1] assms by (simp add: split_def store_fields_def)

lemma split_join_example:
  "split (join_fields [''m'', '''', ''bob hi'']) = ([''m'', '''', ''bob hi''], 3)"
proof -
  have "\<forall>f \<in> set [''m'', '''', ''bob hi'']. SEP \<notin> set f" by simp
  then show ?thesis
    using split_join [of "[''m'', '''', ''bob hi'']" "replicate MAX_FIELDS []"]
    by (simp add: MAX_FIELDS_def)
qed

text \<open>
  C29 (bounds of \<open>split\<close>): the stored strings joined by the separator are the packet; the
  number returned is at most \<open>MAX_FIELDS\<close>; the number of entries stored is one more than
  the number of separators but never more than \<open>MAX_FIELDS + 1\<close>, so the store goes past the
  array of \<open>MAX_FIELDS\<close> entries exactly when a packet has \<open>MAX_FIELDS\<close> separators or more.
\<close>

theorem split_bounds:
  "join_fields (fst (split s)) = s
   \<and> snd (split s) = min (Suc (count_list s SEP)) MAX_FIELDS
   \<and> length (fst (split s)) = min (Suc (count_list s SEP)) (Suc MAX_FIELDS)
   \<and> (MAX_FIELDS < length (fst (split s)) \<longleftrightarrow> MAX_FIELDS \<le> count_list s SEP)"
  using split_loop_join [of 1 s] split_loop_count [of 1 s] by (auto simp: split_def)


text \<open>
  Name filters: a filtered nickname or group name has the length of the original,
  consists of letters, digits and the allowed punctuation only (so no blank, no percent
  sign and no field separator), and filtering it again changes nothing.
\<close>

lemma name_filters:
  "length (filternickname s) = length s \<and> length (filtergroupname s) = length s
   \<and> (\<forall>c \<in> set (filternickname s). is_alnum c \<or> c \<in> set OKNICKCHARS)
   \<and> (\<forall>c \<in> set (filtergroupname s). is_alnum c \<or> c \<in> set OKGROUPCHARS)
   \<and> filternickname (filternickname s) = filternickname s
   \<and> filtergroupname (filtergroupname s) = filtergroupname s
   \<and> set (filternickname s) \<inter> {CHR '' '', CHR ''%'', SEP} = {}
   \<and> set (filtergroupname s) \<inter> {CHR '' '', CHR ''%'', SEP} = {}"
proof -
  have ok: "is_alnum (filter_char OKNICKCHARS c) \<or> filter_char OKNICKCHARS c \<in> set OKNICKCHARS"
    "is_alnum (filter_char OKGROUPCHARS c) \<or> filter_char OKGROUPCHARS c \<in> set OKGROUPCHARS" for c
    by (simp_all only: filter_char_ok okchars)
  have bad: "\<not> is_alnum c \<and> c \<notin> set OKNICKCHARS \<and> c \<notin> set OKGROUPCHARS"
    if "c \<in> {CHR '' '', CHR ''%'', SEP}" for c
    using that
    by (auto simp: is_alnum_def is_upper_def is_lower_def is_digit_def OKNICKCHARS_def OKGROUPCHARS_def)
  have id: "filter_char OKNICKCHARS (filter_char OKNICKCHARS c) = filter_char OKNICKCHARS c"
    "filter_char OKGROUPCHARS (filter_char OKGROUPCHARS c) = filter_char OKGROUPCHARS c" for c
    by (simp_all only: ok filter_char_id)
  have "set (filternickname s) \<inter> {CHR '' '', CHR ''%'', SEP} = {}"
    "set (filtergroupname s) \<inter> {CHR '' '', CHR ''%'', SEP} = {}"
    unfolding filternickname_def filtergroupname_def set_map
    by (rule equals0I, elim IntE imageE, use bad ok in metis)+
  with ok id show ?thesis
    by (simp add: filternickname_def filtergroupname_def)
qed

text \<open>Witness: the theorem at a nickname with a blank, a percent sign and a separator.\<close>

lemma name_filters_example:
  "filternickname (filternickname [CHR ''a'', CHR '' '', CHR ''%'', SEP])
     = [CHR ''a'', CHR ''_'', CHR ''?'', CHR ''?'']"
proof -
  have "filternickname [CHR ''a'', CHR '' '', CHR ''%'', SEP]
      = [CHR ''a'', CHR ''_'', CHR ''?'', CHR ''?'']" by code_simp
  with name_filters [of "[CHR ''a'', CHR '' '', CHR ''%'', SEP]"] show ?thesis by simp
qed

text \<open>Words: the first word, blanks, and the tail make up the string.\<close>

lemma getword_tail:
  obtains ws where "\<forall>c \<in> set ws. is_blank c"
    "s = takeWhile (\<lambda>c. \<not> is_blank c) s @ ws @ get_tail s"
proof -
  let ?r = "dropWhile (\<lambda>c. \<not> is_blank c) s"
  have "s = takeWhile (\<lambda>c. \<not> is_blank c) s @ takeWhile is_blank ?r @ get_tail s"
    unfolding get_tail_def by (simp only: takeWhile_dropWhile_id)
  moreover have "\<forall>c \<in> set (takeWhile is_blank ?r). is_blank c"
    using set_takeWhileD [of _ is_blank ?r] by blast
  ultimately show thesis using that by blast
qed

end
