(* ===== verification/IcbDb.thy ===== *)
theory IcbDb
  imports IcbDbm NameList StrUtil
begin

text \<open>
  \<open>server/icbdb.c\<close>: the user database. Attributes of a category (a nickname) are stored
  under the key \<open>category.attribute\<close> in lower case; lists are stored one entry per key with
  the highest index under \<open>.max\<close>. The reference-counted opening is modelled; the outcome of
  a write to disk is part of the state.
\<close>

section \<open>The code\<close>

definition DBLKSIZ :: nat where "DBLKSIZ = 4096"
definition USERDB :: cstring where "USERDB = ''./icbdb''"
definition ICBDB_MODE :: int where "ICBDB_MODE = 384"
definition ICBDB_LIST_INDEX_MAX :: int where "ICBDB_LIST_INDEX_MAX = -1"

datatype icbdb_type = ICBDB_INT | ICBDB_STRING
datatype icbdb_val = VInt int | VStr cstring

record icbdb =
  idb :: "dbm option"
  open_count :: int
  icbdb_multiuser :: bool
  idb_files :: files
  idb_write :: write_outcome

definition icbdb_open :: "icbdb \<Rightarrow> bool \<times> icbdb" where
  "icbdb_open st =
     (let st = st\<lparr>open_count := open_count st + 1\<rparr>;
          st = (if idb st = None then st\<lparr>idb := dbm_open USERDB ICBDB_MODE (idb_files st)\<rparr> else st)
      in (idb st \<noteq> None, st))"

definition icbdb_close :: "icbdb \<Rightarrow> icbdb" where
  "icbdb_close st =
     (let st = st\<lparr>open_count := open_count st - 1\<rparr> in
      if open_count st > 0 \<or> \<not> icbdb_multiuser st then st
      else st\<lparr>idb_files := dbm_close (idb_write st) (idb st) (idb_files st), idb := None\<rparr>)"

definition icbdb_set_multiuser :: "bool \<Rightarrow> icbdb \<Rightarrow> icbdb" where
  "icbdb_set_multiuser v st =
     icbdb_close (st\<lparr>icbdb_multiuser := v, open_count := open_count st + 1\<rparr>)"

text \<open>\<open>category\<close> may be \<open>NULL\<close>.\<close>

definition icbdb_make_key :: "cstring option \<Rightarrow> cstring \<Rightarrow> datum" where
  "icbdb_make_key category attribute =
     datum_of (lcaseit (snprintf DBLKSIZ
       (case category of None \<Rightarrow> attribute | Some c \<Rightarrow> c @ ''.'' @ attribute)))"

text \<open>A C string ends at its first NUL.\<close>

definition c_str :: "bytes \<Rightarrow> cstring" where
  "c_str s = takeWhile (\<lambda>c. c \<noteq> CHR 0x00) s"

definition read_val :: "icbdb_type \<Rightarrow> bytes \<Rightarrow> icbdb_val" where
  "read_val t s = (case t of ICBDB_STRING \<Rightarrow> VStr (c_str s) | ICBDB_INT \<Rightarrow> VInt (atoi (c_str s)))"

definition write_val :: "icbdb_val \<Rightarrow> bytes" where
  "write_val v = (case v of VStr s \<Rightarrow> s | VInt i \<Rightarrow> snprintf DBLKSIZ (dec_int i))"

text \<open>
  \<open>icbdb_get\<close>: \<open>None\<close> for the result 0. When the database cannot be opened the functions
  return 0 without closing, so the reference count stays raised.
\<close>

definition icbdb_get :: "cstring option \<Rightarrow> cstring \<Rightarrow> icbdb_type \<Rightarrow> icbdb \<Rightarrow> icbdb_val option \<times> icbdb" where
  "icbdb_get category attribute t st =
     (let (opened, st) = icbdb_open st in
      if \<not> opened then (None, st)
      else (map_option (read_val t) (dptr (dbm_fetch (idb st) (icbdb_make_key category attribute))),
            icbdb_close st))"

definition icbdb_set :: "cstring option \<Rightarrow> cstring \<Rightarrow> icbdb_val \<Rightarrow> icbdb \<Rightarrow> int \<times> icbdb" where
  "icbdb_set category attribute v st =
     (let (opened, st) = icbdb_open st in
      if \<not> opened then (0, st)
      else let (r, d) = dbm_store (idb st) (icbdb_make_key category attribute)
                          (datum_of (write_val v)) DBM_REPLACE
           in (r, icbdb_close (st\<lparr>idb := d\<rparr>)))"

definition icbdb_delete :: "cstring option \<Rightarrow> cstring \<Rightarrow> icbdb \<Rightarrow> int \<times> icbdb" where
  "icbdb_delete category attribute st =
     (let (opened, st) = icbdb_open st in
      if \<not> opened then (0, st)
      else let (r, d) = dbm_delete (idb st) (icbdb_make_key category attribute)
           in (r, icbdb_close (st\<lparr>idb := d\<rparr>)))"

definition list_attr :: "cstring \<Rightarrow> int \<Rightarrow> cstring" where
  "list_attr attribute index =
     snprintf DBLKSIZ (attribute @ ''.'' @
       (if index = ICBDB_LIST_INDEX_MAX then ''max'' else dec_int index))"

definition icbdb_list_get_index ::
    "cstring option \<Rightarrow> cstring \<Rightarrow> int \<Rightarrow> icbdb_type \<Rightarrow> icbdb \<Rightarrow> icbdb_val option \<times> icbdb" where
  "icbdb_list_get_index category attribute index t st =
     icbdb_get category (list_attr attribute index) t st"

definition icbdb_list_set_index ::
    "cstring option \<Rightarrow> cstring \<Rightarrow> int \<Rightarrow> icbdb_val \<Rightarrow> icbdb \<Rightarrow> int \<times> icbdb" where
  "icbdb_list_set_index category attribute index v st =
     icbdb_set category (list_attr attribute index) v st"

definition icbdb_list_delete_index ::
    "cstring option \<Rightarrow> cstring \<Rightarrow> int \<Rightarrow> icbdb \<Rightarrow> int \<times> icbdb" where
  "icbdb_list_delete_index category attribute index st =
     icbdb_delete category (list_attr attribute index) st"

definition type_of_val :: "icbdb_val \<Rightarrow> icbdb_type" where
  "type_of_val v = (case v of VInt _ \<Rightarrow> ICBDB_INT | VStr _ \<Rightarrow> ICBDB_STRING)"

text \<open>The highest index, -1 when there is no list.\<close>

definition list_max :: "cstring option \<Rightarrow> cstring \<Rightarrow> icbdb \<Rightarrow> int \<times> icbdb" where
  "list_max category attribute st =
     (let (r, st) = icbdb_list_get_index category attribute ICBDB_LIST_INDEX_MAX ICBDB_INT st
      in (case r of Some (VInt m) \<Rightarrow> m | _ \<Rightarrow> -1, st))"

text \<open>
  The loop of \<open>icbdb_list_find\<close>: found, index, \<open>*first_empty\<close>, \<open>*last_valid\<close>. An empty
  entry sets \<open>*first_empty\<close> to 0, not to its index.
\<close>

record find_result =
  fr_found :: bool
  fr_index :: int
  fr_max :: int
  fr_empty :: int
  fr_last :: int

function list_find_loop :: "cstring option \<Rightarrow> cstring \<Rightarrow> icbdb_val \<Rightarrow> find_result \<Rightarrow> icbdb
    \<Rightarrow> find_result \<times> icbdb" where
  "list_find_loop category attribute v r st =
     (if fr_index r > fr_max r then (r, st)
      else let (e, st) = icbdb_list_get_index category attribute (fr_index r) (type_of_val v) st in
        case e of
          None \<Rightarrow> list_find_loop category attribute v
                    (r\<lparr>fr_empty := (if fr_empty r = -1 then 0 else fr_empty r),
                       fr_index := fr_index r + 1\<rparr>) st
        | Some w \<Rightarrow>
            if w = v then (r\<lparr>fr_found := True\<rparr>, st)
            else list_find_loop category attribute v
                   (r\<lparr>fr_last := fr_index r, fr_index := fr_index r + 1\<rparr>) st)"
  by pat_completeness auto
termination
  by (relation "measure (\<lambda>(c, a, v, r, st). nat (fr_max r + 1 - fr_index r))") auto

declare list_find_loop.simps [simp del]

definition icbdb_list_find :: "cstring option \<Rightarrow> cstring \<Rightarrow> icbdb_val \<Rightarrow> icbdb \<Rightarrow> find_result \<times> icbdb" where
  "icbdb_list_find category attribute v st =
     (let r0 = \<lparr>fr_found = False, fr_index = -1, fr_max = -1, fr_empty = -1, fr_last = -1\<rparr>;
          (opened, st) = icbdb_open st in
      if \<not> opened then (r0, st)
      else let (m, st) = list_max category attribute st;
               (r, st) = list_find_loop category attribute v (r0\<lparr>fr_max := m, fr_index := 0\<rparr>) st;
               r = (if fr_empty r = -1 then r\<lparr>fr_empty := fr_max r + 1\<rparr> else r)
           in (r, icbdb_close st))"

definition icbdb_list_add :: "cstring option \<Rightarrow> cstring \<Rightarrow> icbdb_val \<Rightarrow> icbdb \<Rightarrow> int \<times> icbdb" where
  "icbdb_list_add category attribute v st =
     (let (opened, st) = icbdb_open st in
      if \<not> opened then (0, st)
      else let (r, st) = icbdb_list_find category attribute v st in
        if fr_found r then (1, icbdb_close st)
        else let st = snd (icbdb_list_set_index category attribute (fr_empty r) v st);
                 st = (if fr_empty r > fr_max r
                       then snd (icbdb_list_set_index category attribute ICBDB_LIST_INDEX_MAX
                                   (VInt (fr_empty r)) st)
                       else st)
             in (1, icbdb_close st))"

definition icbdb_list_delete :: "cstring option \<Rightarrow> cstring \<Rightarrow> icbdb_val \<Rightarrow> icbdb \<Rightarrow> int \<times> icbdb" where
  "icbdb_list_delete category attribute v st =
     (let (opened, st) = icbdb_open st in
      if \<not> opened then (0, st)
      else let (r, st) = icbdb_list_find category attribute v st in
        if \<not> fr_found r then (1, icbdb_close st)
        else let st = snd (icbdb_list_delete_index category attribute (fr_index r) st);
                 st = (if fr_index r = fr_max r then
                         (if fr_last r = -1
                          then snd (icbdb_list_delete_index category attribute ICBDB_LIST_INDEX_MAX st)
                          else snd (icbdb_list_set_index category attribute ICBDB_LIST_INDEX_MAX
                                      (VInt (fr_last r)) st))
                       else st)
             in (1, icbdb_close st))"

text \<open>The loops over a list, for the indices of \<open>[0..max]\<close> in order.\<close>

fun list_load_loop :: "cstring option \<Rightarrow> cstring \<Rightarrow> int list \<Rightarrow> nlist \<Rightarrow> icbdb \<Rightarrow> nlist \<times> icbdb" where
  "list_load_loop category attribute [] nl st = (nl, st)"
| "list_load_loop category attribute (i # is) nl st =
     (let (e, st) = icbdb_list_get_index category attribute i ICBDB_STRING st
      in list_load_loop category attribute is
           (case e of Some (VStr s) \<Rightarrow> nl_put s nl | _ \<Rightarrow> nl) st)"

definition icbdb_list_load :: "cstring option \<Rightarrow> cstring \<Rightarrow> nlist \<Rightarrow> icbdb \<Rightarrow> int \<times> nlist \<times> icbdb" where
  "icbdb_list_load category attribute nl st =
     (let (opened, st) = icbdb_open st in
      if \<not> opened then (0, nl, st)
      else let (m, st) = list_max category attribute st;
               (nl, st) = list_load_loop category attribute [0..m] nl st
           in (1, nl, icbdb_close st))"

fun list_save_loop :: "cstring option \<Rightarrow> cstring \<Rightarrow> nat \<Rightarrow> nlist \<Rightarrow> icbdb \<Rightarrow> nlist \<times> icbdb" where
  "list_save_loop category attribute 0 nl st = (nl, st)"
| "list_save_loop category attribute (Suc n) nl st =
     (let (s, nl) = nl_get nl;
          st = (if s \<noteq> [] then snd (icbdb_list_add category attribute (VStr s) st) else st)
      in list_save_loop category attribute n nl st)"

definition icbdb_list_save :: "cstring option \<Rightarrow> cstring \<Rightarrow> nlist \<Rightarrow> icbdb \<Rightarrow> int \<times> nlist \<times> icbdb" where
  "icbdb_list_save category attribute nl st =
     (let (opened, st) = icbdb_open st in
      if \<not> opened then (0, nl, st)
      else let (nl, st) = list_save_loop category attribute (nat (nl_count nl)) nl st
           in (1, nl, icbdb_close st))"

fun list_clear_loop :: "cstring option \<Rightarrow> cstring \<Rightarrow> int list \<Rightarrow> icbdb \<Rightarrow> icbdb" where
  "list_clear_loop category attribute [] st = st"
| "list_clear_loop category attribute (i # is) st =
     list_clear_loop category attribute is
       (snd (icbdb_list_delete_index category attribute i st))"

definition icbdb_list_clear :: "cstring option \<Rightarrow> cstring \<Rightarrow> icbdb \<Rightarrow> int \<times> icbdb" where
  "icbdb_list_clear category attribute st =
     (let (opened, st) = icbdb_open st in
      if \<not> opened then (0, st)
      else let (m, st) = list_max category attribute st;
               st = snd (icbdb_list_delete_index category attribute ICBDB_LIST_INDEX_MAX st)
           in (1, icbdb_close (list_clear_loop category attribute [0..m] st)))"

section \<open>The attributes are a map\<close>

text \<open>
  The usual state: single-user mode (nothing in the server calls
  \<open>icbdb_set_multiuser\<close>), with the database open and well-formed.
\<close>

definition ready :: "icbdb \<Rightarrow> bool" where
  "ready st \<longleftrightarrow> \<not> icbdb_multiuser st \<and> (\<exists>db. idb st = Some db \<and> dbm_ok db)"

definition key_of :: "cstring option \<Rightarrow> cstring \<Rightarrow> bytes" where
  "key_of c a = datum_bytes (icbdb_make_key c a)"

definition idb_look :: "icbdb \<Rightarrow> bytes \<Rightarrow> bytes option" where
  "idb_look st = (case idb st of None \<Rightarrow> Map.empty | Some db \<Rightarrow> kv_look db)"

lemma make_key_of: "icbdb_make_key c a = datum_of (key_of c a)"
  by (simp add: key_of_def icbdb_make_key_def)

lemma icbdb_open_ready: "ready st \<Longrightarrow> icbdb_open st = (True, st\<lparr>open_count := open_count st + 1\<rparr>)"
  by (auto simp: ready_def icbdb_open_def Let_def)

lemma icbdb_close_ready: "ready st \<Longrightarrow> icbdb_close st = st\<lparr>open_count := open_count st - 1\<rparr>"
  by (simp add: ready_def icbdb_close_def Let_def)

lemma ready_count [simp]: "ready (st\<lparr>open_count := n\<rparr>) = ready st"
  by (simp add: ready_def)

lemma ready_idb [simp]: "dbm_ok db \<Longrightarrow> ready st \<Longrightarrow> ready (st\<lparr>idb := Some db\<rparr>)"
  by (simp add: ready_def)

lemma idb_look_count [simp]: "idb_look (st\<lparr>open_count := n\<rparr>) = idb_look st"
  by (simp add: idb_look_def)

lemma icbdb_get_ready:
  assumes "ready st"
  shows "icbdb_get c a t st = (map_option (read_val t) (idb_look st (key_of c a)), st)"
proof -
  obtain db where db: "idb st = Some db" "dbm_ok db" using assms by (auto simp: ready_def)
  with assms show ?thesis
    by (simp add: icbdb_get_def icbdb_open_ready icbdb_close_ready make_key_of idb_look_def kv_look_def)
qed

lemma icbdb_set_ready:
  assumes "ready st"
  shows "\<exists>st'. icbdb_set c a v st = (0, st') \<and> ready st'
    \<and> idb_look st' = (idb_look st)(key_of c a \<mapsto> write_val v)"
proof -
  obtain db where db: "idb st = Some db" "dbm_ok db" using assms by (auto simp: ready_def)
  obtain db' where db': "dbm_store (Some db) (datum_of (key_of c a)) (datum_of (write_val v)) DBM_REPLACE
      = (0, Some db')" "dbm_ok db'" using store_result [OF db(2)] by blast
  then have p: "kv_put (key_of c a) (write_val v) db = db'" by (simp add: kv_put_def)
  have "icbdb_set c a v st = (0, st\<lparr>idb := Some db'\<rparr>)"
    using assms db db' by (simp add: icbdb_set_def icbdb_open_ready icbdb_close_ready make_key_of)
  moreover have "idb_look (st\<lparr>idb := Some db'\<rparr>) = (idb_look st)(key_of c a \<mapsto> write_val v)"
    using db.look_put [OF db(2), of "key_of c a" "write_val v"] p db(1) by (simp add: idb_look_def)
  ultimately show ?thesis using assms db'(2) by (intro exI conjI) simp_all
qed

lemma icbdb_delete_ready:
  assumes "ready st"
  shows "\<exists>st'. icbdb_delete c a st = (if idb_look st (key_of c a) = None then -1 else 0, st') \<and> ready st'
    \<and> idb_look st' = (idb_look st)(key_of c a := None)"
proof -
  obtain db where db: "idb st = Some db" "dbm_ok db" using assms by (auto simp: ready_def)
  let ?r = "if kv_look db (key_of c a) = None then -1 else 0 :: int"
  obtain db' where db': "dbm_delete (Some db) (datum_of (key_of c a)) = (?r, Some db')" "dbm_ok db'"
    using delete_result [OF db(2)] kv_look_map [OF db(2)] by metis
  then have p: "kv_del (key_of c a) db = (?r, db')" by (simp only: kv_del_def apsnd_conv option.sel)
  have "icbdb_delete c a st = (?r, st\<lparr>idb := Some db'\<rparr>)"
    using assms db db' by (simp add: icbdb_delete_def icbdb_open_ready icbdb_close_ready make_key_of)
  moreover have "idb_look (st\<lparr>idb := Some db'\<rparr>) = (idb_look st)(key_of c a := None)"
    using db.look_del [OF db(2), of "key_of c a"] p db(1) by (simp add: idb_look_def)
  ultimately show ?thesis
    using assms db'(2) db(1) by (intro exI [of _ "st\<lparr>idb := Some db'\<rparr>"]) (simp add: idb_look_def)
qed

text \<open>Values survive being written and read, strings without NUL and 32-bit integers.\<close>

definition storable :: "icbdb_val \<Rightarrow> bool" where
  "storable v = (case v of VStr s \<Rightarrow> CHR 0x00 \<notin> set s | VInt i \<Rightarrow> - (2 ^ 31) \<le> i \<and> i < 2 ^ 31)"

lemma c_str_id: "CHR 0x00 \<notin> set s \<Longrightarrow> c_str s = s"
  unfolding c_str_def by (rule takeWhile_eq_all_conv [THEN iffD2]) blast

lemma dec_int_chars: "c \<in> set (dec_int i) \<Longrightarrow> is_digit c \<or> c = CHR ''-''"
  using dec_nat_digits by (auto simp: dec_int_def split: if_splits)

lemma dec_int_no_nul: "CHR 0x00 \<notin> set (dec_int i)"
  using dec_int_chars by (fastforce simp: is_digit_def)

lemma length_dec_nat: "n < 10 ^ k \<Longrightarrow> 0 < k \<Longrightarrow> length (dec_nat n) \<le> k"
proof (induction n arbitrary: k rule: dec_nat.induct)
  case (1 n)
  show ?case
  proof (cases "n < 10")
    case True
    with 1 show ?thesis by (simp add: dec_nat.simps [of n])
  next
    case False
    with 1 obtain j where j: "k = Suc j" "0 < j"
      by (cases k; cases "k - 1") auto
    with 1 False have "length (dec_nat (n div 10)) \<le> j" by (simp add: less_mult_imp_div_less mult.commute)
    with False j show ?thesis by (simp add: dec_nat.simps [of n])
  qed
qed

lemma length_dec_int: "\<bar>i\<bar> < 10 ^ 10 \<Longrightarrow> length (dec_int i) \<le> 11"
proof -
  assume "\<bar>i\<bar> < 10 ^ 10"
  then have "\<bar>i\<bar> < 10000000000" by simp
  then have "nat (- i) < 10000000000" "nat i < 10000000000" by linarith+
  with length_dec_nat [of "nat (- i)" 10] length_dec_nat [of "nat i" 10] show ?thesis
    by (simp add: dec_int_def)
qed

lemma read_write_val: "storable v \<Longrightarrow> read_val (type_of_val v) (write_val v) = v"
proof (cases v)
  case (VInt i)
  assume "storable v"
  then have i: "- (2 ^ 31) \<le> i" "i < 2 ^ 31" by (simp_all add: VInt storable_def)
  then have "snprintf DBLKSIZ (dec_int i) = dec_int i"
    using length_dec_int [of i] by (simp add: snprintf_def DBLKSIZ_def abs_less_iff)
  with i VInt show ?thesis
    by (simp add: read_val_def write_val_def type_of_val_def c_str_id dec_int_no_nul atoi_dec_int)
next
  case (VStr s)
  assume "storable v"
  with VStr show ?thesis
    by (simp add: storable_def read_val_def write_val_def type_of_val_def c_str_id)
qed

section \<open>Lists\<close>

text \<open>
  The keys of a list are different for different indices, as long as category and attribute
  leave room for the index in the key buffer.
\<close>

definition short_names :: "cstring option \<Rightarrow> cstring \<Rightarrow> bool" where
  "short_names c a \<longleftrightarrow> (case c of None \<Rightarrow> 0 | Some c \<Rightarrow> length c + 1) + length a + 12 < DBLKSIZ"

definition list_key :: "cstring option \<Rightarrow> cstring \<Rightarrow> int \<Rightarrow> bytes" where
  "list_key c a i = key_of c (list_attr a i)"

lemma dec_int_lower: "map tolower (dec_int i) = dec_int i"
proof (rule map_idI)
  fix x assume "x \<in> set (dec_int i)"
  then have "is_digit x \<or> x = CHR ''-''" by (rule dec_int_chars)
  then show "tolower x = x" by (auto simp: tolower_def is_upper_def is_digit_def)
qed

lemma dec_int_inj: "\<bar>i\<bar> < 2 ^ 63 \<Longrightarrow> \<bar>j\<bar> < 2 ^ 63 \<Longrightarrow> dec_int i = dec_int j \<Longrightarrow> i = j"
  using strtol_dec_int by metis

lemma list_key_eq:
  assumes "short_names c a" and "i = -1 \<or> 0 \<le> i \<and> i < 2 ^ 31"
  shows "list_key c a i = map tolower ((case c of None \<Rightarrow> [] | Some c \<Rightarrow> c @ ''.'') @ a @ ''.'')
    @ (if i = -1 then ''max'' else dec_int i)"
proof -
  let ?x = "if i = -1 then ''max'' else dec_int i"
  have "length ?x \<le> 11" using assms(2) length_dec_int [of i] by auto
  moreover have "map tolower ?x = ?x"
    by (simp add: dec_int_lower) (code_simp)
  ultimately show ?thesis
    using assms(1) unfolding short_names_def
    by (cases c) (simp_all add: list_key_def key_of_def icbdb_make_key_def list_attr_def lcaseit_map
        snprintf_def DBLKSIZ_def ICBDB_LIST_INDEX_MAX_def)
qed

lemma list_key_inj:
  assumes "short_names c a" and i: "i = -1 \<or> 0 \<le> i \<and> i < 2 ^ 31" and j: "j = -1 \<or> 0 \<le> j \<and> j < 2 ^ 31"
  shows "list_key c a i = list_key c a j \<longleftrightarrow> i = j"
proof -
  have "CHR ''m'' \<notin> set (dec_int k)" for k
    using dec_int_chars [of "CHR ''m''" k] by (auto simp: is_digit_def)
  then have "dec_int k \<noteq> ''max''" "''max'' \<noteq> dec_int k" for k
    by (metis list.set_intros(1))+
  then show ?thesis
    using i j dec_int_inj [of i j] unfolding list_key_eq [OF assms(1) i] list_key_eq [OF assms(1) j]
    by (auto split: if_splits)
qed

text \<open>The list stored under a category and attribute has no holes and holds \<open>vs\<close>.\<close>

definition list_is :: "cstring option \<Rightarrow> cstring \<Rightarrow> icbdb_val list \<Rightarrow> icbdb \<Rightarrow> bool" where
  "list_is c a vs st \<longleftrightarrow> ready st
     \<and> idb_look st (list_key c a (-1)) = (if vs = [] then None else Some (dec_int (int (length vs) - 1)))
     \<and> (\<forall>i < length vs. idb_look st (list_key c a (int i)) = Some (write_val (vs ! i)))"

lemma list_max_ready:
  assumes "list_is c a vs st" and "int (length vs) < 2 ^ 31"
  shows "list_max c a st = (int (length vs) - 1, st)"
proof -
  have "atoi (c_str (dec_int (int (length vs) - 1))) = int (length vs) - 1"
    using assms(2) by (simp add: c_str_id dec_int_no_nul atoi_dec_int)
  with assms show ?thesis
    unfolding list_max_def icbdb_list_get_index_def
    by (simp add: icbdb_get_ready list_is_def list_key_def [symmetric] ICBDB_LIST_INDEX_MAX_def read_val_def)
qed

lemma list_get_ready:
  assumes "list_is c a vs st" and "i < length vs" and "storable (vs ! i)"
  shows "icbdb_list_get_index c a (int i) (type_of_val (vs ! i)) st = (Some (vs ! i), st)"
  using assms read_write_val
  by (simp add: icbdb_list_get_index_def icbdb_get_ready list_is_def list_key_def [symmetric])

text \<open>All values of one type, and each of them survives the round trip.\<close>

definition uniform :: "icbdb_type \<Rightarrow> icbdb_val list \<Rightarrow> bool" where
  "uniform t vs \<longleftrightarrow> (\<forall>v \<in> set vs. storable v \<and> type_of_val v = t)"

lemma list_find_loop_gapless:
  assumes L: "list_is c a vs st" and u: "uniform (type_of_val v) vs"
    and "fr_max r = int (length vs) - 1" "fr_index r = int k" "k \<le> length vs"
    and "\<not> fr_found r" "fr_empty r = -1"
  shows "\<exists>r'. list_find_loop c a v r st = (r', st) \<and> fr_max r' = fr_max r \<and> fr_empty r' = -1
    \<and> (fr_found r' \<longleftrightarrow> v \<in> set (drop k vs))"
  using assms(3-)
proof (induction "length vs - k" arbitrary: k r)
  case 0
  then show ?case by (intro exI [of _ r]) (simp add: list_find_loop.simps)
next
  case (Suc n)
  then have k: "k < length vs" by simp
  then have d: "drop k vs = vs ! k # drop (Suc k) vs" by (simp add: Cons_nth_drop_Suc)
  have tv: "type_of_val (vs ! k) = type_of_val v" "storable (vs ! k)"
    using u k by (auto simp: uniform_def)
  have get: "icbdb_list_get_index c a (fr_index r) (type_of_val v) st = (Some (vs ! k), st)"
    using list_get_ready [OF L k tv(2)] tv(1) Suc.prems by simp
  have in_range: "\<not> fr_index r > fr_max r" using Suc.prems k by simp
  show ?case
  proof (cases "vs ! k = v")
    case True
    with get in_range Suc.prems d show ?thesis
      by (intro exI [of _ "r\<lparr>fr_found := True\<rparr>"]) (simp add: list_find_loop.simps [of c a v r])
  next
    case False
    let ?r = "r\<lparr>fr_last := fr_index r, fr_index := fr_index r + 1\<rparr>"
    have "list_find_loop c a v r st = list_find_loop c a v ?r st"
      using get in_range False by (simp add: list_find_loop.simps [of c a v r])
    with Suc.hyps(1) [of "Suc k" ?r] Suc.hyps(2) Suc.prems k False d show ?thesis by auto
  qed
qed

lemma list_find_gapless:
  assumes L: "list_is c a vs st" and u: "uniform (type_of_val v) vs" and n: "int (length vs) < 2 ^ 31"
  shows "\<exists>r. icbdb_list_find c a v st = (r, st) \<and> fr_max r = int (length vs) - 1
    \<and> (fr_found r \<longleftrightarrow> v \<in> set vs) \<and> fr_empty r = int (length vs)"
proof -
  let ?st = "st\<lparr>open_count := open_count st + 1\<rparr>"
  let ?r = "\<lparr>fr_found = False, fr_index = 0, fr_max = int (length vs) - 1, fr_empty = -1, fr_last = -1\<rparr>"
  have R: "ready st" using L by (simp add: list_is_def)
  have L': "list_is c a vs ?st" using L by (simp add: list_is_def)
  obtain r where r: "list_find_loop c a v ?r ?st = (r, ?st)" "fr_max r = int (length vs) - 1"
    "fr_empty r = -1" "fr_found r \<longleftrightarrow> v \<in> set vs"
    using list_find_loop_gapless [OF L' u, of ?r 0] by auto
  have "icbdb_list_find c a v st = (r\<lparr>fr_empty := fr_max r + 1\<rparr>, st)"
    using r R list_max_ready [OF L' n]
    by (simp add: icbdb_list_find_def icbdb_open_ready icbdb_close_ready Let_def)
  with r show ?thesis by (intro exI [of _ "r\<lparr>fr_empty := fr_max r + 1\<rparr>"]) simp
qed

lemma list_set_ready:
  assumes "ready st"
  obtains st' where "icbdb_list_set_index c a i v st = (0, st')" "ready st'"
    "idb_look st' = (idb_look st)(list_key c a i \<mapsto> write_val v)"
  using icbdb_set_ready [OF assms, of c "list_attr a i" v]
  unfolding icbdb_list_set_index_def list_key_def by blast

lemma list_delete_ready:
  assumes "ready st"
  obtains x st' where "icbdb_list_delete_index c a i st = (x, st')" "ready st'"
    "idb_look st' = (idb_look st)(list_key c a i := None)"
  using icbdb_delete_ready [OF assms, of c "list_attr a i"]
  unfolding icbdb_list_delete_index_def list_key_def by blast

lemma write_val_int: "\<bar>i\<bar> < 10 ^ 10 \<Longrightarrow> write_val (VInt i) = dec_int i"
  using length_dec_int [of i] by (simp add: write_val_def snprintf_def DBLKSIZ_def)

lemma list_add_gapless:
  assumes L: "list_is c a vs st" and u: "uniform (type_of_val v) vs" and sh: "short_names c a"
    and n: "int (length vs) + 1 < 2 ^ 31"
  shows "\<exists>st'. icbdb_list_add c a v st = (1, st')
    \<and> list_is c a (if v \<in> set vs then vs else vs @ [v]) st'
    \<and> (\<forall>k. (\<forall>i. k \<noteq> list_key c a i) \<longrightarrow> idb_look st' k = idb_look st k)"
proof -
  let ?st = "st\<lparr>open_count := open_count st + 1\<rparr>"
  have R: "ready st" using L by (simp add: list_is_def)
  have L': "list_is c a vs ?st" using L by (simp add: list_is_def)
  have n': "int (length vs) < 2 ^ 31" using n by linarith
  obtain r where r: "icbdb_list_find c a v ?st = (r, ?st)" "fr_max r = int (length vs) - 1"
    "fr_found r \<longleftrightarrow> v \<in> set vs" "fr_empty r = int (length vs)"
    using list_find_gapless [OF L' u n'] by blast
  show ?thesis
  proof (cases "v \<in> set vs")
    case True
    with r R L show ?thesis
      by (intro exI [of _ st]) (simp add: icbdb_list_add_def icbdb_open_ready icbdb_close_ready Let_def)
  next
    case False
    let ?n = "int (length vs)"
    obtain s1 where s1: "icbdb_list_set_index c a ?n v ?st = (0, s1)" "ready s1"
      "idb_look s1 = (idb_look st)(list_key c a ?n \<mapsto> write_val v)"
      using list_set_ready [of ?st c a ?n v] R by (metis idb_look_count ready_count)
    obtain s2 where s2: "icbdb_list_set_index c a (-1) (VInt ?n) s1 = (0, s2)" "ready s2"
      "idb_look s2 = (idb_look s1)(list_key c a (-1) \<mapsto> write_val (VInt ?n))"
      using list_set_ready [OF s1(2)] by blast
    have "icbdb_list_add c a v st = (1, s2\<lparr>open_count := open_count s2 - 1\<rparr>)"
      using r False R s1(1) s2(1,2)
      by (simp add: icbdb_list_add_def icbdb_open_ready icbdb_close_ready Let_def ICBDB_LIST_INDEX_MAX_def)
    moreover have "list_is c a (vs @ [v]) (s2\<lparr>open_count := open_count s2 - 1\<rparr>)"
    proof -
      have "\<bar>?n\<bar> < 10 ^ 10" using n by simp
      then have w: "write_val (VInt ?n) = dec_int ?n" by (rule write_val_int)
      have inj: "list_key c a (int i) \<noteq> list_key c a (-1)" if "i \<le> length vs" for i
        using list_key_inj [OF sh, of "int i" "-1"] that n by simp
      have inj': "list_key c a (int i) = list_key c a ?n \<longleftrightarrow> i = length vs" if "i \<le> length vs" for i
        using list_key_inj [OF sh, of "int i" ?n] that n by simp
      show ?thesis
        using L s2(2,3) s1(3) w inj inj' by (auto simp: list_is_def nth_append less_Suc_eq)
    qed
    ultimately show ?thesis using False s1(3) s2(3) by (intro exI conjI) auto
  qed
qed

text \<open>The search in a list that may have holes, when the value is not there.\<close>

lemma list_find_loop_absent:
  assumes get: "\<And>i. icbdb_list_get_index c a i (type_of_val v) st = (f i, st)"
    and no: "\<And>i. f i \<noteq> Some v"
  shows "\<exists>r'. list_find_loop c a v r st = (r', st) \<and> fr_found r' = fr_found r \<and> fr_max r' = fr_max r
    \<and> fr_empty r' = (if fr_empty r = -1 \<and> (\<exists>j. fr_index r \<le> j \<and> j \<le> fr_max r \<and> f j = None)
                     then 0 else fr_empty r)"
proof (induction "nat (fr_max r + 1 - fr_index r)" arbitrary: r)
  case 0
  then show ?case by (intro exI [of _ r]) (auto simp: list_find_loop.simps [of c a v r])
next
  case (Suc n)
  have in_range: "\<not> fr_index r > fr_max r" using Suc.hyps(2) by linarith
  have ix: "(\<exists>j. fr_index r \<le> j \<and> j \<le> fr_max r \<and> f j = None)
      \<longleftrightarrow> f (fr_index r) = None \<or> (\<exists>j. fr_index r + 1 \<le> j \<and> j \<le> fr_max r \<and> f j = None)"
    using in_range by (metis add1_zle_eq linorder_not_less order_le_less order_refl zle_add1_eq_le)
  show ?case
  proof (cases "f (fr_index r)")
    case None
    let ?r = "r\<lparr>fr_empty := (if fr_empty r = -1 then 0 else fr_empty r), fr_index := fr_index r + 1\<rparr>"
    have "list_find_loop c a v r st = list_find_loop c a v ?r st"
      using get in_range None by (simp add: list_find_loop.simps [of c a v r])
    moreover have "n = nat (fr_max ?r + 1 - fr_index ?r)" using Suc.hyps(2) by simp
    ultimately show ?thesis using Suc.hyps(1) [of ?r] None ix by auto
  next
    case (Some w)
    let ?r = "r\<lparr>fr_last := fr_index r, fr_index := fr_index r + 1\<rparr>"
    have "list_find_loop c a v r st = list_find_loop c a v ?r st"
      using get in_range Some no [of "fr_index r"] by (simp add: list_find_loop.simps [of c a v r])
    moreover have "n = nat (fr_max ?r + 1 - fr_index ?r)" using Suc.hyps(2) by simp
    ultimately show ?thesis using Suc.hyps(1) [of ?r] Some ix by auto
  qed
qed

text \<open>The entry at an index, read at the type of \<open>v\<close>.\<close>

definition entry_at :: "cstring option \<Rightarrow> cstring \<Rightarrow> icbdb_type \<Rightarrow> icbdb \<Rightarrow> int \<Rightarrow> icbdb_val option" where
  "entry_at c a t st i = map_option (read_val t) (idb_look st (list_key c a i))"

lemma list_get_entry: "ready st \<Longrightarrow> icbdb_list_get_index c a i t st = (entry_at c a t st i, st)"
  by (simp add: icbdb_list_get_index_def icbdb_get_ready entry_at_def list_key_def)

lemma entry_at_count [simp]: "entry_at c a t (st\<lparr>open_count := n\<rparr>) = entry_at c a t st"
  by (rule ext) (simp add: entry_at_def)

lemma list_find_hole:
  assumes R: "ready st" and m: "entry_at c a ICBDB_INT st (-1) = Some (VInt m)"
    and no: "\<forall>i. entry_at c a (type_of_val v) st i \<noteq> Some v"
    and hole: "0 \<le> j" "j \<le> m" "entry_at c a (type_of_val v) st j = None"
  shows "\<exists>r. icbdb_list_find c a v st = (r, st) \<and> \<not> fr_found r \<and> fr_max r = m \<and> fr_empty r = 0"
proof -
  let ?st = "st\<lparr>open_count := open_count st + 1\<rparr>"
  let ?r = "\<lparr>fr_found = False, fr_index = 0, fr_max = m, fr_empty = -1, fr_last = -1\<rparr>"
  have R': "ready ?st" using R by simp
  have mx: "list_max c a ?st = (m, ?st)"
    using m R' by (simp add: list_max_def list_get_entry ICBDB_LIST_INDEX_MAX_def)
  have "icbdb_list_get_index c a i (type_of_val v) ?st = (entry_at c a (type_of_val v) st i, ?st)" for i
    using list_get_entry [OF R'] by simp
  from list_find_loop_absent [OF this, of ?r] no obtain r where
    r: "list_find_loop c a v ?r ?st = (r, ?st)" "\<not> fr_found r" "fr_max r = m"
    "fr_empty r = (if \<exists>j. 0 \<le> j \<and> j \<le> m \<and> entry_at c a (type_of_val v) st j = None then 0 else -1)"
    by (auto cong: if_cong)
  have "fr_empty r = 0" using r(4) hole by auto
  with R mx r(1-3) show ?thesis
    by (intro exI [of _ r]) (simp add: icbdb_list_find_def icbdb_open_ready icbdb_close_ready Let_def)
qed

section \<open>Properties\<close>


text \<open>The database as the server opens it for the first time.\<close>

definition first_open :: icbdb where
  "first_open = snd (icbdb_open \<lparr>idb = None, open_count = 0, icbdb_multiuser = False,
     idb_files = (\<lambda>_. Absent), idb_write = Written\<rparr>)"

lemma ready_first_open: "ready first_open" "idb_look first_open = Map.empty"
proof -
  obtain db where db: "dbm_open USERDB ICBDB_MODE (\<lambda>_. Absent) = Some db" "dbm_ok db" "dbm_map db = Map.empty"
    by (simp add: dbm_open_def load_file_def dbm_open_fresh)
       (simp add: dbm_map_def ICB_DBM_INIT_BUCKETS_def)
  then show "ready first_open" "idb_look first_open = Map.empty"
    by (simp_all add: first_open_def icbdb_open_def Let_def ready_def idb_look_def kv_look_map)
qed


text \<open>
  Adding to a stored list without holes: the value is appended at the end and the stored
  maximum follows, or, if it is already there, nothing changes; no key outside the list is
  touched.
\<close>

lemma icbdb_list_add_append:
  assumes "list_is c a vs st" and "uniform (type_of_val v) vs" and "short_names c a"
    and "int (length vs) + 1 < 2 ^ 31"
  shows "\<exists>st'. icbdb_list_add c a v st = (1, st')
    \<and> list_is c a (if v \<in> set vs then vs else vs @ [v]) st'
    \<and> (\<forall>k. (\<forall>i. k \<noteq> list_key c a i) \<longrightarrow> idb_look st' k = idb_look st k)"
  by (rule list_add_gapless [OF assms])

lemma icbdb_list_add_append_example:
  "\<exists>st'. icbdb_list_add None ''hush'' (VStr ''bob'') first_open = (1, st')
     \<and> list_is None ''hush'' [VStr ''bob''] st'"
proof -
  have "list_is None ''hush'' [] first_open" using ready_first_open by (simp add: list_is_def)
  from icbdb_list_add_append [OF this, of "VStr ''bob''"] show ?thesis
    by (auto simp: uniform_def short_names_def DBLKSIZ_def)
qed

text \<open>
  Adding to a stored list with a hole: \<open>icbdb_list_find\<close> reports index 0 as the first
  empty one whichever entry is empty, so adding a value that is not in the list overwrites
  entry 0 and leaves every other entry and the maximum alone.
\<close>

lemma icbdb_list_add_hole:
  assumes R: "ready st" and m: "entry_at c a ICBDB_INT st (-1) = Some (VInt m)" "m < 2 ^ 31"
    and no: "\<forall>i. entry_at c a (type_of_val v) st i \<noteq> Some v" and v: "storable v"
    and hole: "0 \<le> j" "j \<le> m" "entry_at c a (type_of_val v) st j = None" and sh: "short_names c a"
  shows "\<exists>st'. icbdb_list_add c a v st = (1, st') \<and> entry_at c a (type_of_val v) st' 0 = Some v
    \<and> (\<forall>i t. i = -1 \<or> 0 < i \<and> i \<le> m \<longrightarrow> entry_at c a t st' i = entry_at c a t st i)"
proof -
  let ?st = "st\<lparr>open_count := open_count st + 1\<rparr>"
  have R': "ready ?st" using R by simp
  obtain r where r: "icbdb_list_find c a v ?st = (r, ?st)" "\<not> fr_found r" "fr_max r = m" "fr_empty r = 0"
    using list_find_hole [OF R', of c a m v j] m no hole by auto
  obtain s1 where s1: "icbdb_list_set_index c a 0 v ?st = (0, s1)" "ready s1"
    "idb_look s1 = (idb_look st)(list_key c a 0 \<mapsto> write_val v)"
    using list_set_ready [OF R', of c a 0 v] by (metis idb_look_count)
  have "icbdb_list_add c a v st = (1, s1\<lparr>open_count := open_count s1 - 1\<rparr>)"
    using r R s1(1,2) hole
    by (simp add: icbdb_list_add_def icbdb_open_ready icbdb_close_ready Let_def)
  moreover have "list_key c a i \<noteq> list_key c a 0" if "i = -1 \<or> 0 < i \<and> i \<le> m" for i
    using list_key_inj [OF sh, of i 0] that m(2) by auto
  then have "entry_at c a t s1 i = entry_at c a t st i" if "i = -1 \<or> 0 < i \<and> i \<le> m" for i t
    using that s1(3) by (simp add: entry_at_def)
  moreover have "entry_at c a (type_of_val v) s1 0 = Some v"
    using s1(3) read_write_val [OF v] by (simp add: entry_at_def)
  ultimately show ?thesis by (intro exI [of _ "s1\<lparr>open_count := open_count s1 - 1\<rparr>"]) simp
qed

text \<open>Witness: the list \<open>u\<close> at index 0, nothing at index 1; adding \<open>w\<close> loses \<open>u\<close>.\<close>

lemma icbdb_list_add_hole_example:
  "\<exists>st st'. entry_at None ''l'' ICBDB_STRING st 0 = Some (VStr ''u'')
     \<and> icbdb_list_add None ''l'' (VStr ''w'') st = (1, st')
     \<and> entry_at None ''l'' ICBDB_STRING st' 0 = Some (VStr ''w'')
     \<and> entry_at None ''l'' ICBDB_STRING st' 1 = None"
proof -
  have sh: "short_names None ''l''" by (simp add: short_names_def DBLKSIZ_def)
  let ?k = "list_key None ''l''"
  obtain s1 where s1: "ready s1" "idb_look s1 = [?k 0 \<mapsto> ''u'']"
    using list_set_ready [OF ready_first_open(1), of None "''l''" 0 "VStr ''u''"] ready_first_open(2)
    by (auto simp: write_val_def)
  obtain st where st: "ready st" "idb_look st = [?k 0 \<mapsto> ''u'', ?k (-1) \<mapsto> ''1'']"
    using list_set_ready [OF s1(1), of None "''l''" "-1" "VStr ''1''"] s1(2)
    by (auto simp: write_val_def)
  have inj: "?k 0 \<noteq> ?k (-1)" "?k 1 \<noteq> ?k 0" "?k 1 \<noteq> ?k (-1)"
    using list_key_inj [OF sh] by simp_all
  have "atoi ''1'' = 1" by code_simp
  then have m: "entry_at None ''l'' ICBDB_INT st (-1) = Some (VInt 1)"
    using st(2) by (simp add: entry_at_def read_val_def c_str_def)
  have u: "entry_at None ''l'' ICBDB_STRING st 0 = Some (VStr ''u'')"
    using st(2) inj by (simp add: entry_at_def read_val_def c_str_def)
  have hole: "entry_at None ''l'' ICBDB_STRING st 1 = None"
    using st(2) inj by (simp add: entry_at_def)
  have no: "\<forall>i. entry_at None ''l'' ICBDB_STRING st i \<noteq> Some (VStr ''w'')"
    using st(2) by (auto simp: entry_at_def read_val_def c_str_def)
  from icbdb_list_add_hole [OF st(1) m, of "VStr ''w''" 1] no hole sh u obtain st' where
    "icbdb_list_add None ''l'' (VStr ''w'') st = (1, st')"
    "entry_at None ''l'' ICBDB_STRING st' 0 = Some (VStr ''w'')"
    "\<forall>i t. i = -1 \<or> 0 < i \<and> i \<le> 1 \<longrightarrow> entry_at None ''l'' t st' i = entry_at None ''l'' t st i"
    by (auto simp: type_of_val_def storable_def)
  with u hole show ?thesis by (intro exI [of _ st] exI [of _ st']) simp
qed

end
