(* ===== verification/Tables.thy ===== *)
theory Tables
  imports IcbDb
begin

text \<open>
  The state of the server and its tables: \<open>server/server.h\<close>, \<open>server/globals.c\<close>,
  \<open>server/groups.c\<close>, \<open>server/users.c\<close>, \<open>server/lookup.c\<close> and the part of
  \<open>server/access.c\<close> the tables call. The tables are lists; \<open>MAX_USERS\<close> and \<open>MAX_GROUPS\<close>
  are their lengths, so that the last user slot is the server itself (\<open>NICKSERV\<close>).

  Two ghost flags record what C leaves undefined: \<open>fault\<close> is set by an access outside a
  table and by a copy into a buffer that is too small, \<open>overread\<close> by reading a text buffer
  that has no terminating NUL. Packets are sent by appending to \<open>out\<close>; a call of
  \<open>pktserv_disconnect\<close> is appended to \<open>dropped\<close> with the number of packets sent before it.
\<close>

section \<open>Constants\<close>

abbreviation (input) MAX_PKT_LEN :: nat where "MAX_PKT_LEN \<equiv> 256"
abbreviation (input) MAX_PKT_DATA :: nat where "MAX_PKT_DATA \<equiv> 254"
abbreviation (input) MAX_GROUPLEN :: nat where "MAX_GROUPLEN \<equiv> 8"
abbreviation (input) MAX_IDLEN :: nat where "MAX_IDLEN \<equiv> 12"
abbreviation (input) MAX_NICKLEN :: nat where "MAX_NICKLEN \<equiv> 12"
abbreviation (input) MAX_NODELEN :: nat where "MAX_NODELEN \<equiv> 64"
abbreviation (input) MAX_PASSWDLEN :: nat where "MAX_PASSWDLEN \<equiv> 12"
abbreviation (input) MAX_TOPICLEN :: nat where "MAX_TOPICLEN \<equiv> 32"
abbreviation (input) MAX_AWAY_LEN :: nat where "MAX_AWAY_LEN \<equiv> 203"
abbreviation (input) MAX_INVITES :: int where "MAX_INVITES \<equiv> 50"
abbreviation (input) MAX_HUSHED :: int where "MAX_HUSHED \<equiv> 32"
abbreviation (input) IDLEBOOT_MSG_LEN :: nat where "IDLEBOOT_MSG_LEN \<equiv> 54"
abbreviation (input) DEF_IDLE_BOOT :: int where "DEF_IDLE_BOOT \<equiv> 3600"
abbreviation (input) DEF_IDLE_MOD :: int where "DEF_IDLE_MOD \<equiv> 3600"
abbreviation (input) MAX_IDLE_MOD :: int where "MAX_IDLE_MOD \<equiv> 14400"

abbreviation (input) LOGIN_FALSE :: int where "LOGIN_FALSE \<equiv> 0"
abbreviation (input) LOGIN_PENDING :: int where "LOGIN_PENDING \<equiv> 1"
abbreviation (input) LOGIN_COMPLETE :: int where "LOGIN_COMPLETE \<equiv> 2"

abbreviation (input) VISIBLE :: int where "VISIBLE \<equiv> 1"
abbreviation (input) SECRET :: int where "SECRET \<equiv> 2"
abbreviation (input) SUPERSECRET :: int where "SUPERSECRET \<equiv> 3"
abbreviation (input) PUBLIC :: int where "PUBLIC \<equiv> 1"
abbreviation (input) MODERATED :: int where "MODERATED \<equiv> 2"
abbreviation (input) RESTRICTED :: int where "RESTRICTED \<equiv> 3"
abbreviation (input) CONTROLLED :: int where "CONTROLLED \<equiv> 4"
abbreviation (input) QUIET :: int where "QUIET \<equiv> 1"
abbreviation (input) NORMAL :: int where "NORMAL \<equiv> 2"
abbreviation (input) LOUD :: int where "LOUD \<equiv> 3"

definition IDLE_GROUP :: cstring where "IDLE_GROUP = ''~IDLE~''"
definition BOOT_GROUP :: cstring where "BOOT_GROUP = ''~RESEDA~''"

section \<open>The state\<close>

record user_item =
  u_loginid :: cstring
  u_nodeid :: cstring
  u_nickname :: cstring
  u_password :: cstring
  u_realname :: cstring
  u_group :: cstring
  u_awaymsg :: cstring
  u_lastaway :: int
  u_lastawaytime :: int
  u_login :: int
  u_echoback :: int
  u_nobeep :: int
  u_perms :: int
  u_t_notify :: int
  u_t_on :: int
  u_t_sent :: int
  u_t_recv :: int
  u_t_group :: int
  u_secure :: int
  pri_n_hushed :: nlist
  pub_n_hushed :: nlist
  pri_s_hushed :: nlist
  pub_s_hushed :: nlist
  n_notifies :: nlist
  s_notifies :: nlist

record group_item =
  g_name :: cstring
  g_topic :: cstring
  g_visibility :: int
  g_control :: int
  g_volume :: int
  g_mod :: int
  g_missingmod :: cstring
  g_modtimeout :: int
  n_invites :: nlist
  nr_invites :: nlist
  s_invites :: nlist
  sr_invites :: nlist
  n_bars :: nlist
  n_nr_bars :: nlist
  s_bars :: nlist
  s_nr_bars :: nlist
  n_talk :: nlist
  nr_talk :: nlist
  g_size :: int
  g_idleboot :: int
  g_idleboot_msg :: cstring
  g_idlemod :: int

record server_stats =
  st_start_time :: int
  st_signons :: int
  st_boots :: int
  st_idleboots :: int
  st_idlemods :: int
  st_drops :: int

text \<open>
  What the program gets from outside is in the state too: the clock, the formatting of a
  time, the name of the host, the configured password of the administrator, the peer of a
  connection, and what \<open>pktserv_send\<close> returns for it. Of the rest, \<open>env\<close> has the contents of
  the files the server reads (\<open>None\<close> if they cannot be opened), the hour and minute of a time,
  its text by \<open>ctime\<close>, the time of day in microseconds, the IPv4 address of a peer
  (\<open>None\<close> if \<open>getpeername\<close> fails, \<open>Some None\<close> for a peer without one), the value of
  \<open>inet_addr\<close>, the numeric name of a peer, and whether the program can be executed again for a
  restart, and the text of the last system error.
\<close>

record env =
  read_file :: "cstring \<Rightarrow> string option"
  local_hm :: "int \<Rightarrow> int \<times> int"
  ctime_text :: "int \<Rightarrow> cstring"
  tod :: int
  peer_v4 :: "int \<Rightarrow> nat option option"
  inet_addr :: "cstring \<Rightarrow> nat"
  numeric_host :: "int \<Rightarrow> cstring option"
  exec_ok :: bool
  errno_text :: cstring

record srv =
  u_tab :: "user_item list"
  g_tab :: "group_item list"
  S_kill :: "int list"
  lpriv_id :: "int list"
  pong_req :: "int list"
  ping_time :: "int list"
  pfields :: "cstring list"
  is_booting :: bool
  stats :: server_stats
  userdb :: icbdb
  now :: int
  timefmt :: "int \<Rightarrow> cstring"
  thishost :: cstring
  admin_pwd :: cstring
  remotename :: "int \<Rightarrow> cstring option"
  send_result :: "int \<Rightarrow> int"
  out :: "(int \<times> cstring) list"
  dropped :: "(nat \<times> int) list"
  fault :: bool
  overread :: bool
  TimeToDie :: int
  ShutdownNotify :: int
  log_level :: int
  u_recv_count :: "int list"
  halted :: bool
  world :: env

abbreviation (input) MAX_USERS :: "srv \<Rightarrow> int" where "MAX_USERS st \<equiv> int (length (u_tab st))"
abbreviation (input) MAX_REAL_USERS :: "srv \<Rightarrow> int" where "MAX_REAL_USERS st \<equiv> MAX_USERS st - 1"
abbreviation (input) NICKSERV :: "srv \<Rightarrow> int" where "NICKSERV st \<equiv> MAX_USERS st - 1"
abbreviation (input) MAX_GROUPS :: "srv \<Rightarrow> int" where "MAX_GROUPS st \<equiv> int (length (g_tab st))"

section \<open>Table access\<close>

definition blank_user :: user_item where
  "blank_user = \<lparr>u_loginid = [], u_nodeid = [], u_nickname = [], u_password = [], u_realname = [],
     u_group = [], u_awaymsg = [], u_lastaway = 0, u_lastawaytime = 0, u_login = LOGIN_FALSE,
     u_echoback = 0, u_nobeep = 0, u_perms = 0, u_t_notify = 0, u_t_on = 0, u_t_sent = 0,
     u_t_recv = 0, u_t_group = 0, u_secure = 0,
     pri_n_hushed = nl_init MAX_HUSHED, pub_n_hushed = nl_init MAX_HUSHED,
     pri_s_hushed = nl_init MAX_HUSHED, pub_s_hushed = nl_init MAX_HUSHED,
     n_notifies = nl_init MAX_HUSHED, s_notifies = nl_init MAX_HUSHED\<rparr>"

definition blank_group :: group_item where
  "blank_group = \<lparr>g_name = [], g_topic = [], g_visibility = VISIBLE, g_control = PUBLIC,
     g_volume = LOUD, g_mod = -1, g_missingmod = [], g_modtimeout = 0,
     n_invites = nl_init MAX_INVITES, nr_invites = nl_init MAX_INVITES,
     s_invites = nl_init MAX_INVITES, sr_invites = nl_init MAX_INVITES,
     n_bars = nl_init MAX_INVITES, n_nr_bars = nl_init MAX_INVITES,
     s_bars = nl_init MAX_INVITES, s_nr_bars = nl_init MAX_INVITES,
     n_talk = nl_init MAX_INVITES, nr_talk = nl_init MAX_INVITES,
     g_size = 0, g_idleboot = DEF_IDLE_BOOT, g_idleboot_msg = [], g_idlemod = DEF_IDLE_MOD\<rparr>"

text \<open>Reading and writing an entry; what is out of range reads as a blank entry.\<close>

definition in_tab :: "int \<Rightarrow> 'a list \<Rightarrow> bool" where
  "in_tab i t \<longleftrightarrow> 0 \<le> i \<and> i < int (length t)"

definition usr :: "srv \<Rightarrow> int \<Rightarrow> user_item" where
  "usr st i = (if in_tab i (u_tab st) then u_tab st ! nat i else blank_user)"

definition grp :: "srv \<Rightarrow> int \<Rightarrow> group_item" where
  "grp st i = (if in_tab i (g_tab st) then g_tab st ! nat i else blank_group)"

definition flag_fault :: "bool \<Rightarrow> srv \<Rightarrow> srv" where
  "flag_fault b st = st\<lparr>fault := fault st \<or> b\<rparr>"

definition need_u :: "int \<Rightarrow> srv \<Rightarrow> srv" where
  "need_u i st = flag_fault (\<not> in_tab i (u_tab st)) st"

definition need_g :: "int \<Rightarrow> srv \<Rightarrow> srv" where
  "need_g i st = flag_fault (\<not> in_tab i (g_tab st)) st"

definition upd_u :: "int \<Rightarrow> (user_item \<Rightarrow> user_item) \<Rightarrow> srv \<Rightarrow> srv" where
  "upd_u i f st = need_u i (st\<lparr>u_tab := (if in_tab i (u_tab st)
     then (u_tab st)[nat i := f (usr st i)] else u_tab st)\<rparr>)"

definition upd_g :: "int \<Rightarrow> (group_item \<Rightarrow> group_item) \<Rightarrow> srv \<Rightarrow> srv" where
  "upd_g i f st = need_g i (st\<lparr>g_tab := (if in_tab i (g_tab st)
     then (g_tab st)[nat i := f (grp st i)] else g_tab st)\<rparr>)"

text \<open>The call of \<open>pktserv_disconnect\<close>.\<close>

definition disconnect :: "int \<Rightarrow> srv \<Rightarrow> srv" where
  "disconnect n st = st\<lparr>dropped := dropped st @ [(length (out st), n)]\<rparr>"

text \<open>The fields of the packet at hand.\<close>

definition field :: "srv \<Rightarrow> nat \<Rightarrow> cstring" where
  "field st i = (if i < length (pfields st) then pfields st ! i else [])"

section \<open>\<open>lookup.c\<close>, \<open>globals.c\<close>\<close>

definition lookup :: "cstring \<Rightarrow> cstring list \<Rightarrow> int" where
  "lookup s table = find_index (\<lambda>t. strcaseeq s t) table"

definition command_table :: "cstring list" where
  "command_table = [''drop'', ''shutdown'', ''wall'', ''beep'', ''cancel'', ''g'', ''invite'',
     ''pass'', ''boot'', ''status'', ''topic'', ''motd'', ''m'', ''echoback'', ''name'', ''v'',
     ''w'', ''whereis'', ''restart'', ''news'', ''hush'', ''shush'', ''s_help'', ''exclude'',
     ''shuttime'', ''notify'', ''talk'', ''ping'', ''nobeep'', ''away'', ''noaway'', ''log'',
     ''stats'', ''brick'']"

definition status_table :: "cstring list" where
  "status_table = [''r'', ''m'', ''p'', ''i'', ''s'', ''v'', ''q'', ''n'', ''l'', ''name'', ''?'',
     ''c'', ''#'', ''b'', ''idlebootmsg'', ''im'']"

definition auto_table :: "cstring list" where
  "auto_table = [''read'', ''whois'', ''p'', ''rname'', ''write'', ''text'', ''addr'', ''phone'',
     ''delete'', ''info'', ''help'', ''?'', ''cp'', ''email'', ''secure'', ''nosecure'', ''www'']"

section \<open>\<open>groups.c\<close>\<close>

definition cleared_group :: "group_item \<Rightarrow> group_item" where
  "cleared_group g = g\<lparr>g_name := [], g_topic := [], g_missingmod := [],
     g_visibility := VISIBLE, g_control := PUBLIC, g_volume := LOUD, g_mod := -1,
     g_modtimeout := 0,
     n_invites := nl_clear (n_invites g), nr_invites := nl_clear (nr_invites g),
     s_invites := nl_clear (s_invites g), sr_invites := nl_clear (sr_invites g),
     n_bars := nl_clear (n_bars g), n_nr_bars := nl_clear (n_nr_bars g),
     s_bars := nl_clear (s_bars g), s_nr_bars := nl_clear (s_nr_bars g),
     n_talk := nl_clear (n_talk g), nr_talk := nl_clear (nr_talk g),
     g_size := 0, g_idleboot := DEF_IDLE_BOOT, g_idleboot_msg := [], g_idlemod := DEF_IDLE_MOD\<rparr>"

definition clear_group_item :: "int \<Rightarrow> srv \<Rightarrow> srv" where
  "clear_group_item n st = upd_g n cleared_group st"

definition init_group :: "group_item \<Rightarrow> group_item" where
  "init_group g = cleared_group (g\<lparr>
     n_invites := nl_init MAX_INVITES, nr_invites := nl_init MAX_INVITES,
     s_invites := nl_init MAX_INVITES, sr_invites := nl_init MAX_INVITES,
     n_bars := nl_init MAX_INVITES, n_nr_bars := nl_init MAX_INVITES,
     s_bars := nl_init MAX_INVITES, s_nr_bars := nl_init MAX_INVITES,
     n_talk := nl_init MAX_INVITES, nr_talk := nl_init MAX_INVITES\<rparr>)"

definition init_groups :: "srv \<Rightarrow> srv" where
  "init_groups st = st\<lparr>g_tab := map init_group (g_tab st)\<rparr>"

definition find_group :: "cstring \<Rightarrow> srv \<Rightarrow> int" where
  "find_group name st =
     (if name = [] then -1 else find_index (\<lambda>g. strcaseeq (g_name g) name) (g_tab st))"

definition find_empty_group :: "srv \<Rightarrow> int" where
  "find_empty_group st = find_index (\<lambda>g. g_name g = []) (g_tab st)"

definition check_mods :: "int \<Rightarrow> srv \<Rightarrow> int" where
  "check_mods u_index st = find_index (\<lambda>g. g_mod g = u_index) (g_tab st)"

definition fill_group_entry :: "int \<Rightarrow> cstring \<Rightarrow> cstring \<Rightarrow> int \<Rightarrow> int \<Rightarrow> int \<Rightarrow> int \<Rightarrow> srv \<Rightarrow> srv" where
  "fill_group_entry n name topic visibility control md volume st =
     upd_g n (\<lambda>g. g\<lparr>g_name := name, g_topic := topic, g_visibility := visibility,
                     g_control := control, g_volume := volume, g_mod := md\<rparr>)
       (flag_fault (length name > MAX_GROUPLEN \<or> length topic > MAX_TOPICLEN) st)"

section \<open>\<open>users.c\<close>\<close>

text \<open>\<open>nickwritetime\<close> of \<open>access.c\<close>: \<open>cls\<close> is 0 for a sign-on, other values for a sign-off.\<close>

definition nickwritetime :: "int \<Rightarrow> int \<Rightarrow> srv \<Rightarrow> int \<times> srv" where
  "nickwritetime forWhom cls st =
     (if u_realname (usr st forWhom) = [] then (-1, st)
      else let timebuf = snprintf 255 (timefmt st (now st));
               nick = u_nickname (usr st forWhom);
               db = snd (icbdb_open (userdb st));
               (r, db) = (if cls \<noteq> 0 then icbdb_get (Some nick) ''nick'' ICBDB_STRING db
                          else (Some (VStr []), db))
           in if r = None then (-1, st\<lparr>userdb := icbdb_close db\<rparr>)
              else let type = (if cls = 0 then ''signon'' else ''signoff'');
                       db = snd (icbdb_set (Some nick) type (VStr timebuf) db)
                   in (0, st\<lparr>userdb := icbdb_close db\<rparr>))"

definition cleared_user :: "user_item \<Rightarrow> user_item" where
  "cleared_user u = u\<lparr>u_loginid := [], u_nodeid := [], u_nickname := [], u_password := [],
     u_realname := [], u_group := [], u_awaymsg := [], u_lastaway := 0, u_lastawaytime := 0,
     u_login := LOGIN_FALSE, u_echoback := 0, u_nobeep := 0, u_perms := 0, u_t_on := 0,
     u_t_sent := 0, u_t_recv := 0, u_t_group := 0, u_secure := 0,
     pri_n_hushed := nl_clear (pri_n_hushed u), pub_n_hushed := nl_clear (pub_n_hushed u),
     pri_s_hushed := nl_clear (pri_s_hushed u), pub_s_hushed := nl_clear (pub_s_hushed u),
     n_notifies := nl_clear (n_notifies u), s_notifies := nl_clear (s_notifies u)\<rparr>"

text \<open>
  \<open>clear_user_item\<close>. The last loop clears \<open>ping_time[n]\<close>, not \<open>ping_time[i]\<close>, which was
  cleared before.
\<close>

definition clear_user_item :: "int \<Rightarrow> srv \<Rightarrow> srv" where
  "clear_user_item n st =
     (let st = need_u n st;
          st = (if u_login (usr st n) > LOGIN_FALSE then snd (nickwritetime n 1 st) else st);
          st = upd_u n cleared_user st
      in st\<lparr>S_kill := (S_kill st)[nat n := 0],
            lpriv_id := map (\<lambda>i. if i = n then -1 else i) ((lpriv_id st)[nat n := -1]),
            pong_req := map (\<lambda>i. if i = n then -1 else i) ((pong_req st)[nat n := -1]),
            ping_time := (ping_time st)[nat n := 0]\<rparr>)"

definition copy_user_field :: "nat \<Rightarrow> cstring option \<Rightarrow> cstring" where
  "copy_user_field dstsz src = (case src of None \<Rightarrow> [] | Some s \<Rightarrow> take (dstsz - 1) s)"

definition fill_user_entry ::
    "int \<Rightarrow> cstring option \<Rightarrow> cstring option \<Rightarrow> cstring option \<Rightarrow> cstring option \<Rightarrow> cstring option
     \<Rightarrow> cstring option \<Rightarrow> int \<Rightarrow> int \<Rightarrow> int \<Rightarrow> int \<Rightarrow> srv \<Rightarrow> srv" where
  "fill_user_entry n loginid nodeid nickname password grpname awaymsg mylogin echoback nobeep perms st =
     upd_u n (\<lambda>u. u\<lparr>u_loginid := copy_user_field (MAX_IDLEN + 1) loginid,
       u_nodeid := copy_user_field (MAX_NODELEN + 1) nodeid,
       u_password := copy_user_field (MAX_PASSWDLEN + 1) password,
       u_nickname := copy_user_field (MAX_NICKLEN + 1) nickname,
       u_awaymsg := copy_user_field (MAX_AWAY_LEN + 1) awaymsg,
       u_group := copy_user_field (MAX_GROUPLEN + 1) grpname,
       u_login := mylogin, u_echoback := echoback, u_t_notify := 0, u_nobeep := nobeep,
       u_perms := perms\<rparr>) st"

definition init_user :: "user_item \<Rightarrow> user_item" where
  "init_user u = u\<lparr>pri_n_hushed := nl_init MAX_HUSHED, pub_n_hushed := nl_init MAX_HUSHED,
     pri_s_hushed := nl_init MAX_HUSHED, pub_s_hushed := nl_init MAX_HUSHED,
     n_notifies := nl_init MAX_HUSHED, s_notifies := nl_init MAX_HUSHED\<rparr>"

definition clear_users :: "srv \<Rightarrow> srv" where
  "clear_users st = fold (\<lambda>i st. clear_user_item i (upd_u i init_user st)) [0..MAX_USERS st - 1] st"

definition count_users_in_group :: "cstring \<Rightarrow> srv \<Rightarrow> int" where
  "count_users_in_group grpname st =
     (if grpname = [] then 0
      else int (length (filter (\<lambda>u. strcaseeq (u_group u) grpname) (u_tab st))))"

definition find_user :: "cstring \<Rightarrow> srv \<Rightarrow> int" where
  "find_user name st =
     (if name = [] then -1 else find_index (\<lambda>u. strcaseeq (u_nickname u) name) (u_tab st))"

section \<open>\<open>access.c\<close>: the administrator\<close>

definition check_auth :: "int \<Rightarrow> srv \<Rightarrow> bool" where
  "check_auth n st \<longleftrightarrow> strcaseeq (u_nickname (usr st n)) ''ADMIN''
     \<and> strcaseeq (u_password (usr st n)) (admin_pwd st)"

section \<open>Rewriting with table updates\<close>

lemma flag_fault_simps [simp]:
  "u_tab (flag_fault b st) = u_tab st" "g_tab (flag_fault b st) = g_tab st"
  "out (flag_fault b st) = out st" "fault (flag_fault b st) \<longleftrightarrow> fault st \<or> b"
  "lpriv_id (flag_fault b st) = lpriv_id st" "S_kill (flag_fault b st) = S_kill st"
  "pfields (flag_fault b st) = pfields st" "overread (flag_fault b st) = overread st"
  "is_booting (flag_fault b st) = is_booting st" "admin_pwd (flag_fault b st) = admin_pwd st"
  by (simp_all add: flag_fault_def)

lemma need_simps [simp]:
  "u_tab (need_u i st) = u_tab st" "g_tab (need_u i st) = g_tab st" "out (need_u i st) = out st"
  "u_tab (need_g i st) = u_tab st" "g_tab (need_g i st) = g_tab st" "out (need_g i st) = out st"
  "fault (need_u i st) \<longleftrightarrow> fault st \<or> \<not> in_tab i (u_tab st)"
  "fault (need_g i st) \<longleftrightarrow> fault st \<or> \<not> in_tab i (g_tab st)"
  "lpriv_id (need_u i st) = lpriv_id st" "lpriv_id (need_g i st) = lpriv_id st"
  "S_kill (need_u i st) = S_kill st" "S_kill (need_g i st) = S_kill st"
  "pfields (need_u i st) = pfields st" "pfields (need_g i st) = pfields st"
  "overread (need_u i st) = overread st" "overread (need_g i st) = overread st"
  "is_booting (need_u i st) = is_booting st" "is_booting (need_g i st) = is_booting st"
  "admin_pwd (need_u i st) = admin_pwd st" "admin_pwd (need_g i st) = admin_pwd st"
  by (simp_all add: need_u_def need_g_def)

lemma upd_u_simps [simp]:
  "g_tab (upd_u i f st) = g_tab st" "out (upd_u i f st) = out st"
  "length (u_tab (upd_u i f st)) = length (u_tab st)"
  "fault (upd_u i f st) \<longleftrightarrow> fault st \<or> \<not> in_tab i (u_tab st)"
  "lpriv_id (upd_u i f st) = lpriv_id st" "S_kill (upd_u i f st) = S_kill st"
  "pfields (upd_u i f st) = pfields st" "overread (upd_u i f st) = overread st"
  "is_booting (upd_u i f st) = is_booting st" "admin_pwd (upd_u i f st) = admin_pwd st"
  by (auto simp: upd_u_def in_tab_def)

lemma upd_g_simps [simp]:
  "u_tab (upd_g i f st) = u_tab st" "out (upd_g i f st) = out st"
  "length (g_tab (upd_g i f st)) = length (g_tab st)"
  "fault (upd_g i f st) \<longleftrightarrow> fault st \<or> \<not> in_tab i (g_tab st)"
  "lpriv_id (upd_g i f st) = lpriv_id st" "S_kill (upd_g i f st) = S_kill st"
  "pfields (upd_g i f st) = pfields st" "overread (upd_g i f st) = overread st"
  "is_booting (upd_g i f st) = is_booting st" "admin_pwd (upd_g i f st) = admin_pwd st"
  by (auto simp: upd_g_def in_tab_def)

lemma u_tab_upd_u: "in_tab i (u_tab st) \<Longrightarrow> u_tab (upd_u i f st) = (u_tab st)[nat i := f (usr st i)]"
  by (simp add: upd_u_def)

lemma g_tab_upd_g: "in_tab i (g_tab st) \<Longrightarrow> g_tab (upd_g i f st) = (g_tab st)[nat i := f (grp st i)]"
  by (simp add: upd_g_def)

lemma in_tab_length: "length s = length t \<Longrightarrow> in_tab i s = in_tab i t"
  by (simp add: in_tab_def)

lemma in_tab_upd [simp]:
  "in_tab j (u_tab (upd_u i f st)) = in_tab j (u_tab st)"
  "in_tab j (g_tab (upd_g i g st)) = in_tab j (g_tab st)"
  by (rule in_tab_length, simp)+

lemma in_tab_nth: "in_tab i t \<longleftrightarrow> (\<exists>k < length t. i = int k)"
  unfolding in_tab_def by (metis of_nat_0_le_iff of_nat_less_iff zero_le_imp_eq_int)

lemma usr_upd_u [simp]:
  "usr (upd_u i f st) j = (if i = j \<and> in_tab i (u_tab st) then f (usr st i) else usr st j)"
  by (auto simp: usr_def upd_u_def in_tab_def nth_list_update nat_eq_iff)

lemma grp_upd_g [simp]:
  "grp (upd_g i f st) j = (if i = j \<and> in_tab i (g_tab st) then f (grp st i) else grp st j)"
  by (auto simp: grp_def upd_g_def in_tab_def nth_list_update nat_eq_iff)

lemma usr_other [simp]: "usr (upd_g i f st) j = usr st j" "usr (need_u i st) j = usr st j"
  "usr (need_g i st) j = usr st j" "usr (flag_fault b st) j = usr st j"
  by (simp_all add: usr_def)

lemma grp_other [simp]: "grp (upd_u i f st) j = grp st j" "grp (need_u i st) j = grp st j"
  "grp (need_g i st) j = grp st j" "grp (flag_fault b st) j = grp st j"
  by (simp_all add: grp_def)

lemma usr_in: "in_tab i (u_tab st) \<Longrightarrow> usr st i \<in> set (u_tab st)"
  by (auto simp: usr_def in_tab_def)

lemma grp_in: "in_tab i (g_tab st) \<Longrightarrow> grp st i \<in> set (g_tab st)"
  by (auto simp: grp_def in_tab_def)

lemma u_tab_usr: "u \<in> set (u_tab st) \<Longrightarrow> \<exists>i. in_tab i (u_tab st) \<and> u = usr st i"
  unfolding in_set_conv_nth usr_def in_tab_def by (metis nat_int of_nat_0_le_iff of_nat_less_iff)

lemma g_tab_grp: "g \<in> set (g_tab st) \<Longrightarrow> \<exists>i. in_tab i (g_tab st) \<and> g = grp st i"
  unfolding in_set_conv_nth grp_def in_tab_def by (metis nat_int of_nat_0_le_iff of_nat_less_iff)

section \<open>Searching\<close>

lemma find_index_tab: "0 \<le> find_index P t \<Longrightarrow> in_tab (find_index P t) t"
  using find_index_nat [of P t] by (auto simp: in_tab_def)

lemma find_group_neg: "find_group name st < 0 \<longleftrightarrow> find_group name st = -1"
  using find_index_lower [of "\<lambda>g. strcaseeq (g_name g) name" "g_tab st"] by (auto simp: find_group_def)

lemma find_group_found:
  assumes "0 \<le> find_group name st"
  shows "in_tab (find_group name st) (g_tab st)"
    and "strcaseeq (g_name (grp st (find_group name st))) name" and "name \<noteq> []"
proof -
  have i: "find_group name st = find_index (\<lambda>g. strcaseeq (g_name g) name) (g_tab st)" "name \<noteq> []"
    using assms by (auto simp: find_group_def split: if_splits)
  with assms find_index_tab find_index_nat [of "\<lambda>g. strcaseeq (g_name g) name" "g_tab st"]
  show "in_tab (find_group name st) (g_tab st)"
    and "strcaseeq (g_name (grp st (find_group name st))) name" and "name \<noteq> []"
    by (auto simp: grp_def)
qed

lemma find_group_exists:
  "0 \<le> find_group name st \<longleftrightarrow> name \<noteq> [] \<and> (\<exists>g \<in> set (g_tab st). strcaseeq (g_name g) name)"
  by (auto simp: find_group_def find_index_nonneg)

lemma find_empty_group_found:
  assumes "0 \<le> find_empty_group st"
  shows "in_tab (find_empty_group st) (g_tab st)" and "g_name (grp st (find_empty_group st)) = []"
  using assms find_index_tab find_index_nat [of "\<lambda>g. g_name g = []" "g_tab st"]
  by (auto simp: find_empty_group_def grp_def)

lemma find_user_found:
  assumes "0 \<le> find_user name st"
  shows "in_tab (find_user name st) (u_tab st)"
    and "strcaseeq (u_nickname (usr st (find_user name st))) name" and "name \<noteq> []"
proof -
  have i: "find_user name st = find_index (\<lambda>u. strcaseeq (u_nickname u) name) (u_tab st)" "name \<noteq> []"
    using assms by (auto simp: find_user_def split: if_splits)
  with assms find_index_tab find_index_nat [of "\<lambda>u. strcaseeq (u_nickname u) name" "u_tab st"]
  show "in_tab (find_user name st) (u_tab st)"
    and "strcaseeq (u_nickname (usr st (find_user name st))) name" and "name \<noteq> []"
    by (auto simp: usr_def)
qed

lemma check_mods_found:
  assumes "0 \<le> check_mods n st"
  shows "in_tab (check_mods n st) (g_tab st)" and "g_mod (grp st (check_mods n st)) = n"
  using assms find_index_tab find_index_nat [of "\<lambda>g. g_mod g = n" "g_tab st"]
  by (auto simp: check_mods_def grp_def)

lemma count_users_pos:
  "0 < count_users_in_group name st \<longleftrightarrow>
     name \<noteq> [] \<and> (\<exists>u \<in> set (u_tab st). strcaseeq (u_group u) name)"
  by (auto simp: count_users_in_group_def filter_empty_conv)

lemma strcaseeq_trans': "strcaseeq a b \<Longrightarrow> strcaseeq a c \<longleftrightarrow> strcaseeq b c"
  by (auto simp: strcaseeq_def)

lemma strcaseeq_ne: "strcaseeq a b \<Longrightarrow> a \<noteq> [] \<Longrightarrow> b \<noteq> []"
  by auto

section \<open>The invariant of the tables\<close>

text \<open>
  Group names are unique up to case, every user's group exists, every user with a nickname is
  in a group, names fit their buffers, a moderator is a user slot or none, and every name list
  is well-formed.
\<close>

definition user_lists :: "user_item \<Rightarrow> nlist list" where
  "user_lists u = [pri_n_hushed u, pub_n_hushed u, pri_s_hushed u, pub_s_hushed u,
     n_notifies u, s_notifies u]"

definition group_lists :: "group_item \<Rightarrow> nlist list" where
  "group_lists g = [n_invites g, nr_invites g, s_invites g, sr_invites g, n_bars g, n_nr_bars g,
     s_bars g, s_nr_bars g, n_talk g, nr_talk g]"

definition user_ok :: "user_item \<Rightarrow> bool" where
  "user_ok u \<longleftrightarrow> length (u_loginid u) \<le> MAX_IDLEN \<and> length (u_nodeid u) \<le> MAX_NODELEN
     \<and> length (u_nickname u) \<le> MAX_NICKLEN \<and> length (u_group u) \<le> MAX_GROUPLEN
     \<and> list_all nl_ok (user_lists u)"

definition group_ok :: "srv \<Rightarrow> group_item \<Rightarrow> bool" where
  "group_ok st g \<longleftrightarrow> length (g_name g) \<le> MAX_GROUPLEN \<and> length (g_topic g) \<le> MAX_TOPICLEN
     \<and> length (g_idleboot_msg g) \<le> IDLEBOOT_MSG_LEN
     \<and> (g_name g = [] \<or> filtergroupname (g_name g) = g_name g)
     \<and> (g_mod g = -1 \<or> in_tab (g_mod g) (u_tab st)) \<and> list_all nl_ok (group_lists g)"

definition groups_distinct :: "srv \<Rightarrow> bool" where
  "groups_distinct st \<longleftrightarrow> (\<forall>i j. in_tab i (g_tab st) \<and> in_tab j (g_tab st) \<and> i \<noteq> j
     \<and> g_name (grp st i) \<noteq> [] \<longrightarrow> \<not> strcaseeq (g_name (grp st i)) (g_name (grp st j)))"

definition users_housed :: "srv \<Rightarrow> bool" where
  "users_housed st \<longleftrightarrow> (\<forall>i. in_tab i (u_tab st) \<longrightarrow>
     (u_group (usr st i) \<noteq> [] \<longrightarrow> 0 \<le> find_group (u_group (usr st i)) st)
     \<and> (u_nickname (usr st i) \<noteq> [] \<longrightarrow> u_group (usr st i) \<noteq> []))"

definition srv_ok :: "srv \<Rightarrow> bool" where
  "srv_ok st \<longleftrightarrow> u_tab st \<noteq> [] \<and> (\<forall>u \<in> set (u_tab st). user_ok u)
     \<and> (\<forall>g \<in> set (g_tab st). group_ok st g) \<and> groups_distinct st \<and> users_housed st
     \<and> length (S_kill st) = length (u_tab st) \<and> length (lpriv_id st) = length (u_tab st)"

lemma groups_distinctD:
  assumes "groups_distinct st" "in_tab i (g_tab st)" "in_tab j (g_tab st)"
    "strcaseeq (g_name (grp st i)) (g_name (grp st j))" "g_name (grp st i) \<noteq> []"
  shows "i = j"
  using assms unfolding groups_distinct_def by blast

text \<open>With distinct names, \<open>find_group\<close> finds the one slot of that name.\<close>

lemma find_group_unique:
  assumes "groups_distinct st" "in_tab i (g_tab st)" "name \<noteq> []" "strcaseeq (g_name (grp st i)) name"
  shows "find_group name st = i"
proof -
  have "0 \<le> find_group name st" using assms grp_in find_group_exists by blast
  note f = find_group_found [OF this]
  have "strcaseeq (g_name (grp st i)) (g_name (grp st (find_group name st)))"
    using assms(4) f(2) by (auto simp: strcaseeq_def)
  moreover have "g_name (grp st i) \<noteq> []" using assms(3,4) by auto
  ultimately show ?thesis using groups_distinctD [OF assms(1,2) f(1)] by simp
qed

lemma find_group_case: "strcaseeq a b \<Longrightarrow> find_group a st = find_group b st"
proof -
  assume "strcaseeq a b"
  then have "(\<lambda>g :: group_item. strcaseeq (g_name g) a) = (\<lambda>g. strcaseeq (g_name g) b)" "a = [] \<longleftrightarrow> b = []"
    by (auto simp: strcaseeq_def fun_eq_iff)
  then show ?thesis unfolding find_group_def by metis
qed

section \<open>Keeping the invariant\<close>

lemma srv_okD:
  assumes "srv_ok st"
  shows "u_tab st \<noteq> []" "\<And>u. u \<in> set (u_tab st) \<Longrightarrow> user_ok u" "\<And>g. g \<in> set (g_tab st) \<Longrightarrow> group_ok st g"
    "groups_distinct st" "users_housed st" "length (S_kill st) = length (u_tab st)"
    "length (lpriv_id st) = length (u_tab st)"
  using assms by (simp_all add: srv_ok_def)

lemma srv_ok_grp: "srv_ok st \<Longrightarrow> in_tab i (g_tab st) \<Longrightarrow> group_ok st (grp st i)"
  using srv_okD(3) grp_in by blast

lemma srv_ok_usr: "srv_ok st \<Longrightarrow> in_tab i (u_tab st) \<Longrightarrow> user_ok (usr st i)"
  using srv_okD(2) usr_in by blast

lemma srv_ok_cong:
  assumes "u_tab st' = u_tab st" "g_tab st' = g_tab st" "length (S_kill st') = length (S_kill st)"
    "length (lpriv_id st') = length (lpriv_id st)"
  shows "srv_ok st' = srv_ok st"
proof -
  have "usr st' i = usr st i" "grp st' i = grp st i" "find_group nm st' = find_group nm st" for i nm
    using assms by (simp_all add: usr_def grp_def find_group_def)
  with assms show ?thesis
    by (simp add: srv_ok_def group_ok_def groups_distinct_def users_housed_def)
qed

lemma srv_ok_simps [simp]:
  "srv_ok (flag_fault b st) = srv_ok st" "srv_ok (need_u i st) = srv_ok st" "srv_ok (need_g i st) = srv_ok st"
  "srv_ok (st\<lparr>lpriv_id := (lpriv_id st)[k := v]\<rparr>) = srv_ok st" "srv_ok (st\<lparr>pfields := fs\<rparr>) = srv_ok st"
  "srv_ok (st\<lparr>is_booting := x\<rparr>) = srv_ok st" "srv_ok (st\<lparr>stats := s\<rparr>) = srv_ok st"
  "srv_ok (st\<lparr>pfields := fs, is_booting := x\<rparr>) = srv_ok st"
  by (rule srv_ok_cong, simp, simp, simp, simp)+

lemma find_index_map_cong:
  "map Q xs = map R ys \<Longrightarrow> find_index Q xs = find_index R ys"
proof (induction xs arbitrary: ys)
  case Nil
  then show ?case by simp
next
  case (Cons x xs)
  then obtain y ys' where "ys = y # ys'" "Q x = R y" "map Q xs = map R ys'" by auto
  with Cons.IH [of ys'] show ?case by simp
qed

text \<open>Changing a group entry without its name.\<close>

lemma map_update_same: "f x = f (xs ! i) \<Longrightarrow> map f (xs[i := x]) = map f xs"
  by (cases "i < length xs") (simp_all add: map_update list_update_same_conv list_update_beyond)

lemma find_group_upd_g:
  assumes "\<And>g. g_name (f g) = g_name g"
  shows "find_group nm (upd_g i f st) = find_group nm st"
proof (cases "in_tab i (g_tab st)")
  case False
  then have "g_tab (upd_g i f st) = g_tab st" by (simp add: upd_g_def)
  then show ?thesis by (simp add: find_group_def)
next
  case True
  let ?P = "\<lambda>g :: group_item. strcaseeq (g_name g) nm"
  have "?P (f (grp st i)) = ?P (g_tab st ! nat i)" using True assms by (simp add: grp_def)
  then have "map ?P (g_tab (upd_g i f st)) = map ?P (g_tab st)"
    unfolding g_tab_upd_g [OF True] by (rule map_update_same)
  then have "find_index ?P (g_tab (upd_g i f st)) = find_index ?P (g_tab st)"
    by (rule find_index_map_cong)
  then show ?thesis by (simp add: find_group_def)
qed

lemma group_ok_upd [simp]: "group_ok (upd_g i f st) = group_ok st" "group_ok (upd_u i h st) = group_ok st"
  by (rule ext, simp add: group_ok_def in_tab_def)+

lemma srv_ok_upd_g:
  assumes ok: "srv_ok st" and name: "\<And>g. g_name (f g) = g_name g"
    and f: "\<And>g. group_ok st g \<Longrightarrow> group_ok st (f g)"
  shows "srv_ok (upd_g i f st)"
proof (cases "in_tab i (g_tab st)")
  case False
  then have "g_tab (upd_g i f st) = g_tab st" by (simp add: upd_g_def)
  then have "srv_ok (upd_g i f st) = srv_ok st" by (intro srv_ok_cong) simp_all
  with ok show ?thesis by simp
next
  case True
  have g: "g_name (grp (upd_g i f st) j) = g_name (grp st j)" for j by (simp add: name)
  have d: "groups_distinct (upd_g i f st)" "users_housed (upd_g i f st)"
    using srv_okD(4,5) [OF ok] unfolding groups_distinct_def users_housed_def
    by (simp_all only: g in_tab_upd usr_other upd_g_simps(1) find_group_upd_g [OF name])
  have "\<forall>g \<in> set (g_tab (upd_g i f st)). group_ok st g"
    using ok f srv_ok_grp [OF ok True] set_update_subset_insert [of "g_tab st" "nat i" "f (grp st i)"]
    by (auto simp: g_tab_upd_g [OF True] srv_ok_def)
  with ok show ?thesis
    by (simp add: srv_ok_def d)
qed

text \<open>Changing a user entry without its nickname and group.\<close>

lemma srv_ok_upd_u:
  assumes ok: "srv_ok st" and same: "\<And>u. u_group (f u) = u_group u" "\<And>u. u_nickname (f u) = u_nickname u"
    and f: "\<And>u. user_ok u \<Longrightarrow> user_ok (f u)"
  shows "srv_ok (upd_u i f st)"
proof (cases "in_tab i (u_tab st)")
  case False
  then have "u_tab (upd_u i f st) = u_tab st" by (simp add: upd_u_def)
  then have "srv_ok (upd_u i f st) = srv_ok st" by (intro srv_ok_cong) simp_all
  with ok show ?thesis by simp
next
  case True
  have fg: "find_group nm (upd_u i f st) = find_group nm st" for nm by (simp add: find_group_def)
  have "\<forall>u \<in> set (u_tab (upd_u i f st)). user_ok u"
    using ok f srv_ok_usr [OF ok True] set_update_subset_insert [of "u_tab st" "nat i" "f (usr st i)"]
    by (auto simp: u_tab_upd_u [OF True] srv_ok_def)
  moreover have "u_tab (upd_u i f st) \<noteq> []" using ok by (simp add: u_tab_upd_u [OF True] srv_ok_def)
  ultimately show ?thesis
    using ok by (auto simp: srv_ok_def groups_distinct_def users_housed_def fg same)
qed

end
