(* ===== verification/Utf8.thy ===== *)
theory Utf8
  imports StrUtil
begin

text \<open>
  \<open>server/utf8.c\<close>, the table-driven UTF-8 decoder, and \<open>filtertext\<close> of
  \<open>server/strutil.c\<close> that runs it over a message. The reference is the table of
  well-formed byte sequences of the Unicode standard; the decoder is shown to follow it
  step by step, and the filter to let only well-formed text without control characters
  through.
\<close>

section \<open>The decoder\<close>

definition utf8d :: "nat list" where
  "utf8d = [
    0,0,0,0,0,0,0,0,0,0,0,0,0,0,0,0,0,0,0,0,0,0,0,0,0,0,0,0,0,0,0,0,
    0,0,0,0,0,0,0,0,0,0,0,0,0,0,0,0,0,0,0,0,0,0,0,0,0,0,0,0,0,0,0,0,
    0,0,0,0,0,0,0,0,0,0,0,0,0,0,0,0,0,0,0,0,0,0,0,0,0,0,0,0,0,0,0,0,
    0,0,0,0,0,0,0,0,0,0,0,0,0,0,0,0,0,0,0,0,0,0,0,0,0,0,0,0,0,0,0,0,
    1,1,1,1,1,1,1,1,1,1,1,1,1,1,1,1,9,9,9,9,9,9,9,9,9,9,9,9,9,9,9,9,
    7,7,7,7,7,7,7,7,7,7,7,7,7,7,7,7,7,7,7,7,7,7,7,7,7,7,7,7,7,7,7,7,
    8,8,2,2,2,2,2,2,2,2,2,2,2,2,2,2,2,2,2,2,2,2,2,2,2,2,2,2,2,2,2,2,
    0xa,0x3,0x3,0x3,0x3,0x3,0x3,0x3,0x3,0x3,0x3,0x3,0x3,0x4,0x3,0x3,
    0xb,0x6,0x6,0x6,0x5,0x8,0x8,0x8,0x8,0x8,0x8,0x8,0x8,0x8,0x8,0x8,
    0x0,0x1,0x2,0x3,0x5,0x8,0x7,0x1,0x1,0x1,0x4,0x6,0x1,0x1,0x1,0x1,
    1,1,1,1,1,1,1,1,1,1,1,1,1,1,1,1,1,0,1,1,1,1,1,0,1,0,1,1,1,1,1,1,
    1,2,1,1,1,1,1,2,1,2,1,1,1,1,1,1,1,1,1,1,1,1,1,2,1,1,1,1,1,1,1,1,
    1,2,1,1,1,1,1,1,1,2,1,1,1,1,1,1,1,1,1,1,1,1,1,3,1,3,1,1,1,1,1,1,
    1,3,1,1,1,1,1,3,1,3,1,1,1,1,1,1,1,3,1,1,1,1,1,1,1,1,1,1,1,1,1,1]"

abbreviation (input) UTF8_ACCEPT :: nat where "UTF8_ACCEPT \<equiv> 0"
abbreviation (input) UTF8_REJECT :: nat where "UTF8_REJECT \<equiv> 1"

text \<open>One step: the new state and the new \<open>*codep\<close>, a \<open>uint32_t\<close>.\<close>

definition decode :: "nat \<Rightarrow> nat \<Rightarrow> nat \<Rightarrow> nat \<times> nat" where
  "decode state codep byte =
     (let type = utf8d ! byte;
          codep = (if state \<noteq> UTF8_ACCEPT
                   then (byte AND 0x3f) OR take_bit 32 (push_bit 6 codep)
                   else drop_bit type 0xff AND byte)
      in (utf8d ! (256 + state * 16 + type), codep))"

text \<open>\<open>countCodePoints\<close>: the value returned and the count.\<close>

fun count_loop :: "nat \<Rightarrow> nat \<Rightarrow> nat \<Rightarrow> cstring \<Rightarrow> int \<times> nat" where
  "count_loop state codep count [] = (if state \<noteq> UTF8_ACCEPT then 1 else 0, count)"
| "count_loop state codep count (c # s) =
     (let (state, codep) = decode state codep (byte_of c)
      in count_loop state codep (if state = 0 then count + 1 else count) s)"

definition countCodePoints :: "cstring \<Rightarrow> int \<times> nat" where
  "countCodePoints s = count_loop 0 0 0 s"

section \<open>The filter\<close>

text \<open>
  The loop of \<open>filtertext\<close>. \<open>seen\<close> is the text before \<open>s\<close>, last byte first; \<open>room\<close> is
  \<open>len - (s - src)\<close>. The result is what is appended to \<open>dest\<close>; \<open>None\<close> would be a read
  before the start of the text. A byte that cannot continue a sequence is looked at again
  as the start of a new one.
\<close>

definition behind :: "nat \<Rightarrow> cstring \<Rightarrow> cstring option" where
  "behind k seen = (if length seen < k then None else Some (rev (take k seen)))"

definition accepted :: "nat \<Rightarrow> cstring \<Rightarrow> char \<Rightarrow> cstring option" where
  "accepted codepoint seen c =
     (if 0x20 \<le> codepoint \<and> codepoint \<le> 0x7F then Some [c]
      else if 0x80 \<le> codepoint \<and> codepoint \<le> 0x7FF
        then map_option (\<lambda>b. b @ [c]) (behind 1 seen)
      else if 0x800 \<le> codepoint \<and> codepoint \<le> 0xFFFF
        then map_option (\<lambda>b. b @ [c]) (behind 2 seen)
      else if 0x10000 \<le> codepoint \<and> codepoint \<le> 0x10FFFF
        then map_option (\<lambda>b. b @ [c]) (behind 3 seen)
      else Some [])"

function filter_loop :: "nat \<Rightarrow> nat \<Rightarrow> cstring \<Rightarrow> cstring \<Rightarrow> nat \<Rightarrow> cstring option" where
  "filter_loop state codep seen [] room = Some []"
| "filter_loop state codep seen (c # s) room =
     (if room = 0 then Some []
      else let (state', codep') = decode state codep (byte_of c) in
        if state' = UTF8_ACCEPT then do {
          out \<leftarrow> accepted codep' seen c;
          rest \<leftarrow> filter_loop UTF8_ACCEPT codep' (c # seen) s (room - 1);
          Some (out @ rest) }
        else if state' = UTF8_REJECT then
          map_option (Cons (CHR ''?''))
            (if state \<noteq> UTF8_ACCEPT
             then filter_loop UTF8_ACCEPT codep' seen (c # s) room
             else filter_loop UTF8_ACCEPT codep' (c # seen) s (room - 1))
        else filter_loop state' codep' (c # seen) s (room - 1))"
  by pat_completeness auto
termination
  by (relation "measures [\<lambda>(st, cp, seen, s, room). length s,
                          \<lambda>(st, cp, seen, s, room). if st = UTF8_ACCEPT then 0 else 1]") auto

definition filtertext :: "cstring \<Rightarrow> nat \<Rightarrow> cstring option" where
  "filtertext src len = filter_loop UTF8_ACCEPT 0 [] src len"

section \<open>Well-formed UTF-8\<close>

text \<open>
  The bytes that may follow a lead byte, as ranges: the table of well-formed byte sequences
  of the Unicode standard.
\<close>

type_synonym ranges = "(nat \<times> nat) list"

definition lead :: "nat \<Rightarrow> ranges option" where
  "lead b =
     (if b \<le> 0x7F then Some []
      else if 0xC2 \<le> b \<and> b \<le> 0xDF then Some [(0x80, 0xBF)]
      else if b = 0xE0 then Some [(0xA0, 0xBF), (0x80, 0xBF)]
      else if b = 0xED then Some [(0x80, 0x9F), (0x80, 0xBF)]
      else if 0xE1 \<le> b \<and> b \<le> 0xEF then Some [(0x80, 0xBF), (0x80, 0xBF)]
      else if b = 0xF0 then Some [(0x90, 0xBF), (0x80, 0xBF), (0x80, 0xBF)]
      else if 0xF1 \<le> b \<and> b \<le> 0xF3 then Some [(0x80, 0xBF), (0x80, 0xBF), (0x80, 0xBF)]
      else if b = 0xF4 then Some [(0x80, 0x8F), (0x80, 0xBF), (0x80, 0xBF)]
      else None)"

fun spec_step :: "ranges \<Rightarrow> nat \<Rightarrow> ranges option" where
  "spec_step [] b = lead b"
| "spec_step ((lo, hi) # rs) b = (if lo \<le> b \<and> b \<le> hi then Some rs else None)"

fun wf_from :: "ranges \<Rightarrow> cstring \<Rightarrow> bool" where
  "wf_from rs [] = (rs = [])"
| "wf_from rs (c # s) = (case spec_step rs (byte_of c) of None \<Rightarrow> False | Some rs \<Rightarrow> wf_from rs s)"

definition wf_utf8 :: "cstring \<Rightarrow> bool" where
  "wf_utf8 s = wf_from [] s"

text \<open>The number of code points of well-formed text: the bytes that are not continuations.\<close>

definition lead_bytes :: "cstring \<Rightarrow> nat" where
  "lead_bytes s = length (filter (\<lambda>c. \<not> (0x80 \<le> byte_of c \<and> byte_of c \<le> 0xBF)) s)"

section \<open>The tables\<close>

text \<open>The byte classes and the transitions, read off the table once.\<close>

definition byte_class :: "nat \<Rightarrow> nat" where
  "byte_class b =
     (if b \<le> 0x7F then 0 else if b \<le> 0x8F then 1 else if b \<le> 0x9F then 9
      else if b \<le> 0xBF then 7 else if b \<le> 0xC1 then 8 else if b \<le> 0xDF then 2
      else if b = 0xE0 then 10 else if b = 0xED then 4 else if b \<le> 0xEF then 3
      else if b = 0xF0 then 11 else if b \<le> 0xF3 then 6 else if b = 0xF4 then 5 else 8)"

definition cont_next :: "nat \<Rightarrow> nat list \<Rightarrow> nat \<Rightarrow> nat" where
  "cont_next s ts t = (if t \<in> set ts then s else 1)"

definition trans :: "nat \<Rightarrow> nat \<Rightarrow> nat" where
  "trans s t =
     (if s = 0 then [0, 1, 2, 3, 5, 8, 7, 1, 1, 1, 4, 6] ! t
      else if s = 2 then cont_next 0 [1, 7, 9] t
      else if s = 3 then cont_next 2 [1, 7, 9] t
      else if s = 4 then cont_next 2 [7] t
      else if s = 5 then cont_next 2 [1, 9] t
      else if s = 6 then cont_next 3 [7, 9] t
      else if s = 7 then cont_next 3 [1, 7, 9] t
      else if s = 8 then cont_next 3 [1] t
      else 1)"

lemma utf8d_class: "b < 256 \<Longrightarrow> utf8d ! b = byte_class b"
proof -
  have "list_all (\<lambda>b. utf8d ! b = byte_class b) [0..<256]" by code_simp
  then show "b < 256 \<Longrightarrow> utf8d ! b = byte_class b"
    unfolding list_all_iff set_upt by (metis atLeastLessThan_iff le0)
qed

lemma utf8d_trans: "s < 9 \<Longrightarrow> t < 12 \<Longrightarrow> utf8d ! (256 + s * 16 + t) = trans s t"
proof -
  have "list_all (\<lambda>s. list_all (\<lambda>t. utf8d ! (256 + s * 16 + t) = trans s t) [0..<12]) [0..<9]"
    by code_simp
  then show "s < 9 \<Longrightarrow> t < 12 \<Longrightarrow> utf8d ! (256 + s * 16 + t) = trans s t"
    unfolding list_all_iff set_upt by (metis atLeastLessThan_iff le0)
qed

lemma byte_class_less: "byte_class b < 12"
  by (simp add: byte_class_def)

definition next_state :: "nat \<Rightarrow> nat \<Rightarrow> nat" where
  "next_state s b = trans s (byte_class b)"

lemma decode_state: "s < 9 \<Longrightarrow> b < 256 \<Longrightarrow> fst (decode s cp b) = next_state s b"
  by (simp add: decode_def Let_def utf8d_class utf8d_trans byte_class_less next_state_def)

text \<open>The states of the automaton stand for the bytes still expected.\<close>

definition ranges_of :: "nat \<Rightarrow> ranges" where
  "ranges_of s =
     (if s = 0 then []
      else if s = 2 then [(0x80, 0xBF)]
      else if s = 3 then [(0x80, 0xBF), (0x80, 0xBF)]
      else if s = 4 then [(0xA0, 0xBF), (0x80, 0xBF)]
      else if s = 5 then [(0x80, 0x9F), (0x80, 0xBF)]
      else if s = 6 then [(0x90, 0xBF), (0x80, 0xBF), (0x80, 0xBF)]
      else if s = 7 then [(0x80, 0xBF), (0x80, 0xBF), (0x80, 0xBF)]
      else [(0x80, 0x8F), (0x80, 0xBF), (0x80, 0xBF)])"

abbreviation live :: "nat \<Rightarrow> bool" where
  "live s \<equiv> s < 9 \<and> s \<noteq> 1"

lemma next_state_less: "s < 9 \<Longrightarrow> next_state s b < 9"
proof -
  have "\<forall>t \<in> set [0..<12]. ([0, 1, 2, 3, 5, 8, 7, 1, 1, 1, 4, 6] :: nat list) ! t < 9" by code_simp
  then have "([0, 1, 2, 3, 5, 8, 7, 1, 1, 1, 4, 6] :: nat list) ! byte_class b < 9"
    unfolding set_upt using byte_class_less [of b] by (metis atLeastLessThan_iff le0)
  then show ?thesis by (simp add: next_state_def trans_def cont_next_def)
qed

lemma next_state_reject [simp]: "next_state 1 b = 1" "next_state (Suc 0) b = Suc 0"
  by (simp_all add: next_state_def trans_def)

text \<open>One step of the automaton is one step of the reference.\<close>

lemma next_state_0:
  "b < 256 \<Longrightarrow> lead b = (if next_state 0 b = 1 then None else Some (ranges_of (next_state 0 b)))"
  by (auto simp: next_state_def trans_def byte_class_def lead_def ranges_of_def)

lemma byte_class_cont:
  "byte_class b = 1 \<longleftrightarrow> 0x80 \<le> b \<and> b \<le> 0x8F"
  "byte_class b = Suc 0 \<longleftrightarrow> 0x80 \<le> b \<and> b \<le> 0x8F"
  "byte_class b = 9 \<longleftrightarrow> 0x90 \<le> b \<and> b \<le> 0x9F"
  "byte_class b = 7 \<longleftrightarrow> 0xA0 \<le> b \<and> b \<le> 0xBF"
  by (simp_all add: byte_class_def)

lemma next_state_pos:
  "next_state 2 b = (if 0x80 \<le> b \<and> b \<le> 0xBF then 0 else 1)"
  "next_state 3 b = (if 0x80 \<le> b \<and> b \<le> 0xBF then 2 else 1)"
  "next_state 4 b = (if 0xA0 \<le> b \<and> b \<le> 0xBF then 2 else 1)"
  "next_state 5 b = (if 0x80 \<le> b \<and> b \<le> 0x9F then 2 else 1)"
  "next_state 6 b = (if 0x90 \<le> b \<and> b \<le> 0xBF then 3 else 1)"
  "next_state 7 b = (if 0x80 \<le> b \<and> b \<le> 0xBF then 3 else 1)"
  "next_state 8 b = (if 0x80 \<le> b \<and> b \<le> 0x8F then 3 else 1)"
  by (auto simp: next_state_def trans_def cont_next_def byte_class_cont)

lemma next_state_cont:
  "s \<in> {2, 3, 4, 5, 6, 7, 8} \<Longrightarrow>
   spec_step (ranges_of s) b = (if next_state s b = 1 then None else Some (ranges_of (next_state s b)))"
  by (elim insertE emptyE; simp add: next_state_pos ranges_of_def)

lemma next_state_sim:
  assumes "live s" and "b < 256"
  shows "spec_step (ranges_of s) b
    = (if next_state s b = 1 then None else Some (ranges_of (next_state s b)))"
proof (cases "s = 0")
  case True
  with next_state_0 [OF assms(2)] show ?thesis by (simp add: ranges_of_def)
next
  case False
  with assms have "s \<in> {2, 3, 4, 5, 6, 7, 8}" by auto
  with next_state_cont show ?thesis by blast
qed

lemma ranges_of_Nil: "ranges_of s = [] \<longleftrightarrow> s = 0"
  by (simp add: ranges_of_def)

section \<open>Counting code points\<close>

lemma spec_step_sim:
  assumes "live s" and "b < 256"
  shows "next_state s b = 1 \<Longrightarrow> spec_step (ranges_of s) b = None"
    and "next_state s b \<noteq> 1 \<Longrightarrow> spec_step (ranges_of s) b = Some (ranges_of (next_state s b))"
  by (simp_all add: next_state_sim [OF assms])

lemma decode_pair:
  assumes "s < 9"
  obtains cp' where "decode s cp (byte_of c) = (next_state s (byte_of c), cp')"
  using decode_state [OF assms byte_of_less, of cp c] by (metis prod.collapse)

lemma count_loop_wf:
  "s < 9 \<Longrightarrow> fst (count_loop s cp n str) = 0 \<longleftrightarrow> s \<noteq> 1 \<and> wf_from (ranges_of s) str"
proof (induction str arbitrary: s cp n)
  case Nil
  then show ?case by (auto simp: ranges_of_Nil)
next
  case (Cons c str)
  let ?t = "next_state s (byte_of c)"
  obtain cp' where d: "decode s cp (byte_of c) = (?t, cp')" using decode_pair [OF Cons.prems] .
  have IH: "fst (count_loop s cp n (c # str)) = 0 \<longleftrightarrow> ?t \<noteq> 1 \<and> wf_from (ranges_of ?t) str"
    using Cons.IH [OF next_state_less [OF Cons.prems]] d by simp
  show ?case
  proof (cases "s = 1")
    case True
    with IH show ?thesis by simp
  next
    case False
    with IH Cons.prems spec_step_sim [of s "byte_of c"] show ?thesis
      by (cases "?t = 1") simp_all
  qed
qed

lemma lead_bytes_Cons:
  "lead_bytes (c # s) = (if 0x80 \<le> byte_of c \<and> byte_of c \<le> 0xBF then lead_bytes s else Suc (lead_bytes s))"
  by (simp add: lead_bytes_def)

lemma next_state_0_lead: "next_state 0 b \<noteq> 1 \<Longrightarrow> \<not> (0x80 \<le> b \<and> b \<le> 0xBF)"
proof
  assume "next_state 0 b \<noteq> 1" and b: "0x80 \<le> b \<and> b \<le> 0xBF"
  moreover from b have "byte_class b \<in> {1, 9, 7}" by (auto simp: byte_class_def)
  then have "trans 0 (byte_class b) = 1" by (auto simp: trans_def)
  ultimately show False by (simp add: next_state_def)
qed

lemma next_state_pos_cont:
  assumes "live s" "s \<noteq> 0" "next_state s b \<noteq> 1"
  shows "0x80 \<le> b \<and> b \<le> 0xBF"
proof -
  have "s \<in> {2, 3, 4, 5, 6, 7, 8}" using assms by auto
  then show ?thesis using assms(3) by (elim insertE emptyE; simp add: next_state_pos split: if_splits)
qed

lemma count_loop_count:
  "live s \<Longrightarrow> wf_from (ranges_of s) str \<Longrightarrow>
   snd (count_loop s cp n str) = n + lead_bytes str + (if s = 0 then 0 else 1)"
proof (induction str arbitrary: s cp n)
  case Nil
  then show ?case by (simp add: ranges_of_Nil lead_bytes_def)
next
  case (Cons c str)
  let ?t = "next_state s (byte_of c)"
  have less: "s < 9" using Cons.prems by simp
  obtain cp' where d: "decode s cp (byte_of c) = (?t, cp')" using decode_pair [OF less] .
  have t: "?t \<noteq> 1" "wf_from (ranges_of ?t) str"
    using Cons.prems spec_step_sim [of s "byte_of c"] by (cases "?t = 1"; simp)+
  then have IH: "snd (count_loop ?t cp' n' str) = n' + lead_bytes str + (if ?t = 0 then 0 else 1)" for n'
    using Cons.IH [of ?t] next_state_less [OF less] by simp
  show ?case
  proof (cases "s = 0")
    case True
    with next_state_0_lead t(1) have "\<not> (0x80 \<le> byte_of c \<and> byte_of c \<le> 0xBF)" by blast
    with IH d True show ?thesis by (simp add: lead_bytes_Cons)
  next
    case False
    with next_state_pos_cont [of s "byte_of c"] t(1) Cons.prems
    have "0x80 \<le> byte_of c \<and> byte_of c \<le> 0xBF" by blast
    with IH d False show ?thesis by (simp add: lead_bytes_Cons)
  qed
qed

section \<open>Code points\<close>

lemma and_63: "(b :: nat) AND 63 = b mod 64"
proof -
  have "b AND mask 6 = b mod 2 ^ 6" by (simp only: take_bit_eq_mask [symmetric] take_bit_eq_mod)
  then show ?thesis by (simp add: mask_eq_exp_minus_1)
qed

lemma or_shift: "(b :: nat) < 64 \<Longrightarrow> b OR push_bit 6 c = b + 64 * c"
proof -
  assume b: "b < 64"
  have "take_bit 6 b AND push_bit 6 c = 0" by (simp add: bit_eq_iff bit_simps)
  moreover have "take_bit 6 b = b" using b by (simp add: take_bit_eq_mod)
  ultimately have "b + push_bit 6 c = b OR push_bit 6 c"
    by (intro disjunctive_add_eq_or) simp
  then show ?thesis by (simp add: push_bit_eq_mult)
qed

lemma drop_bit_ff: "drop_bit t 0xff AND b = (if t \<le> 8 then b mod 2 ^ (8 - t) else 0)" for b :: nat
proof -
  have ff: "(0xff :: nat) = mask 8" by (simp add: mask_eq_exp_minus_1)
  have "drop_bit t (mask 8 :: nat) = mask (8 - t)"
    by (simp add: drop_bit_mask_eq)
  then show ?thesis
    unfolding ff by (simp add: and.commute [of "mask _"] take_bit_eq_mask [symmetric] take_bit_eq_mod)
qed

text \<open>The step in plain arithmetic.\<close>

lemma decode_arith:
  "decode s cp b = (let t = utf8d ! b in
     (utf8d ! (256 + s * 16 + t),
      if s \<noteq> 0 then b mod 64 + (64 * cp) mod 2 ^ 32
      else if t \<le> 8 then b mod 2 ^ (8 - t) else 0))"
proof -
  have "take_bit 32 (push_bit 6 cp) = push_bit 6 (take_bit 26 cp)"
    by (simp add: take_bit_push_bit)
  moreover have "64 * take_bit 26 cp = (64 * cp) mod 2 ^ 32"
    by (simp add: take_bit_eq_mod mult_mod_right)
  ultimately show ?thesis
    by (simp add: decode_def Let_def and_63 or_shift drop_bit_ff)
qed

lemma decode_eval:
  "s < 9 \<Longrightarrow> b < 256 \<Longrightarrow> decode s cp b =
     (trans s (byte_class b),
      if s \<noteq> 0 then b mod 64 + (64 * cp) mod 2 ^ 32
      else if byte_class b \<le> 8 then b mod 2 ^ (8 - byte_class b) else 0)"
  by (simp add: decode_arith Let_def utf8d_class utf8d_trans byte_class_less)

lemma decode_cont:
  assumes "s \<noteq> 0" and "cp < 2 ^ 26"
  shows "snd (decode s cp b) = b mod 64 + 64 * cp"
  using assms by (simp add: decode_arith)

definition lead_val :: "nat \<Rightarrow> nat" where
  "lead_val b = (if b \<le> 0x7F then b else if b \<le> 0xDF then b - 0xC0
     else if b \<le> 0xEF then b - 0xE0 else b - 0xF0)"

lemma decode_lead:
  assumes "b < 256" and "next_state 0 b \<noteq> 1"
  shows "snd (decode 0 cp b) = lead_val b"
proof -
  have "list_all (\<lambda>b. trans 0 (byte_class b) \<noteq> 1 \<longrightarrow>
      (if byte_class b \<le> 8 then b mod 2 ^ (8 - byte_class b) else 0) = lead_val b) [0..<256]"
    by code_simp
  then have "(if byte_class b \<le> 8 then b mod 2 ^ (8 - byte_class b) else 0) = lead_val b"
    using assms unfolding list_all_iff set_upt next_state_def by (metis atLeastLessThan_iff le0)
  then show ?thesis using assms(1) by (simp add: decode_def Let_def utf8d_class drop_bit_ff)
qed

text \<open>
  In state \<open>s\<close>, with \<open>k\<close> bytes of an unfinished sequence read, the accumulated value is in
  these bounds; and a finished sequence of \<open>n\<close> bytes has a code point of \<open>n\<close> bytes.
\<close>

definition pinv :: "nat \<Rightarrow> nat \<Rightarrow> nat \<Rightarrow> bool" where
  "pinv s k cp \<longleftrightarrow>
     (s = 0 \<and> k = 0)
   \<or> (s = 2 \<and> (k = 1 \<and> cp \<in> {2..31} \<or> k = 2 \<and> cp \<in> {0x20..0x3ff} \<or> k = 3 \<and> cp \<in> {0x400..0x43ff}))
   \<or> (s = 3 \<and> (k = 1 \<and> cp \<in> {1..15} \<or> k = 2 \<and> cp \<in> {0x10..0x10f}))
   \<or> (s = 4 \<and> k = 1 \<and> cp = 0) \<or> (s = 5 \<and> k = 1 \<and> cp = 13) \<or> (s = 6 \<and> k = 1 \<and> cp = 0)
   \<or> (s = 7 \<and> k = 1 \<and> cp \<in> {1..3}) \<or> (s = 8 \<and> k = 1 \<and> cp = 4)"

definition cp_len :: "nat \<Rightarrow> nat \<Rightarrow> bool" where
  "cp_len n cp \<longleftrightarrow> n = 1 \<and> cp \<le> 0x7F \<or> n = 2 \<and> cp \<in> {0x80..0x7FF}
     \<or> n = 3 \<and> cp \<in> {0x800..0xFFFF} \<or> n = 4 \<and> cp \<in> {0x10000..0x10FFFF}"

lemma pinv_live: "pinv s k cp \<Longrightarrow> live s \<and> (s = 0 \<longleftrightarrow> k = 0) \<and> (s \<noteq> 0 \<longrightarrow> cp < 2 ^ 26)"
  unfolding pinv_def by (elim disjE conjE) simp_all

lemma mod_64_cont: "0x80 \<le> b \<Longrightarrow> b \<le> 0xBF \<Longrightarrow> b mod 64 = b - 0x80" for b :: nat
proof -
  assume "0x80 \<le> b" "b \<le> 0xBF"
  then have "b = (b - 0x80) + 2 * 64" "b - 0x80 < 64" by auto
  then show "b mod 64 = b - 0x80" by (metis mod_less mod_mult_self1)
qed

text \<open>What one step does to the bounds: a reject, a finished sequence, or a longer one.\<close>

definition step_ok :: "nat \<Rightarrow> nat \<Rightarrow> nat \<Rightarrow> bool" where
  "step_ok n s cp \<longleftrightarrow> s = 1 \<or> s = 0 \<and> cp_len n cp \<or> s \<noteq> 0 \<and> pinv s n cp"

lemma step_ok_lead:
  assumes "b < 256"
  shows "step_ok 1 (next_state 0 b) (lead_val b)"
proof -
  have "list_all (\<lambda>b. step_ok 1 (trans 0 (byte_class b)) (lead_val b)) [0..<256]"
    unfolding step_ok_def pinv_def cp_len_def atLeastAtMost_iff by code_simp
  then show ?thesis
    using assms unfolding list_all_iff set_upt next_state_def by (metis atLeastLessThan_iff le0)
qed

lemma step_ok_cont:
  assumes "pinv s k cp" and "s \<noteq> 0"
  shows "step_ok (Suc k) (next_state s b) (b mod 64 + 64 * cp)"
proof (cases "next_state s b = 1")
  case True
  then show ?thesis by (simp add: step_ok_def)
next
  case False
  have "0x80 \<le> b \<and> b \<le> 0xBF"
    using next_state_pos_cont [of s b] pinv_live [OF assms(1)] assms(2) False by blast
  then have m: "b mod 64 = b - 0x80" and b: "0x80 \<le> b" "b \<le> 0xBF" by (simp_all add: mod_64_cont)
  from assms False show ?thesis
    unfolding m pinv_def [of s]
    using b by (elim disjE conjE; simp add: next_state_pos step_ok_def pinv_def cp_len_def split: if_splits; linarith?)
qed

lemma decode_step:
  assumes "pinv s k cp" and "b < 256"
  shows "\<exists>cp'. decode s cp b = (next_state s b, cp') \<and> step_ok (Suc k) (next_state s b) cp'
    \<and> (s = 0 \<and> next_state s b = 0 \<longrightarrow> cp' = b)"
proof -
  have s: "s < 9" and k: "s = 0 \<longleftrightarrow> k = 0" and cp: "s \<noteq> 0 \<longrightarrow> cp < 2 ^ 26"
    using pinv_live [OF assms(1)] by auto
  have f: "fst (decode s cp b) = next_state s b" using decode_state [OF s assms(2)] .
  show ?thesis
  proof (cases "s = 0")
    case s0: True
    show ?thesis
    proof (cases "next_state s b = 1")
      case True
      with f s0 show ?thesis
        by (intro exI [of _ "snd (decode s cp b)"]) (simp add: step_ok_def prod_eq_iff)
    next
      case False
      then have "snd (decode s cp b) = lead_val b" using decode_lead [OF assms(2)] s0 by simp
      moreover have "step_ok (Suc k) (next_state s b) (lead_val b)"
        using step_ok_lead [OF assms(2)] s0 k by simp
      moreover have "next_state 0 b = 0 \<Longrightarrow> lead_val b = b"
        using next_state_0 [OF assms(2)] by (auto simp: lead_def lead_val_def ranges_of_def split: if_splits)
      ultimately show ?thesis using f s0
        by (intro exI [of _ "lead_val b"]) (simp add: prod_eq_iff)
    qed
  next
    case False
    with cp have "snd (decode s cp b) = b mod 64 + 64 * cp" by (simp add: decode_cont)
    with f False step_ok_cont [OF assms(1) False, of b] show ?thesis
      by (intro exI [of _ "b mod 64 + 64 * cp"]) (simp add: prod_eq_iff)
  qed
qed

section \<open>The filter\<close>

abbreviation clean :: "cstring \<Rightarrow> bool" where
  "clean s \<equiv> \<forall>c \<in> set s. 0x20 \<le> byte_of c"

text \<open>The last \<open>k\<close> bytes seen are an unfinished sequence that leads to state \<open>s\<close>.\<close>

definition pending :: "cstring \<Rightarrow> nat \<Rightarrow> nat \<Rightarrow> bool" where
  "pending seen k s \<longleftrightarrow> k \<le> length seen
     \<and> (\<forall>str. wf_from [] (rev (take k seen) @ str) = wf_from (ranges_of s) str)
     \<and> (\<forall>c \<in> set (take k seen). 0x80 \<le> byte_of c)"

lemma pending_0: "pending seen 0 0"
  by (simp add: pending_def ranges_of_def)

lemma pending_wf:
  assumes "pending seen k s" "live s" "next_state s (byte_of c) \<noteq> 1"
  shows "wf_from [] (rev (take k seen) @ c # str) = wf_from (ranges_of (next_state s (byte_of c))) str"
  using assms spec_step_sim(2) [of s "byte_of c"] by (simp add: pending_def)

lemma pending_Suc:
  assumes "pending seen k s" "live s" "next_state s (byte_of c) \<noteq> 1" "0x80 \<le> byte_of c"
  shows "pending (c # seen) (Suc k) (next_state s (byte_of c))"
  using assms pending_wf [OF assms(1-3)] by (auto simp: pending_def)

lemma next_state_high:
  assumes "live s" "next_state s b \<noteq> 1" "next_state s b \<noteq> 0 \<or> s \<noteq> 0" "b < 256"
  shows "0x80 \<le> b"
proof (cases "s = 0")
  case True
  with assms next_state_0 [of b] show ?thesis
    by (auto simp: lead_def ranges_of_Nil dest!: sym [of "[]"] split: if_splits)
next
  case False
  with assms next_state_pos_cont show ?thesis by blast
qed

text \<open>What the accepting step appends: the whole sequence, or nothing for a control character.\<close>

lemma accepted_piece:
  assumes "cp_len (Suc k) cp" and "k \<le> length seen" and "k = 0 \<longrightarrow> cp = byte_of c"
  shows "accepted cp seen c
    = Some (if k = 0 \<and> byte_of c < 0x20 then [] else rev (take k seen) @ [c])"
proof -
  consider "k = 0" "cp \<le> 0x7F" | "k = 1" "0x80 \<le> cp" "cp \<le> 0x7FF"
    | "k = 2" "0x800 \<le> cp" "cp \<le> 0xFFFF" | "k = 3" "0x10000 \<le> cp" "cp \<le> 0x10FFFF"
    using assms(1) by (auto simp: cp_len_def)
  then show ?thesis
    by cases (use assms in \<open>auto simp: accepted_def behind_def\<close>)
qed

lemma filter_loop_safe:
  assumes "pinv s k cp" and "pending seen k s"
  shows "\<exists>out. filter_loop s cp seen str room = Some out \<and> wf_from [] out \<and> clean out
    \<and> length out \<le> k + min (length str) room"
  using assms
proof (induction s cp seen str room arbitrary: k rule: filter_loop.induct)
  case (1 s cp seen room)
  then show ?case by simp
next
  case (2 s cp seen c str room)
  let ?t = "next_state s (byte_of c)"
  obtain cp' where d: "decode s cp (byte_of c) = (?t, cp')" and ok: "step_ok (Suc k) ?t cp'"
    and c: "s = 0 \<and> ?t = 0 \<longrightarrow> cp' = byte_of c"
    using decode_step [OF "2.prems"(1) byte_of_less] by blast
  have live: "live s" and k: "s = 0 \<longleftrightarrow> k = 0" using pinv_live [OF "2.prems"(1)] by auto
  have pk: "k \<le> length seen" using "2.prems"(2) by (simp add: pending_def)
  have p0: "pinv 0 0 x" for x by (simp add: pinv_def)
  have q: "wf_from [] (CHR ''?'' # out) = wf_from [] out" for out by (simp add: lead_def)
  consider (full) "room = 0" | (acc) "room \<noteq> 0" "?t = 0" | (again) "room \<noteq> 0" "?t = 1" "s \<noteq> 0"
    | (rej) "room \<noteq> 0" "?t = 1" "s = 0" | (more) "room \<noteq> 0" "?t \<noteq> 0" "?t \<noteq> 1" by blast
  then show ?case
  proof cases
    case full
    then show ?thesis by simp
  next
    case acc
    let ?p = "if k = 0 \<and> byte_of c < 0x20 then [] else rev (take k seen) @ [c]"
    have pc: "accepted cp' seen c = Some ?p"
      using ok acc c k pk by (intro accepted_piece) (auto simp: step_ok_def pinv_def)
    obtain out where out: "filter_loop 0 cp' (c # seen) str (room - 1) = Some out"
      "wf_from [] out" "clean out" "length out \<le> min (length str) (room - 1)"
      using "2.IH"(1) [of "(?t, cp')" ?t cp' ?p 0] acc d p0 pending_0 pc by auto
    moreover have "wf_from [] (?p @ out)"
      using pending_wf [OF "2.prems"(2) live, of c out] acc out(2) by (simp add: ranges_of_def)
    moreover have "clean ?p"
      using "2.prems"(2) next_state_high [OF live _ _ byte_of_less, of c] acc k
      by (auto simp: pending_def)
    ultimately show ?thesis using acc d pk pc out by auto
  next
    case again
    obtain out where "filter_loop 0 cp' seen (c # str) room = Some out"
      "wf_from [] out" "clean out" "length out \<le> min (Suc (length str)) room"
      using "2.IH"(2) [of "(?t, cp')" ?t cp' 0] again d p0 pending_0 by auto
    with again d k q show ?thesis by auto
  next
    case rej
    obtain out where "filter_loop 0 cp' (c # seen) str (room - 1) = Some out"
      "wf_from [] out" "clean out" "length out \<le> min (length str) (room - 1)"
      using "2.IH"(3) [of "(?t, cp')" ?t cp' 0] rej d p0 pending_0 by auto
    with rej d k q show ?thesis by auto
  next
    case more
    have "pending (c # seen) (Suc k) ?t"
      using more next_state_high [OF live _ _ byte_of_less, of c]
      by (intro pending_Suc [OF "2.prems"(2) live]) auto
    moreover have "pinv ?t (Suc k) cp'" using ok more by (simp add: step_ok_def)
    ultimately obtain out where "filter_loop ?t cp' (c # seen) str (room - 1) = Some out"
      "wf_from [] out" "clean out" "length out \<le> Suc k + min (length str) (room - 1)"
      using "2.IH"(4) [of "(?t, cp')" ?t cp' "Suc k"] more d by auto
    with more d show ?thesis by auto
  qed
qed

text \<open>Clean, well-formed text goes through unchanged.\<close>

lemma filter_loop_id:
  assumes "pinv s k cp" and "pending seen k s" and "wf_from (ranges_of s) str"
    and "clean str" and "length str \<le> room"
  shows "filter_loop s cp seen str room = Some (rev (take k seen) @ str)"
  using assms
proof (induction str arbitrary: s k cp seen room)
  case Nil
  then have "s = 0" by (simp add: ranges_of_Nil)
  with pinv_live [OF Nil.prems(1)] show ?case by simp
next
  case (Cons c str)
  let ?t = "next_state s (byte_of c)"
  obtain cp' where d: "decode s cp (byte_of c) = (?t, cp')" and ok: "step_ok (Suc k) ?t cp'"
    and c: "s = 0 \<and> ?t = 0 \<longrightarrow> cp' = byte_of c"
    using decode_step [OF Cons.prems(1) byte_of_less] by blast
  have live: "live s" and k: "s = 0 \<longleftrightarrow> k = 0" using pinv_live [OF Cons.prems(1)] by auto
  have t: "?t \<noteq> 1" "wf_from (ranges_of ?t) str"
    using Cons.prems(3) live spec_step_sim [of s "byte_of c"] by (cases "?t = 1"; simp)+
  show ?case
  proof (cases "?t = 0")
    case True
    have "accepted cp' seen c = Some (rev (take k seen) @ [c])"
      using accepted_piece [of k cp' seen c] ok True c k Cons.prems(2,4)
      by (auto simp: step_ok_def pinv_def pending_def)
    moreover have "filter_loop 0 cp' (c # seen) str (room - 1) = Some str"
      using Cons.IH [of 0 0 cp' "c # seen" "room - 1"] True t Cons.prems pending_0
      by (simp add: pinv_def)
    ultimately show ?thesis using True d Cons.prems by simp
  next
    case False
    have "pending (c # seen) (Suc k) ?t"
      using False t next_state_high [OF live _ _ byte_of_less, of c]
      by (intro pending_Suc [OF Cons.prems(2) live]) auto
    moreover have "pinv ?t (Suc k) cp'" using ok False t by (simp add: step_ok_def)
    ultimately have "filter_loop ?t cp' (c # seen) str (room - 1) = Some (rev (take k seen) @ c # str)"
      using Cons.IH [of ?t "Suc k" cp' "c # seen" "room - 1"] t Cons.prems by simp
    with False t d Cons.prems show ?thesis by simp
  qed
qed

text \<open>What the filter stores.\<close>

lemma filtertext_out:
  "\<exists>out. filtertext src len = Some out \<and> wf_utf8 out \<and> (\<forall>c \<in> set out. 0x20 \<le> byte_of c)
     \<and> SEP \<notin> set out \<and> length out \<le> min (length src) len"
proof -
  from filter_loop_safe [of 0 0 0 "[]" src len] pending_0 obtain out where
    out: "filtertext src len = Some out" "wf_utf8 out" "clean out" "length out \<le> min (length src) len"
    by (auto simp: filtertext_def wf_utf8_def pinv_def)
  moreover have "byte_of SEP < 0x20" by simp
  then have "SEP \<notin> set out" using out(3) by (meson not_less)
  ultimately show ?thesis by blast
qed

section \<open>Properties\<close>

text \<open>
  C31 (the decoder decides well-formedness): \<open>countCodePoints\<close> returns 0 exactly for
  well-formed UTF-8 as the Unicode standard defines it (no overlong form, no surrogate,
  nothing above U+10FFFF), and then its count is the number of code points of the text.
\<close>

theorem countCodePoints_correct:
  "(fst (countCodePoints s) = 0 \<longleftrightarrow> wf_utf8 s)
   \<and> (if wf_utf8 s then snd (countCodePoints s) = lead_bytes s else fst (countCodePoints s) = 1)"
proof -
  have "fst (count_loop t cp n str) \<in> {0, 1}" for t cp n str
    by (induction str arbitrary: t cp n) (auto split: prod.split)
  then show ?thesis
    using count_loop_wf [of 0 0 0 s] count_loop_count [of 0 s 0 0]
    by (auto simp: countCodePoints_def wf_utf8_def ranges_of_def)
qed

text \<open>
  C32 (filtered text is safe): \<open>filtertext\<close> never reads before the text, never stores more
  than \<open>len\<close> bytes, and what it stores is well-formed UTF-8 without control characters; in
  particular a filtered message never contains the field separator.
\<close>

theorem filtertext_safe:
  "\<exists>out. filtertext src len = Some out \<and> wf_utf8 out \<and> (\<forall>c \<in> set out. 0x20 \<le> byte_of c)
     \<and> SEP \<notin> set out \<and> length out \<le> min (length src) len"
  by (rule filtertext_out)

text \<open>Witness: a stray continuation byte, a control character and a cut-off sequence.\<close>

theorem filtertext_safe_witness:
  "\<exists>out. filtertext [CHR ''h'', CHR 0xA0, SEP, CHR 0xE2, CHR 0x82] 5 = Some out
     \<and> wf_utf8 out \<and> out = ''h?'' \<and> length out \<le> 5"
proof -
  have "filtertext [CHR ''h'', CHR 0xA0, SEP, CHR 0xE2, CHR 0x82] 5 = Some ''h?''"
    by (simp add: filtertext_def decode_eval accepted_def trans_def byte_class_def cont_next_def)
  with filtertext_safe [of "[CHR ''h'', CHR 0xA0, SEP, CHR 0xE2, CHR 0x82]" 5] show ?thesis by auto
qed

text \<open>
  Filtering keeps good text: well-formed UTF-8 without control characters that fits is
  stored unchanged, so filtering is idempotent.
\<close>

lemma filtertext_id:
  assumes "wf_utf8 s" and "\<forall>c \<in> set s. 0x20 \<le> byte_of c" and "length s \<le> len"
  shows "filtertext s len = Some s"
  using filter_loop_id [of 0 0 0 "[]" s len] pending_0 assms
  by (simp add: filtertext_def wf_utf8_def pinv_def ranges_of_def)

text \<open>Witness: a letter, the two bytes of U+00E9 and the three of U+20AC.\<close>

lemma filtertext_id_example:
  "filtertext [CHR ''a'', CHR 0xC3, CHR 0xA9, CHR 0xE2, CHR 0x82, CHR 0xAC] 6
    = Some [CHR ''a'', CHR 0xC3, CHR 0xA9, CHR 0xE2, CHR 0x82, CHR 0xAC]"
proof -
  have "wf_utf8 [CHR ''a'', CHR 0xC3, CHR 0xA9, CHR 0xE2, CHR 0x82, CHR 0xAC]" by code_simp
  from filtertext_id [OF this, of 6] show ?thesis by simp
qed

end
