(* ===== verification/Send.thy ===== *)
theory Send
  imports Tables Utf8 "HOL-Library.Sublist"
begin

text \<open>
  \<open>server/send.c\<close>: building the packets for a client and sending them. A packet for a real
  user is appended to \<open>out\<close> as the bytes given to \<open>pktserv_send\<close>; a packet for the server
  itself (slot \<open>NICKSERV\<close>) is looked at at once: a beep is answered, a personal message is
  run as a command. Running a command is the rest of the server, so it is an argument
  \<open>cmdmsg\<close> of the senders that can reach it, and so is the answer to a beep.
\<close>

section \<open>Packets\<close>

abbreviation (input) ICB_M_LOGINOK :: char where "ICB_M_LOGINOK \<equiv> CHR ''a''"
abbreviation (input) ICB_M_OPEN :: char where "ICB_M_OPEN \<equiv> CHR ''b''"
abbreviation (input) ICB_M_PERSONAL :: char where "ICB_M_PERSONAL \<equiv> CHR ''c''"
abbreviation (input) ICB_M_STATUS :: char where "ICB_M_STATUS \<equiv> CHR ''d''"
abbreviation (input) ICB_M_ERROR :: char where "ICB_M_ERROR \<equiv> CHR ''e''"
abbreviation (input) ICB_M_IMPORTANT :: char where "ICB_M_IMPORTANT \<equiv> CHR ''f''"
abbreviation (input) ICB_M_EXIT :: char where "ICB_M_EXIT \<equiv> CHR ''g''"
abbreviation (input) ICB_M_CMDOUT :: char where "ICB_M_CMDOUT \<equiv> CHR ''i''"
abbreviation (input) ICB_M_PROTO :: char where "ICB_M_PROTO \<equiv> CHR ''j''"
abbreviation (input) ICB_M_BEEP :: char where "ICB_M_BEEP \<equiv> CHR ''k''"
abbreviation (input) ICB_M_PING :: char where "ICB_M_PING \<equiv> CHR ''l''"

text \<open>
  \<open>packetbuffer\<close> from index 1 on, filled by \<open>snprintf\<close> with room for \<open>MAX_PKT_LEN - 1\<close>
  bytes, and the whole packet as it goes to the socket layer: the length byte, the text and
  its NUL.
\<close>

definition packet_text :: "char \<Rightarrow> cstring \<Rightarrow> cstring" where
  "packet_text cmd rest = snprintf (MAX_PKT_LEN - 1) (cmd # rest)"

definition frame_packet :: "cstring \<Rightarrow> cstring" where
  "frame_packet body = char_of (length body + 1) # body @ [CHR 0x00]"

text \<open>
  \<open>filtertext\<close> into a buffer of \<open>n\<close> bytes that is then read as a C string: if the filter
  fills the buffer there is no NUL, and reading it runs on.
\<close>

definition ftext :: "nat \<Rightarrow> cstring \<Rightarrow> srv \<Rightarrow> cstring \<times> srv" where
  "ftext n s st =
     (let t = the (filtertext s n)
      in (t, st\<lparr>overread := overread st \<or> n \<le> length t\<rparr>))"

section \<open>\<open>doSend\<close>\<close>

type_synonym cmd_fun = "int \<Rightarrow> cstring \<Rightarrow> srv \<Rightarrow> srv"
type_synonym beep_fun = "int \<Rightarrow> srv \<Rightarrow> srv"

text \<open>The end of \<open>doSend\<close>, for a real user.\<close>

definition transmit :: "int \<Rightarrow> cstring \<Rightarrow> srv \<Rightarrow> srv" where
  "transmit dest body st =
     (if S_kill st ! nat dest > 0 then st
      else let st = st\<lparr>out := out st @ [(dest, frame_packet body)]\<rparr> in
        if send_result st dest = -2 then
          upd_u dest (\<lambda>u. u\<lparr>n_notifies := nl_clear (n_notifies u), s_notifies := nl_clear (s_notifies u)\<rparr>)
            (st\<lparr>S_kill := (S_kill st)[nat dest := S_kill st ! nat dest + 1]\<rparr>)
        else st)"

definition doSend :: "beep_fun \<Rightarrow> cmd_fun \<Rightarrow> int \<Rightarrow> int \<Rightarrow> cstring \<Rightarrow> srv \<Rightarrow> srv" where
  "doSend autoBeep cmdmsg from dest body st =
     (if dest < 0 then st
      else if dest \<ge> MAX_REAL_USERS st then
        (if take 1 body = [ICB_M_BEEP] then autoBeep from st
         else if take 1 body = [ICB_M_PERSONAL] then
           (let fs = fst (split (CHR '' '' # body));
                st = flag_fault (length fs > MAX_FIELDS) (st\<lparr>pfields := store_fields (pfields st) fs\<rparr>);
                line = snprintf (MAX_PKT_DATA - 2)
                         (getword (field st 1) @ SEP # get_tail (field st 1))
            in cmdmsg from line st)
         else st)
      else if length body + 1 > MAX_PKT_LEN - 1 then
        (let body' = packet_text ICB_M_ERROR ''Cannot transmit packet: too large''
         in if from < 0 \<or> from \<ge> MAX_REAL_USERS st then st else transmit from body' st)
      else transmit dest body st)"

text \<open>Packets of the other types never reach the two functions.\<close>

definition doSend0 :: "int \<Rightarrow> cstring \<Rightarrow> srv \<Rightarrow> srv" where
  "doSend0 dest body st = doSend (\<lambda>_ st. st) (\<lambda>_ _ st. st) (-1) dest body st"

section \<open>The senders\<close>

definition senderror :: "int \<Rightarrow> cstring \<Rightarrow> srv \<Rightarrow> srv" where
  "senderror dest message st =
     (let (msgbuf, st) = ftext MAX_PKT_DATA message st
      in doSend0 dest (packet_text ICB_M_ERROR msgbuf) st)"

definition MAX_STATUS_LEN :: nat where "MAX_STATUS_LEN = 20"

definition sendstatus :: "int \<Rightarrow> cstring \<Rightarrow> cstring \<Rightarrow> srv \<Rightarrow> srv" where
  "sendstatus dest status message st =
     (let (statusbuf, st) = ftext (MAX_STATUS_LEN + 1) status st;
          (msgbuf, st) = ftext (MAX_PKT_DATA - MAX_STATUS_LEN - 1) message st
      in doSend0 dest (packet_text ICB_M_STATUS (statusbuf @ SEP # msgbuf)) st)"

text \<open>The address and nickname of a user in the form the hush lists are matched against.\<close>

definition addr_of :: "srv \<Rightarrow> int \<Rightarrow> cstring" where
  "addr_of st n = ucaseit (snprintf 255 (u_loginid (usr st n) @ ''@'' @ u_nodeid (usr st n)))"

definition nick_of :: "srv \<Rightarrow> int \<Rightarrow> cstring" where
  "nick_of st n = ucaseit (snprintf (MAX_NICKLEN + 1) (u_nickname (usr st n)))"

definition sendperson :: "beep_fun \<Rightarrow> cmd_fun \<Rightarrow> int \<Rightarrow> int \<Rightarrow> cstring \<Rightarrow> srv \<Rightarrow> srv" where
  "sendperson autoBeep cmdmsg from dest message st =
     (let st = need_u dest (need_u from st);
          (nickbuf, st) = ftext (MAX_NICKLEN + 1) (u_nickname (usr st from)) st;
          (msgbuf, st) = ftext (MAX_PKT_DATA - MAX_NICKLEN - 1) message st;
          one = addr_of st from;
          two = nick_of st from
      in if \<not> nl_match one (pri_s_hushed (usr st dest)) \<and> \<not> nl_match two (pri_n_hushed (usr st dest))
         then doSend autoBeep cmdmsg from dest
                (packet_text ICB_M_PERSONAL (nickbuf @ SEP # msgbuf))
                (st\<lparr>lpriv_id := (lpriv_id st)[nat dest := from]\<rparr>)
         else sendstatus from ''Bounce'' ''Message did not go through'' st)"

definition sendopen :: "int \<Rightarrow> int \<Rightarrow> cstring \<Rightarrow> srv \<Rightarrow> srv" where
  "sendopen from dest message st =
     (let st = need_u from st;
          (nickbuf, st) = ftext (MAX_NICKLEN + 1) (u_nickname (usr st from)) st;
          (msgbuf, st) = ftext (MAX_PKT_DATA - MAX_NICKLEN - 1) message st
      in doSend (\<lambda>_ st. st) (\<lambda>_ _ st. st) from dest (packet_text ICB_M_OPEN (nickbuf @ SEP # msgbuf)) st)"

definition sendexit :: "int \<Rightarrow> srv \<Rightarrow> srv" where
  "sendexit dest st = doSend0 dest (packet_text ICB_M_EXIT []) st"

definition sendping :: "int \<Rightarrow> cstring \<Rightarrow> srv \<Rightarrow> srv" where
  "sendping dest who st = doSend0 dest (packet_text ICB_M_PING who) st"

definition send_cmdend :: "int \<Rightarrow> cstring \<Rightarrow> srv \<Rightarrow> srv" where
  "send_cmdend dest message st =
     (let (msgbuf, st) = ftext (MAX_PKT_DATA - 4) message st
      in doSend0 dest (packet_text ICB_M_CMDOUT (''ec'' @ SEP # SEP # msgbuf)) st)"

definition sends_cmdout :: "int \<Rightarrow> cstring \<Rightarrow> srv \<Rightarrow> srv" where
  "sends_cmdout dest message st =
     (let (msgbuf, st) = ftext (MAX_PKT_DATA - 3) message st
      in doSend0 dest (packet_text ICB_M_CMDOUT (''co'' @ SEP # msgbuf)) st)"

definition send_person_stored :: "beep_fun \<Rightarrow> cmd_fun \<Rightarrow> int \<Rightarrow> cstring \<Rightarrow> cstring \<Rightarrow> srv \<Rightarrow> srv" where
  "send_person_stored autoBeep cmdmsg dest fromNick message st =
     (let (nickbuf, st) = ftext (MAX_NICKLEN + 1) fromNick st;
          (msgbuf, st) = ftext (MAX_PKT_DATA - MAX_NICKLEN - 1) message st
      in doSend autoBeep cmdmsg (-1) dest (packet_text ICB_M_PERSONAL (nickbuf @ SEP # msgbuf)) st)"

text \<open>\<open>autoBeep\<close> sends a personal packet, which does not need \<open>autoBeep\<close> again.\<close>

definition autoBeep :: "cmd_fun \<Rightarrow> int \<Rightarrow> srv \<Rightarrow> srv" where
  "autoBeep cmdmsg dest st =
     (let st = sendperson (\<lambda>_ st. st) cmdmsg (NICKSERV st) dest ''Beep yerself!'' st
      in upd_u (NICKSERV st) (\<lambda>u. u\<lparr>u_t_recv := now st\<rparr>) st)"

definition sendbeep :: "cmd_fun \<Rightarrow> int \<Rightarrow> int \<Rightarrow> srv \<Rightarrow> srv" where
  "sendbeep cmdmsg from dest st =
     (let st = need_u dest st in
      if u_nobeep (usr st dest) \<noteq> 0 then
        (let st = senderror from ''User has nobeep enabled.'' st
         in if u_nobeep (usr st dest) = 2
            then sendstatus dest ''No-Beep''
                   (u_nickname (usr st from) @ '' attempted (and failed) to beep you'') st
            else st)
      else doSend (autoBeep cmdmsg) cmdmsg from dest
             (packet_text ICB_M_BEEP (u_nickname (usr st from))) st)"

definition PROTO_LEVEL :: int where "PROTO_LEVEL = 1"

definition VERSION :: cstring where "VERSION = ''ICB Server v1.3.0''"

definition s_new_user :: "int \<Rightarrow> int \<Rightarrow> srv \<Rightarrow> srv" where
  "s_new_user n secure st =
     (if n < 0 \<or> n \<ge> MAX_USERS st then disconnect n st
      else let st = doSend0 n (packet_text ICB_M_PROTO
                      (dec_int PROTO_LEVEL @ SEP # thishost st @ SEP # VERSION)) st
           in case remotename st n of
                None \<Rightarrow> st
              | Some cp \<Rightarrow>
                  if cp = [] then st
                  else upd_u n (\<lambda>u. u\<lparr>u_nodeid := snprintf (MAX_NODELEN + 1) cp, u_secure := secure\<rparr>) st)"

definition send_loginok :: "int \<Rightarrow> srv \<Rightarrow> srv" where
  "send_loginok dest st = doSend0 dest (packet_text ICB_M_LOGINOK []) st"

definition sendimport :: "int \<Rightarrow> cstring \<Rightarrow> cstring \<Rightarrow> srv \<Rightarrow> srv" where
  "sendimport dest status message st =
     (let (statusbuf, st) = ftext (MAX_STATUS_LEN + 1) status st;
          (msgbuf, st) = ftext (MAX_PKT_DATA - MAX_STATUS_LEN - 1) message st
      in doSend0 dest (packet_text ICB_M_IMPORTANT (statusbuf @ SEP # msgbuf)) st)"

definition user_wline ::
    "int \<Rightarrow> cstring \<Rightarrow> cstring \<Rightarrow> int \<Rightarrow> int \<Rightarrow> int \<Rightarrow> cstring \<Rightarrow> cstring \<Rightarrow> cstring \<Rightarrow> srv \<Rightarrow> srv" where
  "user_wline dest md nick idle resp login user site name st =
     doSend0 dest (packet_text ICB_M_CMDOUT
       (''wl'' @ SEP # join_fields [md, nick, dec_int idle, dec_int resp, dec_int login, user, site, name])) st"

definition user_whead :: "int \<Rightarrow> srv \<Rightarrow> srv" where
  "user_whead dest st = doSend0 dest (packet_text ICB_M_CMDOUT ''wh'') st"

section \<open>What sending changes\<close>

text \<open>
  \<open>pktserv_send\<close> never returns -2 (see the theory on the packet layer), so the branch of
  \<open>doSend\<close> that marks a connection as dead is not taken, and a sender only appends to \<open>out\<close>.
\<close>

definition net_ok :: "srv \<Rightarrow> bool" where
  "net_ok st \<longleftrightarrow> (\<forall>i. send_result st i \<noteq> -2)"

definition sent_to :: "int \<Rightarrow> cstring \<Rightarrow> srv \<Rightarrow> (int \<times> cstring) list" where
  "sent_to dest body st =
     (if 0 \<le> dest \<and> dest < MAX_REAL_USERS st \<and> S_kill st ! nat dest \<le> 0
      then [(dest, frame_packet body)] else [])"

definition emit :: "int \<Rightarrow> cstring \<Rightarrow> bool \<Rightarrow> srv \<Rightarrow> srv" where
  "emit dest body r st = st\<lparr>out := out st @ sent_to dest body st, overread := overread st \<or> r\<rparr>"

lemma net_ok_simps [simp]:
  "net_ok (upd_u i f st) = net_ok st" "net_ok (upd_g i g st) = net_ok st"
  "net_ok (flag_fault b st) = net_ok st" "net_ok (need_u i st) = net_ok st"
  "net_ok (need_g i st) = net_ok st" "net_ok (emit d bd r st) = net_ok st"
  "net_ok (st\<lparr>lpriv_id := l\<rparr>) = net_ok st" "net_ok (st\<lparr>pfields := fs\<rparr>) = net_ok st"
  "net_ok (st\<lparr>is_booting := x\<rparr>) = net_ok st" "net_ok (st\<lparr>stats := s\<rparr>) = net_ok st"
  "net_ok (st\<lparr>overread := x\<rparr>) = net_ok st"
  by (simp_all add: net_ok_def upd_u_def upd_g_def flag_fault_def need_u_def need_g_def emit_def)

lemma emit_simps [simp]:
  "u_tab (emit d b r st) = u_tab st" "g_tab (emit d b r st) = g_tab st"
  "S_kill (emit d b r st) = S_kill st" "lpriv_id (emit d b r st) = lpriv_id st"
  "pfields (emit d b r st) = pfields st" "fault (emit d b r st) = fault st"
  "is_booting (emit d b r st) = is_booting st" "admin_pwd (emit d b r st) = admin_pwd st"
  "now (emit d b r st) = now st" "stats (emit d b r st) = stats st"
  "out (emit d b r st) = out st @ sent_to d b st" "overread (emit d b r st) \<longleftrightarrow> overread st \<or> r"
  "usr (emit d b r st) i = usr st i" "grp (emit d b r st) i = grp st i"
  by (simp_all add: emit_def usr_def grp_def)

lemma field_emit [simp]: "field (emit d b r st) i = field st i"
  by (simp add: field_def)

lemma find_emit [simp]:
  "find_group nm (emit d b r st) = find_group nm st" "find_user nm (emit d b r st) = find_user nm st"
  "find_empty_group (emit d b r st) = find_empty_group st"
  "count_users_in_group nm (emit d b r st) = count_users_in_group nm st"
  "check_auth i (emit d b r st) = check_auth i st"
  by (simp_all add: find_group_def find_user_def find_empty_group_def count_users_in_group_def check_auth_def)

lemma sent_to_cong:
  "u_tab st = u_tab st' \<Longrightarrow> S_kill st = S_kill st' \<Longrightarrow> sent_to d b st = sent_to d b st'"
  by (simp add: sent_to_def)

lemma sent_to_emit [simp]: "sent_to d b (emit d' b' r st) = sent_to d b st"
  by (rule sent_to_cong) simp_all

lemma length_packet_text: "length (packet_text c r) \<le> 254"
  by (simp add: packet_text_def snprintf_def)

lemma take1_packet_text [simp]: "take 1 (packet_text c r) = [c]" "take (Suc 0) (packet_text c r) = [c]"
  by (simp_all add: packet_text_def snprintf_def)

lemma doSend_emit:
  assumes "net_ok st" "c \<noteq> ICB_M_BEEP" "c \<noteq> ICB_M_PERSONAL"
  shows "doSend ab cb from dest (packet_text c rest) st = emit dest (packet_text c rest) False st"
  using assms length_packet_text [of c rest]
  by (auto simp: doSend_def transmit_def net_ok_def emit_def sent_to_def Let_def)

lemma ftext_emit: "emit d b r (st\<lparr>overread := overread st \<or> x\<rparr>) = emit d b (x \<or> r) st"
  by (simp add: emit_def sent_to_def)

text \<open>The text that ends up in a packet, and whether reading it runs past the buffer.\<close>

definition ftxt :: "nat \<Rightarrow> cstring \<Rightarrow> cstring" where
  "ftxt n s = the (filtertext s n)"

definition runs_over :: "nat \<Rightarrow> cstring \<Rightarrow> bool" where
  "runs_over n s \<longleftrightarrow> n \<le> length (ftxt n s)"

lemma ftext_eq: "ftext n s st = (ftxt n s, st\<lparr>overread := overread st \<or> runs_over n s\<rparr>)"
  by (simp add: ftext_def ftxt_def runs_over_def Let_def)

definition error_body :: "cstring \<Rightarrow> cstring" where
  "error_body m = packet_text ICB_M_ERROR (ftxt MAX_PKT_DATA m)"

definition status_body :: "char \<Rightarrow> cstring \<Rightarrow> cstring \<Rightarrow> cstring" where
  "status_body c s m = packet_text c (ftxt 21 s @ SEP # ftxt 233 m)"

definition open_body :: "cstring \<Rightarrow> cstring \<Rightarrow> cstring" where
  "open_body nick m = packet_text ICB_M_OPEN (ftxt 13 nick @ SEP # ftxt 241 m)"

definition cmdout_body :: "cstring \<Rightarrow> cstring" where
  "cmdout_body m = packet_text ICB_M_CMDOUT (''co'' @ SEP # ftxt 251 m)"

lemma senderror_emit:
  "net_ok st \<Longrightarrow> senderror d m st = emit d (error_body m) (runs_over MAX_PKT_DATA m) st"
  by (simp add: senderror_def ftext_eq doSend0_def doSend_emit error_body_def ftext_emit)

lemma sendstatus_emit:
  "net_ok st \<Longrightarrow> sendstatus d s m st
     = emit d (status_body ICB_M_STATUS s m) (runs_over 21 s \<or> runs_over 233 m) st"
  by (simp add: sendstatus_def ftext_eq doSend0_def doSend_emit status_body_def MAX_STATUS_LEN_def
      ftext_emit)

lemma sendimport_emit:
  "net_ok st \<Longrightarrow> sendimport d s m st
     = emit d (status_body ICB_M_IMPORTANT s m) (runs_over 21 s \<or> runs_over 233 m) st"
  by (simp add: sendimport_def ftext_eq doSend0_def doSend_emit status_body_def MAX_STATUS_LEN_def
      ftext_emit)

lemma sends_cmdout_emit:
  "net_ok st \<Longrightarrow> sends_cmdout d m st = emit d (cmdout_body m) (runs_over 251 m) st"
  by (simp add: sends_cmdout_def ftext_eq doSend0_def doSend_emit cmdout_body_def ftext_emit)

lemma sendopen_emit:
  "net_ok st \<Longrightarrow> in_tab from (u_tab st) \<Longrightarrow> sendopen from d m st
     = emit d (open_body (u_nickname (usr st from)) m)
         (runs_over 13 (u_nickname (usr st from)) \<or> runs_over 241 m) st"
  by (simp add: sendopen_def ftext_eq doSend_emit open_body_def need_u_def flag_fault_def ftext_emit usr_def)

lemmas sender_emits = senderror_emit sendstatus_emit sendimport_emit sends_cmdout_emit

text \<open>The filtered text: no separator, no longer than the original, and no overrun when it fits.\<close>

lemma ftxt_props: "SEP \<notin> set (ftxt n s)" "length (ftxt n s) \<le> min (length s) n"
  using filtertext_out [of s n] by (auto simp: ftxt_def)

lemma runs_over_short: "length s < n \<Longrightarrow> \<not> runs_over n s"
  using ftxt_props(2) [of n s] by (simp add: runs_over_def)

lemma byte_of_packet_len: "length b \<le> 254 \<Longrightarrow> byte_of (char_of (length b + 1) :: char) = length b + 1"
  by (rule byte_of_char_of) simp

section \<open>Properties\<close>

text \<open>
  C27 (framing): whatever \<open>doSend\<close> hands to the socket layer for a real user is a well-formed
  packet: at most 256 bytes, the first byte is the number of bytes that follow, the last byte
  is NUL; and it sends at most one packet, to the addressee.
\<close>

theorem doSend_framed:
  assumes "0 \<le> dest" and "dest < MAX_REAL_USERS st"
  shows "\<exists>ps. out (doSend ab cb from dest (packet_text c rest) st) = out st @ ps \<and> length ps \<le> 1
    \<and> (\<forall>(i, p) \<in> set ps. i = dest \<and> length p \<le> MAX_PKT_LEN \<and> byte_of (hd p) = length p - 1
          \<and> last p = CHR 0x00 \<and> p ! 1 = c)"
proof -
  have len: "length (packet_text c rest) \<le> 254" by (rule length_packet_text)
  have c: "packet_text c rest = c # tl (packet_text c rest)"
    by (simp add: packet_text_def snprintf_def)
  show ?thesis
  proof (cases "S_kill st ! nat dest > 0")
    case True
    with assms len show ?thesis by (simp add: doSend_def transmit_def)
  next
    case False
    then have "out (doSend ab cb from dest (packet_text c rest) st)
        = out st @ [(dest, frame_packet (packet_text c rest))]"
      using assms len by (simp add: doSend_def transmit_def Let_def)
    moreover have "byte_of (hd (frame_packet (packet_text c rest))) = length (packet_text c rest) + 1"
      unfolding frame_packet_def list.sel using len by (rule byte_of_packet_len)
    moreover have "frame_packet (packet_text c rest) ! 1 = c"
      by (subst c) (simp add: frame_packet_def)
    ultimately show ?thesis using len by (auto simp: frame_packet_def)
  qed
qed

text \<open>A server with two users and one group to try the theorems on.\<close>

definition demo_user :: "cstring \<Rightarrow> cstring \<Rightarrow> user_item" where
  "demo_user nick grpname = blank_user\<lparr>u_loginid := ''me'', u_nodeid := ''host'', u_nickname := nick,
     u_group := grpname, u_login := LOGIN_COMPLETE\<rparr>"

definition demo :: srv where
  "demo = \<lparr>u_tab = [demo_user ''ann'' ''cafe'', demo_user ''bob'' ''cafe'', demo_user ''eve'' ''x'',
       demo_user ''Server'' ''ICB''],
     g_tab = [blank_group\<lparr>g_name := ''ICB'', g_control := RESTRICTED, g_mod := 3, g_volume := QUIET\<rparr>,
       blank_group\<lparr>g_name := ''cafe'', g_control := MODERATED, g_mod := 0\<rparr>,
       blank_group\<lparr>g_name := ''x''\<rparr>, blank_group],
     S_kill = [0, 0, 0, 0], lpriv_id = [-1, -1, -1, -1], pong_req = [-1, -1, -1, -1],
     ping_time = [0, 0, 0, 0], pfields = replicate MAX_FIELDS [], is_booting = False,
     stats = \<lparr>st_start_time = 0, st_signons = 0, st_boots = 0, st_idleboots = 0, st_idlemods = 0,
       st_drops = 0\<rparr>,
     userdb = first_open, now = 1000, timefmt = (\<lambda>_. ''1-Jan-1991''), thishost = ''host'',
     admin_pwd = ''secret'', remotename = (\<lambda>_. None), send_result = (\<lambda>_. 0),
     out = [], dropped = [], fault = False, overread = False,
     TimeToDie = -1, ShutdownNotify = 0, log_level = 0, u_recv_count = [0, 0, 0, 0], halted = False,
     world = \<lparr>read_file = (\<lambda>_. None), local_hm = (\<lambda>_. (13, 5)), ctime_text = (\<lambda>_. ''Tue Jan 1 13:05:00 1991''),
       tod = 1000000000, peer_v4 = (\<lambda>_. Some (Some 0)), inet_addr = (\<lambda>_. 0), numeric_host = (\<lambda>_. Some ''10.0.0.1''), exec_ok = True,
       errno_text = ''Bad file descriptor''\<rparr>\<rparr>"

lemma demo_simps [simp]: "length (u_tab demo) = 4" "length (g_tab demo) = 4" "net_ok demo"
  "S_kill demo = [0, 0, 0, 0]" "out demo = []" "fault demo = False" "overread demo = False"
  by (simp_all add: demo_def net_ok_def)

lemma demo_usr [simp]: "usr demo 0 = demo_user ''ann'' ''cafe''" "usr demo 1 = demo_user ''bob'' ''cafe''"
  "usr demo 2 = demo_user ''eve'' ''x''" "usr demo 3 = demo_user ''Server'' ''ICB''"
  by (simp_all add: usr_def in_tab_def demo_def)

theorem doSend_framed_witness:
  "\<exists>ps. out (doSend (\<lambda>_ s. s) (\<lambda>_ _ s. s) 0 1 (packet_text ICB_M_OPEN ''hi'') demo) = out demo @ ps
    \<and> length ps \<le> 1 \<and> list_all (\<lambda>(i, p). i = 1 \<and> length p \<le> MAX_PKT_LEN \<and> byte_of (hd p) = length p - 1) ps"
  using doSend_framed [of 1 demo "\<lambda>_ s. s" "\<lambda>_ _ s. s" 0 ICB_M_OPEN "''hi''"] by (auto simp: list_all_iff)

lemma two_fields:
  assumes "SEP \<notin> set a" "SEP \<notin> set b"
  shows "split (a @ SEP # b) = ([a, b], 2)"
  using split_loop_fields [of "[a, b]" 1] assms by (simp add: split_def MAX_FIELDS_def)

lemma packet_two_fields:
  assumes "SEP \<notin> set a" "SEP \<notin> set b" "length a < 252"
  shows "split (tl (packet_text c (a @ SEP # b))) = ([a, take (252 - length a) b], 2)"
proof -
  have "tl (packet_text c (a @ SEP # b)) = a @ SEP # take (252 - length a) b"
    using assms(3) by (simp add: packet_text_def snprintf_def take_Cons')
  moreover have "SEP \<notin> set (take (252 - length a) b)" using assms(2) by (meson in_set_takeD)
  ultimately show ?thesis using two_fields assms(1) by simp
qed



text \<open>
  Hushing: a private message from a user the addressee has hushed, by nickname or by
  address, changes nothing but telling the sender that it did not go through; otherwise the
  addressee gets exactly one packet and the sender is remembered as the last one to write to
  them.
\<close>

lemma sendperson_hush:
  assumes net: "net_ok st" and d: "0 \<le> dest" "dest < MAX_REAL_USERS st" "S_kill st ! nat dest \<le> 0"
    and f: "in_tab from (u_tab st)"
  shows "if nl_match (addr_of st from) (pri_s_hushed (usr st dest))
            \<or> nl_match (nick_of st from) (pri_n_hushed (usr st dest))
         then out (sendperson ab cb from dest message st)
                = out st @ sent_to from (status_body ICB_M_STATUS ''Bounce'' ''Message did not go through'') st
              \<and> lpriv_id (sendperson ab cb from dest message st) = lpriv_id st
         else out (sendperson ab cb from dest message st)
                = out st @ [(dest, frame_packet (packet_text ICB_M_PERSONAL
                    (ftxt 13 (u_nickname (usr st from)) @ SEP # ftxt 241 message)))]
              \<and> lpriv_id (sendperson ab cb from dest message st) = (lpriv_id st)[nat dest := from]"
proof -
  have t: "in_tab dest (u_tab st)" using d by (simp add: in_tab_def)
  then have need: "need_u dest (need_u from st) = st" using f by (simp add: need_u_def flag_fault_def)
  have hash: "addr_of (st\<lparr>overread := r\<rparr>) from = addr_of st from"
    "nick_of (st\<lparr>overread := r\<rparr>) from = nick_of st from"
    "usr (st\<lparr>overread := r\<rparr>) i = usr st i" for r i
    by (simp_all add: addr_of_def nick_of_def usr_def)
  have S: "sent_to from b (st\<lparr>overread := r\<rparr>) = sent_to from b st" for b r by (simp add: sent_to_def)
  show ?thesis
    using d net length_packet_text [of ICB_M_PERSONAL "ftxt 13 (u_nickname (usr st from)) @ SEP # ftxt 241 message"]
    by (auto simp: sendperson_def need ftext_eq hash doSend_def transmit_def net_ok_def sendstatus_emit S)
qed

text \<open>Witness: \<open>bob\<close> hushes \<open>e*\<close>; \<open>eve\<close> cannot write to him.\<close>

lemma sendperson_hush_example:
  "list_all (\<lambda>(i, p). i = 2) (out (sendperson (\<lambda>_ s. s) (\<lambda>_ _ s. s) 2 1 ''hello''
      (upd_u 1 (\<lambda>u. u\<lparr>pri_n_hushed := nl_put ''E*'' (pri_n_hushed u)\<rparr>) demo)))"
proof -
  let ?st = "upd_u 1 (\<lambda>u. u\<lparr>pri_n_hushed := nl_put ''E*'' (pri_n_hushed u)\<rparr>) demo"
  have u: "in_tab 1 (u_tab demo)" "in_tab 2 (u_tab ?st)" by (simp_all add: in_tab_def)
  have "nl_match ''EVE'' (nl_put ''E*'' (nl_init MAX_HUSHED))" by code_simp
  moreover have "nick_of ?st 2 = ''EVE''"
  proof -
    have "ucaseit (snprintf 13 ''eve'') = ''EVE''" by code_simp
    then show ?thesis by (simp add: nick_of_def demo_user_def)
  qed
  moreover have "pri_n_hushed (usr ?st 1) = nl_put ''E*'' (nl_init MAX_HUSHED)"
    using u by (simp add: demo_user_def blank_user_def)
  ultimately have "nl_match (nick_of ?st 2) (pri_n_hushed (usr ?st 1))" by simp
  with sendperson_hush [of ?st 1 2 "\<lambda>_ s. s" "\<lambda>_ _ s. s" "''hello''", OF _ _ _ _ u(2)]
  show ?thesis by (auto simp: sent_to_def)
qed

lemma ftxt_same: "wf_utf8 s \<Longrightarrow> \<forall>c \<in> set s. 0x20 \<le> byte_of c \<Longrightarrow> length s \<le> n \<Longrightarrow> ftxt n s = s"
  using filter_loop_id [of 0 0 0 "[]" s n] pending_0
  by (simp add: ftxt_def filtertext_def wf_utf8_def pinv_def ranges_of_def)

text \<open>
  When a status message is over-read: the buffer for the text of a status message has 233
  bytes, and \<open>filtertext\<close> is allowed to fill all of them. A clean text of up to 233 bytes is
  then printed from a buffer without a terminating NUL exactly if it has 233 bytes.
\<close>

lemma sendstatus_overread:
  assumes "net_ok st" "wf_utf8 m" "\<forall>c \<in> set m. 0x20 \<le> byte_of c" "length m \<le> 233" "length cls < 21"
  shows "overread (sendstatus dest cls m st) \<longleftrightarrow> overread st \<or> length m = 233"
  using assms runs_over_short [of cls 21] ftxt_same [OF assms(2,3,4)]
  by (simp add: sendstatus_emit runs_over_def)

lemma sendstatus_overread_example:
  "overread (sendstatus 1 ''FYI'' (replicate 233 CHR ''x'') demo)"
proof -
  have "wf_from [] (replicate k CHR ''x'')" for k
    by (induction k) (simp_all add: lead_def)
  then have "wf_utf8 (replicate 233 CHR ''x'')" by (simp only: wf_utf8_def)
  moreover have "\<forall>c \<in> set (replicate 233 CHR ''x''). 0x20 \<le> byte_of c" by simp
  ultimately show ?thesis
    using sendstatus_overread [of demo "replicate 233 CHR ''x''" "''FYI''" 1] by simp
qed

end
