(* ===== verification/GroupCmds.thy ===== *)
theory GroupCmds
  imports Send
begin

text \<open>
  \<open>server/s_group.c\<close>, the commands about groups: changing group, inviting, cancelling an
  invitation, passing the moderation, booting, the topic, permission to talk, and messages to
  a group. A handler takes the user \<open>n\<close>, the number of fields and the state, and gives its
  return value and the new state. The text \<open>mbuf\<close> is always large enough for what is printed
  into it. (\<open>s_status\<close> is in the theory that follows.)
\<close>

section \<open>Messages to a group\<close>

text \<open>The real users in the order of the loops.\<close>

definition real_users :: "srv \<Rightarrow> int list" where
  "real_users st = [0..MAX_REAL_USERS st - 1]"

definition s_status_group :: "int \<Rightarrow> bool \<Rightarrow> int \<Rightarrow> cstring \<Rightarrow> cstring \<Rightarrow> srv \<Rightarrow> srv" where
  "s_status_group k tellme n class_string message_string st =
     (let st = (if k = 1 then need_u n st else need_g n st);
          my_group = (if k = 1 then u_group (usr st n) else g_name (grp st n))
      in fold (\<lambda>i st.
           if strcaseeq my_group (u_group (usr st i)) \<and> (tellme \<or> k \<noteq> 1 \<or> (k = 1 \<and> i \<noteq> n))
           then sendstatus i class_string message_string st else st) (real_users st) st)"

definition s_send_group :: "int \<Rightarrow> srv \<Rightarrow> int \<times> srv" where
  "s_send_group n st =
     (let st = need_u n st;
          my_group = u_group (usr st n);
          one = addr_of st n;
          two = ucaseit (u_nickname (usr st n))
      in (0, fold (\<lambda>i st.
           if (i \<noteq> n \<or> u_echoback (usr st n) \<noteq> 0)
              \<and> strcaseeq my_group (u_group (usr st i))
              \<and> \<not> nl_match one (pub_s_hushed (usr st i))
              \<and> \<not> nl_match two (pub_n_hushed (usr st i))
              \<and> u_login (usr st i) = LOGIN_COMPLETE
           then sendopen n i (field st 0) st else st) (real_users st) st))"

definition s_exclude :: "int \<Rightarrow> int \<Rightarrow> srv \<Rightarrow> int \<times> srv" where
  "s_exclude n argc st =
     (if argc \<noteq> 2 then (0, st)
      else if get_tail (field st 1) = [] then (0, senderror n ''Empty message.'' st)
      else let st = need_u n st; gi = find_group (u_group (usr st n)) st in
        if gi \<noteq> -1 \<and> g_volume (grp st gi) = QUIET
        then (0, senderror n ''Open messages not permitted in quiet groups.'' st)
        else let my_group = u_group (usr st n);
                 one = addr_of st n;
                 two = ucaseit (u_nickname (usr st n));
                 word = getword (field st 1);
                 j = find_user word st;
                 msg = u_nickname (usr st n) @ [CHR 0x27] @ ''s next message excludes ''
                       @ (if j > 0 then u_nickname (usr st j) else word) @ '':''
             in (0, fold (\<lambda>i st.
                  if (i \<noteq> n \<or> u_echoback (usr st n) \<noteq> 0)
                     \<and> strcaseeq my_group (u_group (usr st i))
                     \<and> \<not> nl_match one (pub_s_hushed (usr st i))
                     \<and> \<not> nl_match two (pub_n_hushed (usr st i))
                     \<and> u_login (usr st i) \<ge> LOGIN_COMPLETE
                     \<and> \<not> strcaseeq (u_nickname (usr st i)) word
                  then sendopen n i (get_tail (field st 1)) (sendstatus i ''Exclude'' msg st)
                  else st) (real_users st) st))"

section \<open>Options\<close>

text \<open>
  The option letters of \<open>cancel\<close>, \<open>invite\<close> and \<open>talk\<close>: a variable is -1 until its letter is
  seen; a letter seen twice, or not allowed, is an error. (\<open>-s\<close> and \<open>-n\<close> set the same
  variable.)
\<close>

record cflags =
  f_quiet :: int
  f_mode :: int
  f_r :: int
  f_add :: int
  f_delete :: int

definition no_flags :: cflags where
  "no_flags = \<lparr>f_quiet = -1, f_mode = -1, f_r = -1, f_add = -1, f_delete = -1\<rparr>"

definition flag_char :: "cstring \<Rightarrow> char \<Rightarrow> cflags \<Rightarrow> cflags option" where
  "flag_char allowed c f =
     (if c \<notin> set allowed then None
      else if c = CHR ''q'' then (if f_quiet f = -1 then Some (f\<lparr>f_quiet := 1\<rparr>) else None)
      else if c = CHR ''s'' then (if f_mode f = -1 then Some (f\<lparr>f_mode := 1\<rparr>) else None)
      else if c = CHR ''n'' then (if f_mode f = -1 then Some (f\<lparr>f_mode := 0\<rparr>) else None)
      else if c = CHR ''r'' then (if f_r f = -1 then Some (f\<lparr>f_r := 1\<rparr>) else None)
      else if c = CHR ''a'' then (if f_add f = -1 then Some (f\<lparr>f_add := 1\<rparr>) else None)
      else if c = CHR ''d'' then (if f_delete f = -1 then Some (f\<lparr>f_delete := 1\<rparr>) else None)
      else None)"

fun flag_word :: "cstring \<Rightarrow> cstring \<Rightarrow> cflags \<Rightarrow> cflags option" where
  "flag_word allowed [] f = Some f"
| "flag_word allowed (c # cs) f = do { f \<leftarrow> flag_char allowed c f; flag_word allowed cs f }"

lemma get_tail_shorter: "take 1 who = ''-'' \<Longrightarrow> length (get_tail who) < length who"
proof -
  assume "take 1 who = ''-''"
  then obtain w where w: "who = CHR ''-'' # w" by (cases who) auto
  have "length (get_tail who) \<le> length (dropWhile (\<lambda>c. \<not> is_blank c) w)"
    by (simp add: get_tail_def w length_dropWhile_le)
  also have "\<dots> \<le> length w" by (rule length_dropWhile_le)
  finally show ?thesis by (simp add: w)
qed

function flag_loop :: "cstring \<Rightarrow> cstring \<Rightarrow> cflags \<Rightarrow> (cstring \<times> cflags) option" where
  "flag_loop allowed who f =
     (if take 1 who = ''-'' then do {
        f \<leftarrow> flag_word allowed (drop 1 (getword who)) f;
        flag_loop allowed (get_tail who) f }
      else Some (who, f))"
  by pat_completeness auto
termination by (relation "measure (\<lambda>(a, who, f). length who)") (auto simp: get_tail_shorter)

declare flag_loop.simps [simp del]

definition flag_val :: "int \<Rightarrow> int" where
  "flag_val v = (if v = -1 then 0 else v)"

section \<open>Cancelling invitations\<close>

definition not_restricted :: cstring where
  "not_restricted = ''The group isn'' @ [CHR 0x27] @ ''t restricted.''"

definition not_moderator :: cstring where
  "not_moderator = ''You aren'' @ [CHR 0x27] @ ''t the moderator.''"

definition cancel_usage :: cstring where
  "cancel_usage = ''Usage: cancel {-q} {-n nickname | -s address}''"

definition s_cancel :: "int \<Rightarrow> int \<Rightarrow> srv \<Rightarrow> int \<times> srv" where
  "s_cancel n argc st =
     (if argc \<noteq> 2 then (0, st)
      else let st = need_u n st; gi = find_group (u_group (usr st n)) st; st = need_g gi st;
               is_restricted = (g_control (grp st gi) = RESTRICTED);
               is_moderator = (g_mod (grp st gi) = n)
           in case flag_loop ''qsn'' (field st 1) no_flags of
                None \<Rightarrow> (-1, senderror n cancel_usage st)
              | Some (who, f) \<Rightarrow>
                  let mode = flag_val (f_mode f);
                      quiet = flag_val (f_quiet f);
                      who = (if mode = 1 then ucaseit who else who)
                  in if is_restricted \<and> is_moderator then
                       (let (r1, l1) = nl_delete who (if mode = 0 then n_invites (grp st gi) else s_invites (grp st gi));
                            (r2, l2) = (if r1 = 0 then (-1, if mode = 0 then nr_invites (grp st gi) else sr_invites (grp st gi))
                                        else nl_delete who (if mode = 0 then nr_invites (grp st gi) else sr_invites (grp st gi)));
                            st = upd_g gi (\<lambda>g. if mode = 0 then g\<lparr>n_invites := l1, nr_invites := l2\<rparr>
                                               else g\<lparr>s_invites := l1, sr_invites := l2\<rparr>) st
                        in if r1 = 0 \<or> r2 = 0 then
                             (let st = (if quiet = 0 then sendstatus n ''FYI'' (who @ '' cancelled'') st else st)
                              in (0, if mode = 0 \<and> find_user who st < 0
                                     then sendstatus n ''Warning'' (who @ '' is not signed on'') st else st))
                           else (0, sendstatus n ''Warning'' (who @ '' was not invited'') st))
                     else
                       (let st = (if \<not> is_restricted then senderror n not_restricted st else st);
                            st = (if \<not> is_moderator then senderror n not_moderator st else st)
                        in (0, st)))"

section \<open>Changing group\<close>

text \<open>The group name and visibility asked for: one leading dot for secret, two for super secret.\<close>

definition parse_group :: "cstring \<Rightarrow> cstring \<times> int" where
  "parse_group f1 =
     (let len = length f1 in
      if take 1 f1 = ''.'' then
        (if take 1 (drop 1 f1) = ''.''
         then let how_many = (if MAX_GROUPLEN + 2 > len then len else MAX_GROUPLEN + 2)
              in (strncpy0 (how_many - 2) (drop 2 f1), SUPERSECRET)
         else let how_many = (if MAX_GROUPLEN + 1 > len then len else MAX_GROUPLEN + 1)
              in (strncpy0 (how_many - 1) (drop 1 f1), SECRET))
      else let how_many = (if MAX_GROUPLEN > len then len else MAX_GROUPLEN)
           in (strncpy0 how_many f1, VISIBLE))"

definition is_invited :: "int \<Rightarrow> int \<Rightarrow> srv \<Rightarrow> bool" where
  "is_invited n ngi st \<longleftrightarrow>
     nl_present (u_nickname (usr st n)) (n_invites (grp st ngi))
     \<or> nl_match (addr_of st n) (s_invites (grp st ngi))
     \<or> (nl_present (u_nickname (usr st n)) (nr_invites (grp st ngi)) \<and> u_realname (usr st n) \<noteq> [])
     \<or> (nl_match (addr_of st n) (sr_invites (grp st ngi)) \<and> u_realname (usr st n) \<noteq> [])"

text \<open>Setting up a group that does not exist yet, in the empty slot \<open>ngi\<close>.\<close>

definition init_invites :: "group_item \<Rightarrow> group_item" where
  "init_invites g = g\<lparr>n_invites := nl_init MAX_INVITES, nr_invites := nl_init MAX_INVITES,
     s_invites := nl_init MAX_INVITES, sr_invites := nl_init MAX_INVITES\<rparr>"

definition init_bars :: "group_item \<Rightarrow> group_item" where
  "init_bars g = g\<lparr>n_bars := nl_init MAX_INVITES, n_nr_bars := nl_init MAX_INVITES,
     s_bars := nl_init MAX_INVITES, s_nr_bars := nl_init MAX_INVITES\<rparr>"

definition new_group :: "int \<Rightarrow> cstring \<Rightarrow> int \<Rightarrow> group_item \<Rightarrow> group_item" where
  "new_group n n_g_n visibility g =
     (let g = g\<lparr>g_visibility := visibility, g_name := n_g_n\<rparr>;
          g = (if strcaseeq BOOT_GROUP n_g_n then
                 g\<lparr>g_control := PUBLIC, g_visibility := SECRET, g_volume := LOUD, g_idleboot := 3600,
                   g_topic := strncpy0 MAX_TOPICLEN ''Boot-ees''\<rparr>
               else if strcaseeq IDLE_GROUP n_g_n then
                 g\<lparr>g_control := PUBLIC, g_visibility := VISIBLE, g_volume := QUIET, g_idleboot := 0,
                   g_topic := strncpy0 MAX_TOPICLEN ''Idlers''\<rparr>
               else if \<not> strcaseeq ''1'' n_g_n then g\<lparr>g_control := MODERATED, g_mod := n\<rparr>
               else g\<lparr>g_control := PUBLIC\<rparr>)
      in init_bars (init_invites g))"

text \<open>Telling the moderator of a loud group about an attempt to enter.\<close>

definition probe :: "int \<Rightarrow> int \<Rightarrow> cstring \<Rightarrow> srv \<Rightarrow> srv" where
  "probe n ngi message st =
     (let gm = g_mod (grp st ngi) in
      if gm > 0 \<and> g_volume (grp st ngi) = LOUD then
        (let st = need_u gm st in
         if \<not> nl_match (addr_of st n) (pri_s_hushed (usr st gm))
            \<and> \<not> nl_match (ucaseit (u_nickname (usr st n))) (pri_n_hushed (usr st gm))
         then let st = sendstatus gm ''Probe'' message st
              in st\<lparr>lpriv_id := (lpriv_id st)[nat gm := n]\<rparr>
         else st)
      else st)"

definition may_enter :: "int \<Rightarrow> int \<Rightarrow> srv \<Rightarrow> bool" where
  "may_enter n ngi st \<longleftrightarrow> g_control (grp st ngi) = RESTRICTED \<longrightarrow>
     check_auth n st \<or> g_mod (grp st ngi) = n \<or> is_invited n ngi st \<or> is_booting st"

definition group_full :: "int \<Rightarrow> int \<Rightarrow> srv \<Rightarrow> bool" where
  "group_full n ngi st \<longleftrightarrow>
     g_control (grp st ngi) \<noteq> RESTRICTED \<and> g_control (grp st ngi) \<noteq> PUBLIC
     \<and> g_size (grp st ngi) > 0
     \<and> int (length (filter (\<lambda>i. strcaseeq (u_group (usr st i)) (g_name (grp st ngi))) (real_users st)))
         \<ge> g_size (grp st ngi)
     \<and> g_mod (grp st ngi) \<noteq> n"

text \<open>Entering group \<open>ngi\<close> and leaving group \<open>ogi\<close> (-1 for none).\<close>

definition who_is :: "int \<Rightarrow> srv \<Rightarrow> cstring" where
  "who_is n st = u_nickname (usr st n) @ '' ('' @ u_loginid (usr st n) @ ''@'' @ u_nodeid (usr st n) @ '')''"

definition leave_group :: "int \<Rightarrow> int \<Rightarrow> srv \<Rightarrow> srv" where
  "leave_group n ogi st =
     (if ogi < 0 then st
      else if count_users_in_group (g_name (grp st ogi)) st > 0 then
        (if g_volume (grp st ogi) \<noteq> QUIET then
           (let st = s_status_group 2 False ogi ''Depart'' (who_is n st @ '' just left'') st in
            if g_mod (grp st ogi) = n
            then sendimport n ''Mod'' (''You are still mod of group '' @ g_name (grp st ogi)) st
            else st)
         else st)
      else clear_group_item ogi st)"

definition enter_group :: "int \<Rightarrow> bool \<Rightarrow> int \<Rightarrow> int \<Rightarrow> srv \<Rightarrow> srv" where
  "enter_group n login_status ngi ogi st =
     (let st = upd_u n (\<lambda>u. u\<lparr>u_group := g_name (grp st ngi)\<rparr>) st;
          st = (if g_volume (grp st ngi) \<noteq> QUIET
                then s_status_group 1 False n
                       (if u_login (usr st n) < LOGIN_COMPLETE \<or> login_status then ''Sign-on'' else ''Arrive'')
                       (who_is n st @ '' entered group'') st
                else st);
          st = sendstatus n ''Status'' (''You are now in group '' @ g_name (grp st ngi)
                 @ (if g_mod (grp st ngi) = n then '' as moderator'' else [])) st;
          st = upd_u n (\<lambda>u. u\<lparr>u_t_group := now st\<rparr>) st
      in leave_group n ogi st)"

text \<open>The rest of \<open>s_change\<close> once the destination group \<open>ngi\<close> exists.\<close>

definition join_group :: "int \<Rightarrow> bool \<Rightarrow> int \<Rightarrow> cstring \<Rightarrow> srv \<Rightarrow> int \<times> srv" where
  "join_group n login_status ngi n_g_n st =
     (if \<not> may_enter n ngi st then
        (-1, probe n ngi (u_nickname (usr st n) @ '' tried to enter the group.'')
               (senderror n (n_g_n @ '' is restricted.'') st))
      else let ogi = (if u_group (usr st n) = [] then -1 else find_group (u_group (usr st n)) st) in
        if group_full n ngi st then
          (-1, senderror n (''Group '' @ n_g_n @ '' is full.'')
                 (probe n ngi (u_nickname (usr st n) @ '' tried to enter the group, but it''
                    @ [CHR 0x27] @ ''s full.'') st))
        else if ngi \<noteq> ogi then (0, enter_group n login_status ngi ogi st)
        else (-1, senderror n ''You are already in that group!'' st))"

definition change_to :: "int \<Rightarrow> bool \<Rightarrow> srv \<Rightarrow> int \<times> srv" where
  "change_to n login_status st =
     (if field st 1 = [] then (-1, senderror n ''Null groupnames are not allowed.'' st)
      else let (name, visibility) = parse_group (field st 1) in
        if name = [] then (-1, senderror n ''Group name too short.'' st)
        else let n_g_n = filtergroupname name;
                 ngi = find_group n_g_n st
             in if ngi \<ge> 0 then join_group n login_status ngi n_g_n st
                else let ngi = find_empty_group st in
                  if ngi < 0 then (-1, senderror n ''Too many groups!'' st)
                  else join_group n login_status ngi n_g_n
                         (upd_g ngi (new_group n n_g_n visibility) st))"

text \<open>
  \<open>s_change\<close>. A name \<open>@user\<close> stands for the group of that user and makes the function call
  itself; the first argument bounds the calls. Group names never start with an at sign, so
  two calls are enough, as is shown below.
\<close>

fun s_change_n :: "nat \<Rightarrow> int \<Rightarrow> bool \<Rightarrow> srv \<Rightarrow> int \<times> srv" where
  "s_change_n 0 n login_status st = (-1, flag_fault True st)"
| "s_change_n (Suc k) n login_status st =
     (if take 1 (field st 1) = ''@'' then
        (let target_user = find_user (drop 1 (field st 1)) st in
         if target_user < 0 then (-1, senderror n ''User not found.'' st)
         else let gi = find_group (u_group (usr st target_user)) st; st = need_g gi st in
           if g_visibility (grp st gi) \<noteq> VISIBLE then (-1, senderror n ''User not found.'' st)
           else s_change_n k n False
                  (st\<lparr>pfields := (pfields st)[1 := u_group (usr st target_user)]\<rparr>))
      else change_to n login_status st)"

definition s_change :: "int \<Rightarrow> int \<Rightarrow> srv \<Rightarrow> int \<times> srv" where
  "s_change n argc st =
     (let login_status = (argc = 3); argc = (if argc = 3 then 2 else argc) in
      if argc = 2 then s_change_n 2 n login_status (need_u n st) else (-1, st))"

section \<open>Inviting\<close>

text \<open>\<open>add_item\<close> of \<open>s_who.c\<close>: collects items into a line of at most 74 characters.\<close>

definition MAX_LINE :: nat where "MAX_LINE = 75"

definition add_item :: "int \<Rightarrow> cstring \<Rightarrow> cstring \<times> srv \<Rightarrow> cstring \<times> srv" where
  "add_item n item = (\<lambda>(buf, st).
     if length item + 1 \<ge> MAX_LINE then (buf, st)
     else if length item + length buf + 1 \<ge> MAX_LINE
     then (if item \<noteq> '', '' then item else [], sends_cmdout n buf st)
     else (buf @ item, st))"

text \<open>
  The loop over one list, with its first title condition (\<open>i = 0\<close>, or an empty line) and the
  mark for registered users. Every name is read by \<open>nlget\<close>; a full round leaves the cursor
  where it was.
\<close>

fun add_names :: "int \<Rightarrow> cstring \<Rightarrow> bool \<Rightarrow> bool \<Rightarrow> bool \<Rightarrow> cstring list \<Rightarrow> cstring \<times> srv \<Rightarrow> cstring \<times> srv" where
  "add_names n title by_index mark is_first [] b = b"
| "add_names n title by_index mark is_first (s # ss) b =
     (let b = (if (if by_index then is_first else fst b = []) then add_item n title b
               else add_item n '', '' b);
          b = (if s \<noteq> [] then add_item n (if mark then s @ ''(r)'' else s) b else b)
      in add_names n title by_index mark False ss b)"

definition read_list :: "nlist \<Rightarrow> cstring list" where
  "read_list l = fst (nl_gets (nat (nl_count l)) l)"

definition list_lines :: "int \<Rightarrow> cstring \<Rightarrow> nlist \<Rightarrow> nlist \<Rightarrow> srv \<Rightarrow> srv" where
  "list_lines n title l lr st =
     (let b = add_names n title True False True (read_list l) ([], st);
          (line, st) = add_names n title False True True (read_list lr) b
      in if line \<noteq> [] then sends_cmdout n line st else st)"

definition list_invites :: "int \<Rightarrow> int \<Rightarrow> srv \<Rightarrow> int \<times> srv" where
  "list_invites n gi st =
     (let g = grp st gi;
          st = list_lines n ''Nicks invited: '' (n_invites g) (nr_invites g) st;
          st = list_lines n ''Addrs invited: '' (s_invites g) (sr_invites g) st
      in (nl_count (n_invites g) + nl_count (nr_invites g) + nl_count (s_invites g)
            + nl_count (sr_invites g), st))"

definition invite_usage :: cstring where
  "invite_usage = ''Usage: invite {-q} {-r} {-n nickname | -s address}''"

text \<open>Putting the name on the list for its mode, with the note to the inviter.\<close>

definition put_invite :: "int \<Rightarrow> int \<Rightarrow> cstring \<Rightarrow> group_item \<Rightarrow> group_item" where
  "put_invite mode r who g =
     (if mode = 0 \<and> r = 0 then g\<lparr>n_invites := nl_put who (n_invites g)\<rparr>
      else if mode = 0 \<and> r = 1 then g\<lparr>nr_invites := nl_put who (nr_invites g)\<rparr>
      else if mode = 1 \<and> r = 0 then g\<lparr>s_invites := nl_put who (s_invites g)\<rparr>
      else if mode = 1 \<and> r = 1 then g\<lparr>sr_invites := nl_put who (sr_invites g)\<rparr>
      else g)"

definition s_invite :: "int \<Rightarrow> int \<Rightarrow> srv \<Rightarrow> int \<times> srv" where
  "s_invite n argc st =
     (if argc \<noteq> 2 then (0, st)
      else let st = need_u n st; gi = find_group (u_group (usr st n)) st; st = need_g gi st;
               is_restricted = (g_control (grp st gi) = RESTRICTED);
               is_moderator = (g_mod (grp st gi) = n)
           in case flag_loop ''qsnr'' (field st 1) no_flags of
                None \<Rightarrow> (-1, senderror n invite_usage st)
              | Some (who, f) \<Rightarrow>
                  if who = [] then
                    (if \<not> is_restricted
                     then (-1, sendstatus n ''Invite'' ''Invite lists only function in restricted groups.'' st)
                     else let (c, st) = list_invites n gi st
                          in (-1, if c < 1 then sendstatus n ''Invite'' ''No one on invite list'' st else st))
                  else
                    let mode = flag_val (f_mode f);
                        r = flag_val (f_r f);
                        quiet = flag_val (f_quiet f);
                        who = (if mode = 1 then ucaseit who else who);
                        st = (if is_restricted \<and> is_moderator then
                                (let st = upd_g gi (put_invite mode r who) st
                                 in if quiet = 0
                                    then sendstatus n ''FYI''
                                           (who @ '' invited'' @ (if r = 1 then '' (registered only)'' else [])) st
                                    else st)
                              else st);
                        st = (if mode = 0 \<and> (\<not> is_restricted \<or> is_moderator) then
                                (let dest = find_user who st in
                                 if dest \<ge> 0 then
                                   (if u_realname (usr st dest) \<noteq> [] \<or> r = 0
                                    then sendstatus dest ''RSVP'' (''You are invited to group ''
                                           @ u_group (usr st n) @ '' by '' @ u_nickname (usr st n)) st
                                    else st)
                                 else sendstatus n ''Warning'' (who @ '' is not signed on.'') st)
                              else st);
                        st = (if mode = 1 \<and> \<not> is_restricted then senderror n not_restricted st else st);
                        st = (if \<not> is_moderator \<and> is_restricted then senderror n not_moderator st else st)
                    in (0, st))"

section \<open>Passing the moderation\<close>

definition relinquish :: "int \<Rightarrow> int \<Rightarrow> srv \<Rightarrow> srv" where
  "relinquish n gi st =
     (let st = upd_g gi (\<lambda>g. g\<lparr>g_mod := -1\<rparr>) st;
          st = (if g_volume (grp st gi) \<noteq> QUIET
                then s_status_group 1 True n ''Pass'' (u_nickname (usr st n) @ '' just relinquished the mod.'') st
                else st)
      in if g_control (grp st gi) \<noteq> PUBLIC \<and> g_control (grp st gi) \<noteq> MODERATED
            \<and> g_control (grp st gi) \<noteq> RESTRICTED
         then (let st = upd_g gi (\<lambda>g. g\<lparr>g_control := PUBLIC\<rparr>) st
               in if g_volume (grp st gi) \<noteq> QUIET
                  then s_status_group 1 True n ''Change'' ''Group is now public.'' st else st)
         else st)"

definition s_pass :: "int \<Rightarrow> int \<Rightarrow> srv \<Rightarrow> int \<times> srv" where
  "s_pass n argc st =
     (if argc \<noteq> 2 then (0, st)
      else let st = need_u n st; gi = find_group (u_group (usr st n)) st; st = need_g gi st in
        if \<not> (check_auth n st \<or> g_mod (grp st gi) = n) then (0, senderror n not_moderator st)
        else if field st 1 = [] then (0, relinquish n gi st)
        else let cp = getword (field st 1) in
          if cp = [] then (0, st)
          else if strcaseeq cp ''server'' then (-1, senderror n ''Cannot pass to Server.'' st)
          else let dest = find_user cp st in
            if dest \<ge> 0 then
              (let st = upd_g gi (\<lambda>g. g\<lparr>g_mod := dest\<rparr>) st;
                   st = sendstatus dest ''Pass'' (u_nickname (usr st n)
                          @ '' just passed you moderation of group '' @ g_name (grp st gi)) st
               in (0, if g_volume (grp st gi) \<noteq> QUIET
                      then s_status_group 1 True n ''Pass'' (u_nickname (usr st n)
                             @ '' has passed moderation to '' @ u_nickname (usr st dest)) st
                      else st))
            else (0, senderror n (cp @ '' is not on!'') st))"

section \<open>Booting\<close>

text \<open>
  The message given to \<open>boot\<close>: none, or one that is used as a format with the nickname when
  it has exactly one \<open>%s\<close>, and put behind the nickname when it has none.
\<close>

definition boot_message :: "cstring \<Rightarrow> cstring \<Rightarrow> cstring" where
  "boot_message nick msg =
     (if msg = [] then nick @ '' was booted.''
      else if snd (filterfmt msg 1) = 0 then nick @ '' '' @ msg
      else (case fmt_apply msg [nick] of Some (s, _) \<Rightarrow> s | None \<Rightarrow> []))"

definition do_boot :: "int \<Rightarrow> int \<Rightarrow> int \<Rightarrow> cstring \<Rightarrow> srv \<Rightarrow> srv" where
  "do_boot n dest destgi msg st =
     (let nick = u_nickname (usr st dest);
          (r1, l1) = nl_delete nick (n_invites (grp st destgi));
          (r2, l2) = (if r1 = 0 then (-1, nr_invites (grp st destgi))
                      else nl_delete nick (nr_invites (grp st destgi)));
          st = upd_g destgi (\<lambda>g. g\<lparr>n_invites := l1, nr_invites := l2\<rparr>) st;
          st = (if r1 = 0 \<or> r2 = 0 then sendstatus n ''FYI'' (nick @ '' cancelled'') st else st);
          st = (if g_volume (grp st destgi) \<noteq> QUIET
                then s_status_group 1 True n ''Boot'' (boot_message nick msg) st else st);
          st = sendstatus dest ''Boot'' (u_nickname (usr st n) @ '' booted you.'') st;
          st = st\<lparr>pfields := (pfields st)[1 := BOOT_GROUP], is_booting := True\<rparr>;
          st = snd (s_change dest 2 st);
          st = st\<lparr>is_booting := False\<rparr>
      in st\<lparr>stats := (stats st)\<lparr>st_boots := st_boots (stats st) + 1\<rparr>\<rparr>)"

definition s_boot :: "int \<Rightarrow> int \<Rightarrow> srv \<Rightarrow> int \<times> srv" where
  "s_boot n argc st =
     (if argc \<noteq> 2 then (0, st)
      else let st = need_u n st; gi = find_group (u_group (usr st n)) st; st = need_g gi st in
        if \<not> (check_auth n st \<or> g_mod (grp st gi) = n) then (0, senderror n not_moderator st)
        else let user = getword (field st 1);
                 msg = get_tail (field st 1);
                 dest = find_user user st
             in if dest < 0 then (0, sendstatus n ''Warning'' (user @ '' is not signed on'') st)
                else if strcaseeq user ''ADMIN'' then
                  (let st = senderror n (''You nobk! You can'' @ [CHR 0x27] @ ''t boot the admin!'') st
                   in (0, sendstatus dest ''Boot Attempt!'' (u_nickname (usr st n) @ '' tried to boot you!'') st))
                else case (if msg = [] then (None, 0) else filterfmt msg 1) of (r, num_s) \<Rightarrow>
                  if r \<noteq> None \<and> num_s \<noteq> 0 then (0, senderror n (the r) st)
                  else let destgi = find_group (u_group (usr st dest)) st in
                    if gi = destgi then (0, do_boot n dest destgi msg st)
                    else (0, senderror n (field st 1 @ '' is not in your group'') st))"

section \<open>The topic\<close>

definition s_topic :: "int \<Rightarrow> int \<Rightarrow> srv \<Rightarrow> int \<times> srv" where
  "s_topic n argc st =
     (if argc \<noteq> 2 then (0, st)
      else let st = need_u n st; t_group = find_group (u_group (usr st n)) st; st = need_g t_group st in
        if field st 1 = [] then
          (0, sends_cmdout n (if g_topic (grp st t_group) = [] then ''The topic is not set.''
                else ''The topic is: '' @ g_topic (grp st t_group)) st)
        else let is_moderator = (g_mod (grp st t_group) = n);
                 has_moderator = (g_mod (grp st t_group) \<ge> 0)
             in if has_moderator \<and> \<not> is_moderator then (0, senderror n not_moderator st)
                else if g_name (grp st t_group) = ''1'' \<or> g_name (grp st t_group) = IDLE_GROUP
                        \<or> g_name (grp st t_group) = BOOT_GROUP
                then (0, senderror n (''You can'' @ [CHR 0x27] @ ''t change this group'' @ [CHR 0x27] @ ''s topic.'') st)
                else let st = upd_g t_group (\<lambda>g. g\<lparr>g_topic := strncpy0 MAX_TOPICLEN (field st 1)\<rparr>) st
                     in (0, if g_volume (grp st t_group) \<noteq> QUIET
                            then s_status_group 1 True n ''Topic'' (u_nickname (usr st n)
                                   @ '' changed the topic to '' @ [CHR 0x22] @ g_topic (grp st t_group) @ [CHR 0x22]) st
                            else st))"

section \<open>Permission to talk\<close>

definition talk_delete :: "cstring \<Rightarrow> int \<Rightarrow> srv \<Rightarrow> int \<times> srv" where
  "talk_delete who gi st =
     (let in_normal = nl_present who (n_talk (grp st gi));
          in_registered = nl_present who (nr_talk (grp st gi));
          st = upd_g gi (\<lambda>g. g\<lparr>
                 n_talk := (if in_normal then snd (nl_delete who (n_talk g)) else n_talk g),
                 nr_talk := (if in_registered then snd (nl_delete who (nr_talk g)) else nr_talk g)\<rparr>) st;
          deleted = (if in_normal then 1 else 0) + (if in_registered then 1 else 0);
          dest = find_user who st
      in if deleted > 0 \<and> dest \<ge> 0
            \<and> (in_normal \<or> (in_registered \<and> u_realname (usr st dest) \<noteq> []))
         then let md = g_mod (grp st gi); st = need_u md st
              in (deleted, sendstatus dest ''TALK'' (''You no longer can talk in group ''
                    @ u_group (usr st md) @ '' (no thanks to '' @ u_nickname (usr st md) @ '')'') st)
         else (deleted, st))"

definition talk_report :: "int \<Rightarrow> int \<Rightarrow> srv \<Rightarrow> srv" where
  "talk_report n gi st =
     (if nl_present (u_nickname (usr st n)) (n_talk (grp st gi))
         \<or> (nl_present (u_nickname (usr st n)) (nr_talk (grp st gi)) \<and> u_realname (usr st n) \<noteq> [])
      then sends_cmdout n (''Talk permission in: '' @ g_name (grp st gi)) st else st)"

text \<open>
  Emptying a talk list, \<open>k\<close> rounds for the names counted at the start. The name printed
  afterwards is the string of the node that \<open>talk_delete\<close> has freed.
\<close>

fun talk_clear :: "nat \<Rightarrow> bool \<Rightarrow> cstring \<Rightarrow> int \<Rightarrow> int \<Rightarrow> bool \<Rightarrow> srv \<Rightarrow> srv" where
  "talk_clear 0 reg sfx n gi quiet st = st"
| "talk_clear (Suc k) reg sfx n gi quiet st =
     (let l = (if reg then nr_talk (grp st gi) else n_talk (grp st gi)) in
      if names l = [] then flag_fault True st
      else let (cp, l) = nl_get l;
               st = upd_g gi (\<lambda>g. if reg then g\<lparr>nr_talk := l\<rparr> else g\<lparr>n_talk := l\<rparr>) st
           in if cp = [] then talk_clear k reg sfx n gi quiet st
              else let (deleted, st) = talk_delete cp gi st;
                       st = (if deleted > 0 \<and> \<not> quiet then sendstatus n ''FYI'' (cp @ sfx) st else st)
                   in talk_clear k reg sfx n gi quiet st)"

definition talk_usage :: cstring where
  "talk_usage = ''Usage: talk {-a} {-q} {-r} {-d} nickname''"

definition talk_add :: "int \<Rightarrow> int \<Rightarrow> cstring \<Rightarrow> int \<Rightarrow> bool \<Rightarrow> srv \<Rightarrow> srv" where
  "talk_add n gi who r quiet st =
     (let st = upd_g gi (\<lambda>g. if r = 0 then g\<lparr>n_talk := nl_put who (n_talk g)\<rparr>
                             else g\<lparr>nr_talk := nl_put who (nr_talk g)\<rparr>) st;
          st = (if \<not> quiet
                then sendstatus n ''FYI'' (who @ (if r = 0 then '' can talk'' else '' can talk (registered only)'')) st
                else st);
          dest = find_user who st
      in if dest \<ge> 0 then
           (if u_realname (usr st dest) \<noteq> [] \<or> r = 0
            then sendstatus dest ''TALK'' (''You can talk in group '' @ u_group (usr st n)
                   @ '' (courtesy of '' @ u_nickname (usr st n) @ '')'') st
            else st)
         else sendstatus n ''Warning'' (who @ '' is not signed on.'') st)"

definition s_talk :: "int \<Rightarrow> int \<Rightarrow> srv \<Rightarrow> int \<times> srv" where
  "s_talk n argc st =
     (if argc \<noteq> 2 then (0, st)
      else let st = need_u n st; gi = find_group (u_group (usr st n)) st; st = need_g gi st;
               is_public = (g_control (grp st gi) = PUBLIC);
               is_moderator = (g_mod (grp st gi) = n)
           in case flag_loop ''qadr'' (field st 1) no_flags of
                None \<Rightarrow> (-1, senderror n talk_usage st)
              | Some (who, f) \<Rightarrow>
                  let r = flag_val (f_r f); quiet = (f_quiet f \<noteq> -1) in
                  if who = [] then (0, senderror n talk_usage st)
                  else if is_public then (0, senderror n ''The group is public.'' st)
                  else if \<not> is_moderator then (0, senderror n not_moderator st)
                  else if f_delete f = 1 then
                    (let (deleted, st) = talk_delete who gi st in
                     if deleted = 0 then (0, senderror n (who @ '' is not in talk list'') st)
                     else if \<not> quiet then (0, sendstatus n ''FYI'' (who @ '' removed from talk list'') st)
                     else (0, st))
                  else
                    (let st = (if f_add f = -1 then
                                 (let st = talk_clear (nat (nl_count (n_talk (grp st gi)))) False
                                             '' removed from talk list'' n gi quiet st
                                  in talk_clear (nat (nl_count (nr_talk (grp st gi)))) True
                                       '' removed from registered talk list'' n gi quiet st)
                               else st)
                     in (0, talk_add n gi who r quiet st)))"

end
