(* ===== verification/GroupSafe.thy ===== *)
theory GroupSafe
  imports GroupCmds
begin

text \<open>
  Every command about groups keeps the tables well-formed and stays inside them. The locale
  \<open>handler_pred\<close> holds the rules to walk through a handler for any predicate on the state that
  sending does not disturb; it is interpreted on \<open>safe\<close> (the tables are well-formed, nothing
  out of range was touched) and on \<open>calm\<close> (in addition nobody moved and no group was renamed).
\<close>

section \<open>Sending as a rewrite\<close>

text \<open>A number of packets sent; \<open>emit\<close> is one of them.\<close>

definition emits :: "(int \<times> cstring) list \<Rightarrow> bool \<Rightarrow> srv \<Rightarrow> srv" where
  "emits ps r st = st\<lparr>out := out st @ ps, overread := overread st \<or> r\<rparr>"

lemma emit_emits: "emit d b r st = emits (sent_to d b st) r st"
  by (simp add: emit_def emits_def)

lemma emits_emits [simp]: "emits ps r (emits qs s st) = emits (qs @ ps) (s \<or> r) st"
  by (simp add: emits_def disj_assoc)

lemma emits_Nil [simp]: "emits [] False st = st"
  by (simp add: emits_def)

lemma emits_simps [simp]:
  "u_tab (emits ps r st) = u_tab st" "g_tab (emits ps r st) = g_tab st"
  "S_kill (emits ps r st) = S_kill st" "lpriv_id (emits ps r st) = lpriv_id st"
  "pfields (emits ps r st) = pfields st" "fault (emits ps r st) = fault st"
  "is_booting (emits ps r st) = is_booting st" "admin_pwd (emits ps r st) = admin_pwd st"
  "now (emits ps r st) = now st" "stats (emits ps r st) = stats st"
  "out (emits ps r st) = out st @ ps" "overread (emits ps r st) \<longleftrightarrow> overread st \<or> r"
  "usr (emits ps r st) i = usr st i" "grp (emits ps r st) i = grp st i"
  "field (emits ps r st) k = field st k" "net_ok (emits ps r st) = net_ok st"
  "srv_ok (emits ps r st) = srv_ok st"
  by (simp_all add: emits_def usr_def grp_def field_def net_ok_def)
    (rule srv_ok_cong; simp)

lemma find_emits [simp]:
  "find_group nm (emits ps r st) = find_group nm st" "find_user nm (emits ps r st) = find_user nm st"
  "find_empty_group (emits ps r st) = find_empty_group st"
  "count_users_in_group nm (emits ps r st) = count_users_in_group nm st"
  "check_auth i (emits ps r st) = check_auth i st" "sent_to d b (emits ps r st) = sent_to d b st"
  "real_users (emits ps r st) = real_users st" "addr_of (emits ps r st) i = addr_of st i"
  by (simp_all add: find_group_def find_user_def find_empty_group_def count_users_in_group_def
      check_auth_def sent_to_def real_users_def addr_of_def)

lemmas sender_rules = sender_emits [unfolded emit_emits] sendopen_emit [unfolded emit_emits]

lemma need_id [simp]: "in_tab i (u_tab st) \<Longrightarrow> need_u i st = st" "in_tab i (g_tab st) \<Longrightarrow> need_g i st = st"
  by (simp_all add: need_u_def need_g_def flag_fault_def)

text \<open>A loop that sends to some of the users.\<close>

definition cast :: "(int \<Rightarrow> bool) \<Rightarrow> (int \<Rightarrow> cstring) \<Rightarrow> srv \<Rightarrow> (int \<times> cstring) list" where
  "cast P body st = concat (map (\<lambda>i. sent_to i (body i) st) (filter P (real_users st)))"

lemma fold_emits:
  assumes step: "\<And>i ps r. i \<in> set xs \<Longrightarrow>
      f i (emits ps r st) = (if P i then emits (sent_to i (b i) st) (s i) (emits ps r st) else emits ps r st)"
  shows "\<exists>r. fold f xs st = emits (concat (map (\<lambda>i. sent_to i (b i) st) (filter P xs))) r st
     \<and> (r \<longrightarrow> (\<exists>i \<in> set xs. P i \<and> s i))"
proof -
  have "\<exists>r'. fold f xs (emits ps r st) = emits (ps @ concat (map (\<lambda>i. sent_to i (b i) st) (filter P xs))) r' st
      \<and> (r' \<longrightarrow> r \<or> (\<exists>i \<in> set xs. P i \<and> s i))" for ps r
    using step
  proof (induction xs arbitrary: ps r)
    case (Cons x xs)
    show ?case
    proof (cases "P x")
      case True
      then have "f x (emits ps r st) = emits (ps @ sent_to x (b x) st) (r \<or> s x) st"
        using Cons.prems [of x] by simp
      with True Cons.IH [of "ps @ sent_to x (b x) st" "r \<or> s x"] Cons.prems show ?thesis by auto
    next
      case False
      with Cons.IH [of ps r] Cons.prems show ?thesis by auto
    qed
  qed auto
  from this [of "[]" False] show ?thesis by simp
qed

text \<open>Its form for a status message.\<close>

lemma fold_status_emits:
  assumes net: "net_ok st"
  shows "\<exists>r. fold (\<lambda>i s. if P i (usr s i) then sendstatus i cls m s else s) xs st
      = emits (concat (map (\<lambda>i. sent_to i (status_body ICB_M_STATUS cls m) st)
          (filter (\<lambda>i. P i (usr st i)) xs))) r st
     \<and> (r \<longrightarrow> runs_over 21 cls \<or> runs_over 233 m)"
proof -
  have "(if P i (usr (emits ps r st) i) then sendstatus i cls m (emits ps r st) else emits ps r st)
     = (if P i (usr st i) then emits (sent_to i (status_body ICB_M_STATUS cls m) st)
          (runs_over 21 cls \<or> runs_over 233 m) (emits ps r st) else emits ps r st)" for i ps r
    by (simp add: sender_rules net)
  from fold_emits [of xs "\<lambda>i s. if P i (usr s i) then sendstatus i cls m s else s" st
      "\<lambda>i. P i (usr st i)" "\<lambda>_. status_body ICB_M_STATUS cls m"
      "\<lambda>_. runs_over 21 cls \<or> runs_over 233 m", OF this]
  show ?thesis by blast
qed

lemma s_status_group_emits:
  assumes net: "net_ok st" and t: "if k = 1 then in_tab n (u_tab st) else in_tab n (g_tab st)"
  shows "\<exists>r. s_status_group k tellme n cls m st = emits (cast (\<lambda>i.
      strcaseeq (if k = 1 then u_group (usr st n) else g_name (grp st n)) (u_group (usr st i))
      \<and> (tellme \<or> k \<noteq> 1 \<or> (k = 1 \<and> i \<noteq> n))) (\<lambda>_. status_body ICB_M_STATUS cls m) st) r st
     \<and> (r \<longrightarrow> runs_over 21 cls \<or> runs_over 233 m)"
proof -
  have st: "(if k = 1 then need_u n st else need_g n st) = st" using t by auto
  show ?thesis
    unfolding s_status_group_def st Let_def cast_def
    by (rule fold_status_emits [OF net, where P = "\<lambda>i u.
          strcaseeq (if k = 1 then u_group (usr st n) else g_name (grp st n)) (u_group u)
          \<and> (tellme \<or> k \<noteq> 1 \<or> (k = 1 \<and> i \<noteq> n))"])
qed

section \<open>Walking through a handler\<close>

text \<open>
  A predicate on the state that sending does not disturb. For any such predicate the rules
  below walk through the control structure of a handler: a branch at a time, naming the
  values bound on the way; of the state after a step only the predicate is kept. A handler
  gives a pair of its return value and the state.
\<close>

locale handler_pred =
  fixes P :: "srv \<Rightarrow> bool"
  assumes net: "P st \<Longrightarrow> net_ok st"
    and emits: "P st \<Longrightarrow> P (emits ps r st)"
begin

lemma senders:
  assumes "P st"
  shows "P (senderror d m st)" "P (sendstatus d c m st)" "P (sendimport d c m st)" "P (sends_cmdout d m st)"
  using assms by (simp_all add: sender_rules net emits)

lemma opens: "P st \<Longrightarrow> in_tab i (u_tab st) \<Longrightarrow> P (sendopen i d m st)"
  by (simp add: sender_rules net emits)

lemma casts:
  assumes "P st"
  shows "in_tab n (u_tab st) \<Longrightarrow> P (s_status_group 1 t n c m st)"
    and "in_tab n (g_tab st) \<Longrightarrow> P (s_status_group 2 t n c m st)"
  using s_status_group_emits [of st 1 n t c m] s_status_group_emits [of st 2 n t c m] assms
  by (auto simp: net intro: emits)

lemma ifs:
  "(c \<Longrightarrow> P a) \<Longrightarrow> (\<not> c \<Longrightarrow> P b) \<Longrightarrow> P (if c then a else b)"
  "(c \<Longrightarrow> P (snd p)) \<Longrightarrow> (\<not> c \<Longrightarrow> P (snd q)) \<Longrightarrow> P (snd (if c then p else q))"
  by simp_all

lemma pairs: "P b \<Longrightarrow> P (snd (a, b))"
  by simp

lemma let_need:
  "in_tab i (u_tab st) \<Longrightarrow> P (f st) \<Longrightarrow> P (Let (need_u i st) f)"
  "in_tab i (g_tab st) \<Longrightarrow> P (f st) \<Longrightarrow> P (Let (need_g i st) f)"
  "in_tab i (u_tab st) \<Longrightarrow> P (snd (g st)) \<Longrightarrow> P (snd (Let (need_u i st) g))"
  "in_tab i (g_tab st) \<Longrightarrow> P (snd (g st)) \<Longrightarrow> P (snd (Let (need_g i st) g))"
  by simp_all

lemma let_state:
  "P e \<Longrightarrow> (\<And>s. P s \<Longrightarrow> P (f s)) \<Longrightarrow> P (Let e f)"
  "P e \<Longrightarrow> (\<And>s. P s \<Longrightarrow> P (snd (g s))) \<Longrightarrow> P (snd (Let e g))"
  by simp_all

lemma let_pair:
  "P (snd e) \<Longrightarrow> (\<And>a s. P s \<Longrightarrow> P (f a s)) \<Longrightarrow> P (Let e (\<lambda>(a, s). f a s))"
  "P (snd e) \<Longrightarrow> (\<And>a s. P s \<Longrightarrow> P (snd (g a s))) \<Longrightarrow> P (snd (Let e (\<lambda>(a, s). g a s)))"
  by (simp_all add: split_beta)

lemma let_value:
  "(\<And>x. x = e \<Longrightarrow> P (f x)) \<Longrightarrow> P (Let e f)"
  "(\<And>x. x = e \<Longrightarrow> P (snd (g x))) \<Longrightarrow> P (snd (Let e g))"
  by simp_all

lemma let_values:
  "(\<And>a b. e = (a, b) \<Longrightarrow> P (f a b)) \<Longrightarrow> P (Let e (\<lambda>(a, b). f a b))"
  "(\<And>a b. e = (a, b) \<Longrightarrow> P (snd (g a b))) \<Longrightarrow> P (snd (Let e (\<lambda>(a, b). g a b)))"
  by (simp_all split: prod.splits)

lemma case_pair:
  "(\<And>a b. p = (a, b) \<Longrightarrow> P (f a b)) \<Longrightarrow> P (case p of (a, b) \<Rightarrow> f a b)"
  "(\<And>a b. p = (a, b) \<Longrightarrow> P (snd (g a b))) \<Longrightarrow> P (snd (case p of (a, b) \<Rightarrow> g a b))"
  by (simp_all split: prod.splits)

lemma case_option:
  "(x = None \<Longrightarrow> P a) \<Longrightarrow> (\<And>y. x = Some y \<Longrightarrow> P (f y)) \<Longrightarrow> P (case x of None \<Rightarrow> a | Some y \<Rightarrow> f y)"
  "(x = None \<Longrightarrow> P (snd p)) \<Longrightarrow> (\<And>y. x = Some y \<Longrightarrow> P (snd (g y)))
     \<Longrightarrow> P (snd (case x of None \<Rightarrow> p | Some y \<Rightarrow> g y))"
  by (simp_all split: option.splits)

lemma folds: "P st \<Longrightarrow> (\<And>i s. i \<in> set xs \<Longrightarrow> P s \<Longrightarrow> P (f i s)) \<Longrightarrow> P (fold f xs st)"
  by (induction xs arbitrary: st) auto

lemmas ctl = ifs pairs let_need let_pair let_values let_state let_value case_option case_pair folds

end

section \<open>Rules for staying well-formed\<close>

text \<open>
  \<open>safe s0 st\<close>: the tables are well-formed and of the size they had in \<open>s0\<close>, and no access
  outside a table and no overlong copy has happened since. The rules below walk through a
  handler; the state after each step is only known to be \<open>safe\<close>.
\<close>

definition safe :: "srv \<Rightarrow> srv \<Rightarrow> bool" where
  "safe s0 st \<longleftrightarrow> srv_ok st \<and> net_ok st \<and> fault st = fault s0
     \<and> length (u_tab st) = length (u_tab s0) \<and> length (g_tab st) = length (g_tab s0)"

lemma safe_refl: "srv_ok st \<Longrightarrow> net_ok st \<Longrightarrow> safe st st"
  by (simp add: safe_def)

lemma safe_trans: "safe s0 s1 \<Longrightarrow> safe s1 s2 \<Longrightarrow> safe s0 s2"
  by (simp add: safe_def)

lemma safe_tab:
  assumes "safe s0 st"
  shows "in_tab i (u_tab st) = in_tab i (u_tab s0)" "in_tab i (g_tab st) = in_tab i (g_tab s0)"
  using assms by (simp_all add: safe_def in_tab_def)

lemma safeD: "safe s0 st \<Longrightarrow> srv_ok st" "safe s0 st \<Longrightarrow> net_ok st"
  by (simp_all add: safe_def)

lemma safe_emits: "safe s0 st \<Longrightarrow> safe s0 (emits ps r st)"
  by (simp add: safe_def)

interpretation hp: handler_pred "safe s0" for s0
  by unfold_locales (simp_all add: safeD safe_emits)

lemmas safe_senders = hp.senders
lemmas safe_ctl = hp.ctl

lemma safe_sendopen: "safe s0 st \<Longrightarrow> in_tab i (u_tab s0) \<Longrightarrow> safe s0 (sendopen i d m st)"
  by (simp add: hp.opens safe_tab)

lemma safe_status_group:
  assumes "safe s0 st"
  shows "in_tab n (u_tab s0) \<Longrightarrow> safe s0 (s_status_group 1 t n c m st)"
    and "in_tab n (g_tab s0) \<Longrightarrow> safe s0 (s_status_group 2 t n c m st)"
  using assms by (simp_all add: hp.casts safe_tab)

lemma safe_upd_g:
  assumes "safe s0 st" "in_tab i (g_tab s0)" "\<And>g. g_name (f g) = g_name g"
    and "\<And>g. group_ok s0 g \<Longrightarrow> group_ok s0 (f g)"
  shows "safe s0 (upd_g i f st)"
proof -
  have "group_ok st = group_ok s0" by (rule ext) (simp add: group_ok_def safe_tab [OF assms(1)])
  then have "srv_ok (upd_g i f st)" using srv_ok_upd_g [of st f i] assms safeD(1) by auto
  with assms(1,2) show ?thesis by (simp add: safe_def safe_tab [OF assms(1)])
qed

lemma safe_upd_u:
  assumes "safe s0 st" "in_tab i (u_tab s0)" "\<And>u. u_group (f u) = u_group u"
    "\<And>u. u_nickname (f u) = u_nickname u" "\<And>u. user_ok u \<Longrightarrow> user_ok (f u)"
  shows "safe s0 (upd_u i f st)"
  using assms by (simp add: safe_def safe_tab srv_ok_upd_u)

lemma safe_others:
  assumes "safe s0 st"
  shows "safe s0 (st\<lparr>pfields := fs\<rparr>)" "safe s0 (st\<lparr>is_booting := x\<rparr>)" "safe s0 (st\<lparr>stats := y\<rparr>)"
    "safe s0 (st\<lparr>lpriv_id := (lpriv_id st)[k := v]\<rparr>)" "safe s0 (st\<lparr>pfields := fs, is_booting := x\<rparr>)"
  using assms by (simp_all add: safe_def net_ok_def)

lemmas safe_walk = safe_ctl safe_senders safe_sendopen safe_status_group safe_others

text \<open>
  \<open>calm s0 st\<close>: in addition, no group has changed its name and no user the group.
\<close>

definition calm :: "srv \<Rightarrow> srv \<Rightarrow> bool" where
  "calm s0 st \<longleftrightarrow> safe s0 st \<and> (\<forall>i. g_name (grp st i) = g_name (grp s0 i))
     \<and> (\<forall>i. u_group (usr st i) = u_group (usr s0 i))"

lemma calm_safe: "calm s0 st \<Longrightarrow> safe s0 st"
  by (simp add: calm_def)

lemma calm_refl: "srv_ok st \<Longrightarrow> net_ok st \<Longrightarrow> calm st st"
  by (simp add: calm_def safe_refl)

lemmas calm_tab = safe_tab [OF calm_safe]
lemmas calmD = safeD [OF calm_safe]

lemma calm_emits: "calm s0 st \<Longrightarrow> calm s0 (emits ps r st)"
  by (simp add: calm_def safe_emits)

interpretation hc: handler_pred "calm s0" for s0
  by unfold_locales (simp_all add: calmD calm_emits)

lemmas calm_senders = hc.senders
lemmas calm_ctl = hc.ctl

lemma calm_sendopen: "calm s0 st \<Longrightarrow> in_tab i (u_tab s0) \<Longrightarrow> calm s0 (sendopen i d m st)"
  by (simp add: hc.opens calm_tab)

lemma calm_status_group:
  assumes "calm s0 st"
  shows "in_tab n (u_tab s0) \<Longrightarrow> calm s0 (s_status_group 1 t n c m st)"
    and "in_tab n (g_tab s0) \<Longrightarrow> calm s0 (s_status_group 2 t n c m st)"
  using assms by (simp_all add: hc.casts calm_tab)

lemma calm_upd_g:
  assumes "calm s0 st" "in_tab i (g_tab s0)" "\<And>g. g_name (f g) = g_name g"
    and "\<And>g. group_ok s0 g \<Longrightarrow> group_ok s0 (f g)"
  shows "calm s0 (upd_g i f st)"
  using assms safe_upd_g [of s0 st i f] by (simp add: calm_def)

lemmas calm_walk = calm_ctl calm_senders calm_sendopen calm_status_group

section \<open>Commands that move nobody\<close>

text \<open>A user who has a group.\<close>

definition in_group :: "int \<Rightarrow> srv \<Rightarrow> bool" where
  "in_group n st \<longleftrightarrow> in_tab n (u_tab st) \<and> u_group (usr st n) \<noteq> []"

lemma in_groupD:
  assumes "srv_ok st" "in_group n st"
  shows "in_tab n (u_tab st)" "in_tab (find_group (u_group (usr st n)) st) (g_tab st)"
  using assms find_group_found(1) by (auto simp: in_group_def srv_ok_def users_housed_def)

lemma group_ok_lists:
  "group_ok st g \<Longrightarrow> list_all nl_ok (group_lists g')
   \<Longrightarrow> g_name g' = g_name g \<Longrightarrow> g_topic g' = g_topic g \<Longrightarrow> g_idleboot_msg g' = g_idleboot_msg g
   \<Longrightarrow> g_mod g' = g_mod g \<Longrightarrow> group_ok st g'"
  by (simp add: group_ok_def)

lemma group_ok_nl: "group_ok st g \<Longrightarrow> list_all nl_ok (group_lists g)"
  by (simp add: group_ok_def)

lemma calm_s_send_group:
  "srv_ok st \<Longrightarrow> net_ok st \<Longrightarrow> in_tab n (u_tab st) \<Longrightarrow> calm st (snd (s_send_group n st))"
  unfolding s_send_group_def
  by (rule calm_walk calm_refl | assumption)+

lemma calm_s_exclude:
  "srv_ok st \<Longrightarrow> net_ok st \<Longrightarrow> in_tab n (u_tab st) \<Longrightarrow> calm st (snd (s_exclude n argc st))"
  unfolding s_exclude_def
  by (rule calm_walk calm_refl | assumption)+

lemma calm_relinquish:
  "calm s0 st \<Longrightarrow> in_tab n (u_tab s0) \<Longrightarrow> in_tab gi (g_tab s0) \<Longrightarrow> calm s0 (relinquish n gi st)"
  unfolding relinquish_def
  by (rule calm_walk calm_upd_g | assumption | simp add: group_ok_def group_lists_def)+

lemma calm_s_pass:
  assumes "srv_ok st" "net_ok st" "in_group n st"
  shows "calm st (snd (s_pass n argc st))"
  unfolding s_pass_def
  using assms in_groupD [OF assms(1,3)] find_user_found(1) [of "getword (field st 1)" st]
  by - (rule calm_walk calm_refl calm_relinquish calm_upd_g | assumption | simp add: group_ok_def group_lists_def)+

lemma calm_s_topic:
  assumes "srv_ok st" "net_ok st" "in_group n st"
  shows "calm st (snd (s_topic n argc st))"
  unfolding s_topic_def
  using assms in_groupD [OF assms(1,3)]
  by - (rule calm_walk calm_refl calm_upd_g | assumption | simp add: group_ok_def group_lists_def)+

lemma nl_ok_delete_if:
  "nl_delete who l = (r, l') \<Longrightarrow> nl_ok l \<Longrightarrow> nl_ok l'"
  "(if c then (-1, l) else nl_delete who l) = (r, l') \<Longrightarrow> nl_ok l \<Longrightarrow> nl_ok l'"
  using nl_ok_delete [of l who] by (auto split: if_splits)

lemma group_ok_two_lists:
  assumes "group_ok st g" "nl_ok l1" "nl_ok l2"
  shows "group_ok st (if c then g\<lparr>n_invites := l1, nr_invites := l2\<rparr> else g\<lparr>s_invites := l1, sr_invites := l2\<rparr>)"
  using assms by (auto simp: group_ok_def group_lists_def)

lemma calm_s_cancel:
  assumes "srv_ok st" "net_ok st" "in_group n st"
  shows "calm st (snd (s_cancel n argc st))"
  unfolding s_cancel_def
  using assms in_groupD [OF assms(1,3)] group_ok_nl [OF srv_ok_grp [OF assms(1) in_groupD(2) [OF assms(1,3)]]]
  by - (rule calm_walk calm_refl calm_upd_g group_ok_two_lists | assumption
      | erule nl_ok_delete_if | simp add: group_lists_def)+

lemma calm_add_item: "calm s0 (snd b) \<Longrightarrow> calm s0 (snd (add_item n item b))"
  by (cases b) (auto simp: add_item_def calm_senders)

lemma calm_add_names: "calm s0 (snd b) \<Longrightarrow> calm s0 (snd (add_names n ti ix mk fi ss b))"
  by (induction n ti ix mk fi ss b rule: add_names.induct) (auto simp: Let_def calm_add_item)

lemma calm_list_lines: "calm s0 st \<Longrightarrow> calm s0 (list_lines n ti l lr st)"
  unfolding list_lines_def
  using calm_add_names hc.pairs by (simp add: split_beta Let_def calm_senders)

lemma calm_list_invites: "calm s0 st \<Longrightarrow> calm s0 (snd (list_invites n gi st))"
  by (simp add: list_invites_def Let_def calm_list_lines)

lemma put_invite_ok:
  "group_ok st g \<Longrightarrow> group_ok st (put_invite mode r who g)" "g_name (put_invite mode r who g) = g_name g"
  by (auto simp: put_invite_def group_ok_def group_lists_def nl_ok_put)

lemma calm_s_invite:
  assumes "srv_ok st" "net_ok st" "in_group n st"
  shows "calm st (snd (s_invite n argc st))"
  unfolding s_invite_def
  using assms in_groupD [OF assms(1,3)]
  by - (rule calm_walk calm_refl calm_upd_g put_invite_ok calm_list_invites | assumption | simp)+

text \<open>Talk lists. The list that a loop empties, and what deleting a name does to it.\<close>

definition talk_list :: "bool \<Rightarrow> group_item \<Rightarrow> nlist" where
  "talk_list reg g = (if reg then nr_talk g else n_talk g)"

definition drop_name :: "cstring \<Rightarrow> nlist \<Rightarrow> nlist" where
  "drop_name who l = (if nl_present who l then snd (nl_delete who l) else l)"

lemma nl_present_index: "nl_present who l \<longleftrightarrow> 0 \<le> find_index (strcaseeq who) (names l)"
  by (simp add: nl_present_def find_index_nonneg)

lemma drop_name_names:
  "set (names (drop_name who l)) \<subseteq> set (names l)"
  "nl_present who l \<Longrightarrow> length (names (drop_name who l)) = length (names l) - 1"
proof -
  show "set (names (drop_name who l)) \<subseteq> set (names l)"
    by (auto simp: drop_name_def nl_delete_def Let_def dest: mem_remove_nth)
  assume p: "nl_present who l"
  then have "nat (find_index (strcaseeq who) (names l)) < length (names l)"
    using find_index_nat [of "strcaseeq who" "names l"] by (simp add: nl_present_index)
  with p show "length (names (drop_name who l)) = length (names l) - 1"
    by (simp add: drop_name_def nl_delete_def Let_def nl_present_index length_remove_nth)
qed

lemma nl_ok_drop_name: "nl_ok l \<Longrightarrow> nl_ok (drop_name who l)"
  by (simp add: drop_name_def nl_ok_delete)

definition drop_talk :: "cstring \<Rightarrow> group_item \<Rightarrow> group_item" where
  "drop_talk who g = g\<lparr>n_talk := drop_name who (n_talk g), nr_talk := drop_name who (nr_talk g)\<rparr>"

lemma drop_talk_simps [simp]: "g_mod (drop_talk who g) = g_mod g" "g_name (drop_talk who g) = g_name g"
  "talk_list reg (drop_talk who g) = drop_name who (talk_list reg g)"
  by (simp_all add: drop_talk_def talk_list_def)

lemma group_ok_drop_talk: "group_ok st g \<Longrightarrow> group_ok st (drop_talk who g)"
  by (simp add: drop_talk_def group_ok_def group_lists_def nl_ok_drop_name)

lemma talk_delete_emits:
  assumes "net_ok st" "in_tab gi (g_tab st)" "in_tab (g_mod (grp st gi)) (u_tab st)"
  shows "\<exists>ps r. snd (talk_delete who gi st) = emits ps r (upd_g gi (drop_talk who) st)"
    and "fst (talk_delete who gi st) = (if nl_present who (n_talk (grp st gi)) then 1 else 0)
       + (if nl_present who (nr_talk (grp st gi)) then 1 else 0)"
proof -
  have f: "upd_g gi (\<lambda>g. g\<lparr>
      n_talk := (if nl_present who (n_talk (grp st gi)) then snd (nl_delete who (n_talk g)) else n_talk g),
      nr_talk := (if nl_present who (nr_talk (grp st gi)) then snd (nl_delete who (nr_talk g)) else nr_talk g)\<rparr>) st
    = upd_g gi (drop_talk who) st"
    using assms(2) by (simp add: upd_g_def drop_talk_def drop_name_def)
  show "\<exists>ps r. snd (talk_delete who gi st) = emits ps r (upd_g gi (drop_talk who) st)"
    unfolding talk_delete_def Let_def f using assms
    by (auto simp: sender_rules intro: exI [of _ "[]"] exI [of _ False])
       (metis emits_Nil)+
  show "fst (talk_delete who gi st) = (if nl_present who (n_talk (grp st gi)) then 1 else 0)
       + (if nl_present who (nr_talk (grp st gi)) then 1 else 0)"
    by (simp add: talk_delete_def Let_def)
qed

lemma nl_get_cursor:
  assumes "nl_ok l" "names l \<noteq> []"
  shows "fst (nl_get l) \<in> set (names l)" "names (snd (nl_get l)) = names l" "nl_ok (snd (nl_get l))"
    "nl_present (fst (nl_get l)) (snd (nl_get l))"
proof -
  have c: "cursor l < length (names l)" using assms by (simp add: nl_ok_def)
  then show m: "fst (nl_get l) \<in> set (names l)" by (simp add: nl_get_def)
  show n: "names (snd (nl_get l)) = names l" by (simp add: nl_get_def)
  show "nl_ok (snd (nl_get l))" using assms c by (simp add: nl_get_def nl_ok_def nl_count_def)
  show "nl_present (fst (nl_get l)) (snd (nl_get l))" using m strcaseeq_refl unfolding nl_present_def n by blast
qed

definition set_talk :: "bool \<Rightarrow> nlist \<Rightarrow> group_item \<Rightarrow> group_item" where
  "set_talk reg l g = (if reg then g\<lparr>nr_talk := l\<rparr> else g\<lparr>n_talk := l\<rparr>)"

lemma set_talk_simps [simp]: "g_mod (set_talk reg l g) = g_mod g" "g_name (set_talk reg l g) = g_name g"
  "talk_list b (set_talk reg l g) = (if b = reg then l else talk_list b g)"
  by (auto simp: set_talk_def talk_list_def)

lemma group_ok_set_talk: "group_ok st g \<Longrightarrow> nl_ok l \<Longrightarrow> group_ok st (set_talk reg l g)"
  by (simp add: set_talk_def group_ok_def group_lists_def)

lemma group_ok_talk: "group_ok st g \<Longrightarrow> nl_ok (talk_list reg g)"
  by (simp add: talk_list_def group_ok_def group_lists_def)

text \<open>One round of the loop that empties a talk list.\<close>

lemma talk_round:
  assumes t: "in_tab gi (g_tab s0)" "in_tab (g_mod (grp st gi)) (u_tab s0)" and s: "calm s0 st"
    and ne: "names (talk_list reg (grp st gi)) \<noteq> []"
  obtains st' where "talk_clear (Suc k) reg sfx n gi quiet st = talk_clear k reg sfx n gi quiet st'"
    "calm s0 st'" "g_mod (grp st' gi) = g_mod (grp st gi)"
    "\<And>b. set (names (talk_list b (grp st' gi))) \<subseteq> set (names (talk_list b (grp st gi)))"
    "length (names (talk_list reg (grp st gi))) - 1 \<le> length (names (talk_list reg (grp st' gi)))"
    "[] \<notin> set (names (talk_list reg (grp st gi))) \<Longrightarrow>
       length (names (talk_list reg (grp st' gi))) = length (names (talk_list reg (grp st gi))) - 1"
proof -
  define l where "l = talk_list reg (grp st gi)"
  obtain cp l' where g: "nl_get l = (cp, l')" by (cases "nl_get l")
  have tg: "in_tab gi (g_tab st)" using t s calm_tab by simp
  have "nl_ok l" unfolding l_def by (rule group_ok_talk [OF srv_ok_grp [OF calmD(1) [OF s] tg]])
  note c = nl_get_cursor [OF this ne [folded l_def], unfolded g fst_conv snd_conv]
  define s1 where "s1 = upd_g gi (set_talk reg l') st"
  have s1: "calm s0 s1" unfolding s1_def
    using s t by (rule_tac calm_upd_g) (simp_all add: group_ok_set_talk c(3))
  have g1: "grp s1 gi = set_talk reg l' (grp st gi)" using tg by (simp add: s1_def)
  have eq: "(\<lambda>g :: group_item. if reg then g\<lparr>nr_talk := l'\<rparr> else g\<lparr>n_talk := l'\<rparr>) = set_talk reg l'"
    by (rule ext) (simp add: set_talk_def)
  have L: "(if reg then nr_talk (grp st gi) else n_talk (grp st gi)) = l" by (simp add: l_def talk_list_def)
  show thesis
  proof (cases "cp = []")
    case True
    then have "talk_clear (Suc k) reg sfx n gi quiet st = talk_clear k reg sfx n gi quiet s1"
      using ne by (simp add: L g eq s1_def l_def [symmetric])
    then show thesis
      using True c(1,2) by (rule_tac that [OF _ s1]) (auto simp: g1 l_def)
  next
    case False
    have t1: "in_tab gi (g_tab s1)" "in_tab (g_mod (grp s1 gi)) (u_tab s1)"
      using t g1 calm_tab [OF s1] by simp_all
    obtain ps r where d: "snd (talk_delete cp gi s1) = emits ps r (upd_g gi (drop_talk cp) s1)"
      using talk_delete_emits(1) [OF calmD(2) [OF s1] t1] by blast
    have "fst (talk_delete cp gi s1) > 0"
      using c(4) unfolding talk_delete_emits(2) [OF calmD(2) [OF s1] t1] g1 by (auto simp: set_talk_def)
    with d obtain dc where td: "talk_delete cp gi s1 = (dc, emits ps r (upd_g gi (drop_talk cp) s1))" "dc > 0"
      by (metis prod.collapse)
    define s2 where "s2 = (if \<not> quiet then sendstatus n ''FYI'' (cp @ sfx) (emits ps r (upd_g gi (drop_talk cp) s1))
        else emits ps r (upd_g gi (drop_talk cp) s1))"

    have "talk_clear (Suc k) reg sfx n gi quiet st = talk_clear k reg sfx n gi quiet s2"
      using ne False by (subst talk_clear.simps) (simp add: L g eq s1_def [symmetric] l_def [symmetric] s2_def td split_beta)
    moreover have "calm s0 s2" unfolding s2_def
      using s1 t by (auto intro!: calm_senders calm_emits calm_upd_g group_ok_drop_talk)
    moreover have "grp s2 gi = drop_talk cp (set_talk reg l' (grp st gi))"
      using t1(1) calmD(2) [OF s1] by (simp add: s2_def sender_rules g1)
    ultimately show thesis
      using drop_name_names(1) [of cp l', unfolded c(2)] drop_name_names(1) [of cp "talk_list (\<not> reg) (grp st gi)"]
        drop_name_names(2) [OF c(4)] c(2)
      by (rule_tac that [of s2]) (simp_all add: l_def)
  qed
qed

lemma talk_clear_calm:
  assumes "in_tab gi (g_tab s0)" "in_tab (g_mod (grp st gi)) (u_tab s0)" "calm s0 st"
    and "k \<le> length (names (talk_list reg (grp st gi)))"
  shows "calm s0 (talk_clear k reg sfx n gi quiet st)
    \<and> g_mod (grp (talk_clear k reg sfx n gi quiet st) gi) = g_mod (grp st gi)
    \<and> (\<forall>b. set (names (talk_list b (grp (talk_clear k reg sfx n gi quiet st) gi)))
           \<subseteq> set (names (talk_list b (grp st gi))))
    \<and> ([] \<notin> set (names (talk_list reg (grp st gi))) \<longrightarrow>
         length (names (talk_list reg (grp (talk_clear k reg sfx n gi quiet st) gi)))
           = length (names (talk_list reg (grp st gi))) - k)"
  using assms
proof (induction k arbitrary: st)
  case (Suc k)
  then have "names (talk_list reg (grp st gi)) \<noteq> []" by auto
  from talk_round [OF Suc.prems(1,2,3) this] obtain st' where st':
    "talk_clear (Suc k) reg sfx n gi quiet st = talk_clear k reg sfx n gi quiet st'"
    "calm s0 st'" "g_mod (grp st' gi) = g_mod (grp st gi)"
    "\<And>b. set (names (talk_list b (grp st' gi))) \<subseteq> set (names (talk_list b (grp st gi)))"
    "length (names (talk_list reg (grp st gi))) - 1 \<le> length (names (talk_list reg (grp st' gi)))"
    "[] \<notin> set (names (talk_list reg (grp st gi))) \<Longrightarrow>
       length (names (talk_list reg (grp st' gi))) = length (names (talk_list reg (grp st gi))) - 1"
    by metis
  have IH: "calm s0 (talk_clear k reg sfx n gi quiet st')
    \<and> g_mod (grp (talk_clear k reg sfx n gi quiet st') gi) = g_mod (grp st' gi)
    \<and> (\<forall>b. set (names (talk_list b (grp (talk_clear k reg sfx n gi quiet st') gi)))
           \<subseteq> set (names (talk_list b (grp st' gi))))
    \<and> ([] \<notin> set (names (talk_list reg (grp st' gi))) \<longrightarrow>
         length (names (talk_list reg (grp (talk_clear k reg sfx n gi quiet st') gi)))
           = length (names (talk_list reg (grp st' gi))) - k)"
    using Suc.prems st' by (intro Suc.IH) auto
  moreover have "[] \<notin> set (names (talk_list reg (grp st gi))) \<Longrightarrow> [] \<notin> set (names (talk_list reg (grp st' gi)))"
    using st'(4) by blast
  ultimately show ?case unfolding st'(1) st'(3) using st'(4,6) by fastforce
qed simp

lemma calm_talk_add:
  assumes "calm s0 st" "in_tab gi (g_tab s0)"
  shows "calm s0 (talk_add n gi who r quiet st)"
  unfolding talk_add_def using assms
  by - (rule calm_walk calm_upd_g | assumption | simp add: group_ok_def group_lists_def nl_ok_put)+

lemma calm_talk_delete:
  assumes "calm s0 st" "in_tab gi (g_tab s0)" "in_tab (g_mod (grp st gi)) (u_tab s0)"
  shows "calm s0 (snd (talk_delete who gi st))"
proof -
  obtain ps r where "snd (talk_delete who gi st) = emits ps r (upd_g gi (drop_talk who) st)"
    using talk_delete_emits(1) [OF calmD(2) [OF assms(1)], of gi] assms calm_tab by blast
  moreover have "calm s0 (upd_g gi (drop_talk who) st)"
    using assms by (intro calm_upd_g) (auto intro: group_ok_drop_talk)
  ultimately show ?thesis by (simp add: calm_emits)
qed

text \<open>Both loops together.\<close>

lemma talk_clear_both:
  assumes "in_tab gi (g_tab s0)" "in_tab (g_mod (grp st gi)) (u_tab s0)" "calm s0 st"
    and s1_def: "s1 = talk_clear (nat (nl_count (n_talk (grp st gi)))) False sf1 n gi quiet st"
    and s2_def: "s2 = talk_clear (nat (nl_count (nr_talk (grp s1 gi)))) True sf2 n gi quiet s1"
  shows "calm s0 s2" and "[] \<notin> set (names (n_talk (grp st gi))) \<Longrightarrow> [] \<notin> set (names (nr_talk (grp st gi))) \<Longrightarrow>
    names (n_talk (grp s2 gi)) = [] \<and> names (nr_talk (grp s2 gi)) = []"
proof -
  have t: "talk_list False g = n_talk g" "talk_list True g = nr_talk g" for g by (simp_all add: talk_list_def)
  note a = talk_clear_calm [OF assms(1-3), of "length (names (n_talk (grp st gi)))" False sf1 n quiet, unfolded t]
  have s1: "s1 = talk_clear (length (names (n_talk (grp st gi)))) False sf1 n gi quiet st"
    by (simp add: s1_def nl_count_def)
  have s2: "s2 = talk_clear (length (names (nr_talk (grp s1 gi)))) True sf2 n gi quiet s1"
    by (simp add: s2_def nl_count_def)
  from a have A: "calm s0 s1" "in_tab (g_mod (grp s1 gi)) (u_tab s0)"
    "set (names (nr_talk (grp s1 gi))) \<subseteq> set (names (nr_talk (grp st gi)))"
    "[] \<notin> set (names (n_talk (grp st gi))) \<Longrightarrow> names (n_talk (grp s1 gi)) = []"
    using assms(2) unfolding s1 all_bool_eq t by auto
  note b = talk_clear_calm [OF assms(1) A(2,1), of "length (names (nr_talk (grp s1 gi)))" True sf2 n quiet, unfolded t]
  from b show "calm s0 s2" by (simp add: s2)
  assume "[] \<notin> set (names (n_talk (grp st gi)))" "[] \<notin> set (names (nr_talk (grp st gi)))"
  with A(3,4) b show "names (n_talk (grp s2 gi)) = [] \<and> names (nr_talk (grp s2 gi)) = []"
    unfolding s2 all_bool_eq t by auto
qed

lemma calm_talk_clear:
  assumes "calm s0 st" "in_tab gi (g_tab s0)" "in_tab (g_mod (grp st gi)) (u_tab s0)"
  shows "calm s0 (let s = talk_clear (nat (nl_count (n_talk (grp st gi)))) False sf1 n gi quiet st
     in talk_clear (nat (nl_count (nr_talk (grp s gi)))) True sf2 n gi quiet s)"
  using talk_clear_both(1) [OF assms(2,3,1) refl refl] by (simp add: Let_def)

lemma calm_s_talk:
  assumes "srv_ok st" "net_ok st" "in_group n st"
  shows "calm st (snd (s_talk n argc st))"
proof -
  note g = in_groupD [OF assms(1,3)]
  have m: "g_mod (grp st (find_group (u_group (usr st n)) st)) = n \<Longrightarrow>
    in_tab (g_mod (grp st (find_group (u_group (usr st n)) st))) (u_tab st)" using g(1) by simp
  show ?thesis unfolding s_talk_def using assms g m
    by - (rule calm_talk_clear calm_walk calm_refl calm_talk_add calm_talk_delete | assumption | simp)+
qed

section \<open>Changing group\<close>

text \<open>Giving a group entry another name, and moving a user.\<close>

lemma srv_ok_rename:
  assumes ok: "srv_ok st" and i: "in_tab i (g_tab st)" and f: "group_ok st (f (grp st i))"
    and new: "g_name (f (grp st i)) = [] \<or>
      (\<forall>j. in_tab j (g_tab st) \<and> j \<noteq> i \<longrightarrow> \<not> strcaseeq (g_name (f (grp st i))) (g_name (grp st j)))"
    and old: "\<And>k. in_tab k (u_tab st) \<Longrightarrow> u_group (usr st k) \<noteq> [] \<Longrightarrow>
      strcaseeq (g_name (grp st i)) (u_group (usr st k)) \<Longrightarrow> strcaseeq (g_name (f (grp st i))) (u_group (usr st k))"
  shows "srv_ok (upd_g i f st)"
proof -
  let ?s = "upd_g i f st"
  have gs: "\<forall>g \<in> set (g_tab ?s). group_ok st g"
    using srv_okD(3) [OF ok] f set_update_subset_insert [of "g_tab st" "nat i" "f (grp st i)"]
    by (auto simp: g_tab_upd_g [OF i])
  have d: "groups_distinct ?s"
    unfolding groups_distinct_def
  proof (intro allI impI, elim conjE)
    fix a b assume ab: "in_tab a (g_tab ?s)" "in_tab b (g_tab ?s)" "a \<noteq> b" "g_name (grp ?s a) \<noteq> []"
    consider "a = i" | "b = i" | "a \<noteq> i" "b \<noteq> i" by blast
    then show "\<not> strcaseeq (g_name (grp ?s a)) (g_name (grp ?s b))"
    proof cases
      case 1 with ab new i show ?thesis by auto
    next
      case 2
      with ab i have "g_name (grp st a) \<noteq> []" "in_tab a (g_tab st)" "a \<noteq> i" by auto
      with 2 ab new i show ?thesis by (auto simp: strcaseeq_sym)
    next
      case 3 with ab srv_okD(4) [OF ok] show ?thesis by (auto simp: groups_distinct_def)
    qed
  qed
  have "0 \<le> find_group (u_group (usr st k)) ?s"
    if k: "in_tab k (u_tab st)" "u_group (usr st k) \<noteq> []" for k
  proof -
    let ?j = "find_group (u_group (usr st k)) st"
    have "0 \<le> ?j" using srv_okD(5) [OF ok] k by (simp add: users_housed_def)
    note j = find_group_found(1,2) [OF this]
    have "strcaseeq (g_name (grp ?s ?j)) (u_group (usr st k))"
      using j(2) old [OF k] i by auto
    moreover have "grp ?s ?j \<in> set (g_tab ?s)" using j(1) by (intro grp_in) simp
    ultimately show ?thesis using k(2) by (auto simp: find_group_exists)
  qed
  then have "users_housed ?s" using srv_okD(5) [OF ok] by (simp add: users_housed_def)
  with ok gs d show ?thesis by (simp add: srv_ok_def)
qed

lemma srv_ok_move:
  assumes ok: "srv_ok st" and i: "in_tab i (u_tab st)" and f: "user_ok (f (usr st i))"
    and g: "u_group (f (usr st i)) \<noteq> []" "0 \<le> find_group (u_group (f (usr st i))) st"
  shows "srv_ok (upd_u i f st)"
proof -
  have fg: "find_group nm (upd_u i f st) = find_group nm st" for nm by (simp add: find_group_def)
  have "\<forall>u \<in> set (u_tab (upd_u i f st)). user_ok u"
    using srv_okD(2) [OF ok] f set_update_subset_insert [of "u_tab st" "nat i" "f (usr st i)"]
    by (auto simp: u_tab_upd_u [OF i])
  moreover have "users_housed (upd_u i f st)"
    using srv_okD(5) [OF ok] g by (auto simp: users_housed_def fg)
  moreover have "groups_distinct (upd_u i f st)"
    using srv_okD(4) [OF ok] by (simp add: groups_distinct_def)
  ultimately show ?thesis using ok by (simp add: srv_ok_def u_tab_upd_u [OF i])
qed

lemma in_tab_nonneg: "in_tab i t \<Longrightarrow> 0 \<le> i"
  by (simp add: in_tab_def)

lemma find_group_self:
  "srv_ok st \<Longrightarrow> in_tab i (g_tab st) \<Longrightarrow> g_name (grp st i) \<noteq> [] \<Longrightarrow> find_group (g_name (grp st i)) st = i"
  by (rule find_group_unique) (auto simp: srv_ok_def)

text \<open>Emptying the entry of a group nobody is in.\<close>

lemma cleared_group_ok: "group_ok st g \<Longrightarrow> group_ok st (cleared_group g)"
  by (simp add: group_ok_def cleared_group_def group_lists_def nl_ok_clear)

lemma safe_clear_group_item:
  assumes s: "safe s0 st" and i: "in_tab i (g_tab s0)"
    and none: "\<not> 0 < count_users_in_group (g_name (grp st i)) st"
  shows "safe s0 (clear_group_item i st)"
proof -
  have t: "in_tab i (g_tab st)" using s i safe_tab by simp
  have e: "\<not> strcaseeq (g_name (grp st i)) (u_group (usr st k))"
    if "in_tab k (u_tab st)" "u_group (usr st k) \<noteq> []" for k
  proof
    assume "strcaseeq (g_name (grp st i)) (u_group (usr st k))"
    then have "strcaseeq (u_group (usr st k)) (g_name (grp st i))" "g_name (grp st i) \<noteq> []"
      using that(2) strcaseeq_sym by auto
    with none usr_in [OF that(1)] show False by (auto simp: count_users_pos)
  qed
  have "srv_ok (upd_g i cleared_group st)"
    using e by (intro srv_ok_rename safeD(1) [OF s] t cleared_group_ok srv_ok_grp)
      (auto simp: cleared_group_def)
  with s t show ?thesis by (simp add: safe_def clear_group_item_def)
qed

lemma find_group_tab: "find_group nm st < 0 \<or> in_tab (find_group nm st) (g_tab st)"
  using find_group_found(1) by (meson not_less)

lemma safe_leave_group:
  assumes "safe s0 st" "ogi < 0 \<or> in_tab ogi (g_tab s0)"
  shows "safe s0 (leave_group n ogi st)"
  unfolding leave_group_def using assms
  by - (rule safe_walk safe_clear_group_item | assumption | simp)+

lemma safe_move:
  assumes s: "safe s0 st" and n: "in_tab n (u_tab s0)"
    and g: "in_tab ngi (g_tab s0)" "g_name (grp st ngi) \<noteq> []"
  shows "safe s0 (upd_u n (\<lambda>u. u\<lparr>u_group := g_name (grp st ngi)\<rparr>) st)"
proof -
  note t = safe_tab [OF s]
  have "group_ok st (grp st ngi)" "user_ok (usr st n)"
    using srv_ok_grp srv_ok_usr safeD(1) [OF s] n g(1) t by auto
  then have "srv_ok (upd_u n (\<lambda>u. u\<lparr>u_group := g_name (grp st ngi)\<rparr>) st)"
    using n g t in_tab_nonneg [OF g(1)] find_group_self [OF safeD(1) [OF s]]
    by (intro srv_ok_move safeD(1) [OF s]) (auto simp: user_ok_def user_lists_def group_ok_def)
  with s n show ?thesis by (simp add: safe_def t)
qed

lemma safe_enter_group:
  assumes "safe s0 st" "in_tab n (u_tab s0)" "in_tab ngi (g_tab s0)" "g_name (grp st ngi) \<noteq> []"
    "ogi < 0 \<or> in_tab ogi (g_tab s0)"
  shows "safe s0 (enter_group n ls ngi ogi st)"
  unfolding enter_group_def using assms
  by - (rule safe_move safe_walk safe_upd_u safe_leave_group | assumption | simp add: user_ok_def user_lists_def)+

lemma safe_probe:
  assumes "safe s0 st" "in_tab ngi (g_tab s0)"
  shows "safe s0 (probe n ngi m st)"
proof -
  have "g_mod (grp st ngi) > 0 \<Longrightarrow> in_tab (g_mod (grp st ngi)) (u_tab st)"
    using srv_ok_grp [OF safeD(1) [OF assms(1)], of ngi] assms safe_tab by (auto simp: group_ok_def)
  then show ?thesis unfolding probe_def using assms
    by - (rule safe_walk | assumption | simp)+
qed

lemma safe_join_group:
  assumes s: "safe s0 st" and t: "in_tab n (u_tab s0)" "in_tab ngi (g_tab s0)" "g_name (grp st ngi) \<noteq> []"
  shows "safe s0 (snd (join_group n ls ngi nm st))"
proof -
  have o: "find_group x st < 0 \<or> in_tab (find_group x st) (g_tab s0)" for x
    using find_group_tab [of x st] safe_tab [OF s] by simp
  show ?thesis unfolding join_group_def using assms o
    by - (rule safe_walk safe_probe safe_enter_group | assumption | simp)+
qed

lemma filtergroupname_props:
  "filtergroupname (filtergroupname s) = filtergroupname s" "length (filtergroupname s) = length s"
  "filtergroupname s = [] \<longleftrightarrow> s = []"
proof -
  have "is_alnum (filter_char OKGROUPCHARS c) \<or> filter_char OKGROUPCHARS c \<in> set OKGROUPCHARS" for c
    by (simp only: filter_char_ok okchars)
  then show "filtergroupname (filtergroupname s) = filtergroupname s"
    by (simp add: filtergroupname_def filter_char_id)
qed (simp_all add: filtergroupname_def)

lemma parse_group_length: "parse_group s = (nm, v) \<Longrightarrow> length nm \<le> MAX_GROUPLEN"
  by (auto simp: parse_group_def Let_def strncpy0_def split: if_splits)

lemma new_group_name: "g_name (new_group n nm vis g) = nm"
  by (simp add: new_group_def init_bars_def init_invites_def Let_def)

lemma new_group_ok:
  assumes "group_ok st g" "in_tab n (u_tab st)" "length nm \<le> MAX_GROUPLEN" "filtergroupname nm = nm"
  shows "group_ok st (new_group n nm vis g)"
  using assms
  by (auto simp: new_group_def init_bars_def init_invites_def Let_def group_ok_def group_lists_def
      nl_ok_init strncpy0_def)

lemma safe_new_group:
  assumes s: "safe s0 st" and n: "in_tab n (u_tab s0)" and i: "0 \<le> find_empty_group st"
    and nm: "length nm \<le> MAX_GROUPLEN" "filtergroupname nm = nm" "nm \<noteq> []" "find_group nm st < 0"
  shows "safe s0 (upd_g (find_empty_group st) (new_group n nm vis) st)"
proof -
  note e = find_empty_group_found [OF i]
  have fresh: "\<not> strcaseeq nm (g_name (grp st j))" if "in_tab j (g_tab st)" for j
    using nm(3,4) grp_in [OF that] find_group_exists [of nm st] by (auto simp: strcaseeq_sym [of nm])
  have "srv_ok (upd_g (find_empty_group st) (new_group n nm vis) st)"
    using fresh nm n safe_tab [OF s] e srv_ok_grp [OF safeD(1) [OF s] e(1)]
    by (intro srv_ok_rename safeD(1) [OF s]) (auto simp: new_group_name intro: new_group_ok)
  with s e show ?thesis by (simp add: safe_def)
qed

lemma safe_change_to:
  assumes s: "safe s0 st" and n: "in_tab n (u_tab s0)"
  shows "safe s0 (snd (change_to n ls st))"
proof (cases "field st 1 = []")
  case True
  with s show ?thesis by (simp add: change_to_def safe_senders)
next
  case False
  obtain nm vis where p: "parse_group (field st 1) = (nm, vis)" by (cases "parse_group (field st 1)")
  let ?g = "filtergroupname nm"
  have len: "length ?g \<le> MAX_GROUPLEN" using parse_group_length [OF p] by (simp add: filtergroupname_props)
  have a: "safe s0 (snd (join_group n ls (find_group ?g st) ?g st))" if "0 \<le> find_group ?g st"
    using find_group_found [OF that] s n safe_tab [OF s] by (intro safe_join_group) auto
  have b: "safe s0 (snd (join_group n ls (find_empty_group st) ?g (upd_g (find_empty_group st) (new_group n ?g vis) st)))"
    if "find_group ?g st < 0" "0 \<le> find_empty_group st" "nm \<noteq> []"
    using find_empty_group_found [OF that(2)] that s n safe_tab [OF s]
    by (intro safe_join_group safe_new_group len) (simp_all add: filtergroupname_props new_group_name)
  show ?thesis
    using False s a b
    by (auto simp: change_to_def p Let_def hp.pairs safe_senders not_less simp del: One_nat_def)
qed

text \<open>A group name does not start with an at sign, so a second \<open>@\<close> lookup never follows.\<close>

lemma filtered_no_at: "filtergroupname g = g \<Longrightarrow> CHR ''@'' \<notin> set g"
proof
  assume g: "filtergroupname g = g" and at: "CHR ''@'' \<in> set g"
  have q: "filter_char OKGROUPCHARS (CHR ''@'') \<noteq> CHR ''@''" by code_simp
  have "map (filter_char OKGROUPCHARS) g = map id g" using g by (simp add: filtergroupname_def)
  then have "filter_char OKGROUPCHARS (CHR ''@'') = id (CHR ''@'')"
    using at unfolding map_eq_conv by (rule bspec)
  with q show False by simp
qed

lemma strcaseeq_no_at: "strcaseeq a b \<Longrightarrow> CHR ''@'' \<notin> set b \<Longrightarrow> take 1 a \<noteq> ''@''"
proof
  assume eq: "strcaseeq a b" and b: "CHR ''@'' \<notin> set b" and "take 1 a = ''@''"
  then obtain a' where "a = CHR ''@'' # a'" by (cases a) auto
  with eq obtain c b' where c: "b = c # b'" "tolower c = tolower (CHR ''@'')"
    by (cases b) (auto simp: strcaseeq_def)
  have "tolower (CHR ''@'') = CHR ''@''" by code_simp
  with c have "tolower c = CHR ''@''" by simp
  then have "c = CHR ''@''" by (subst (asm) tolower_eq_space) simp_all
  with b c show False by simp
qed

lemma housed_group:
  assumes "srv_ok st" "in_tab k (u_tab st)" "u_nickname (usr st k) \<noteq> []"
  shows "in_tab (find_group (u_group (usr st k)) st) (g_tab st)" "take 1 (u_group (usr st k)) \<noteq> ''@''"
proof -
  have i: "0 \<le> find_group (u_group (usr st k)) st" "u_group (usr st k) \<noteq> []"
    using srv_okD(5) [OF assms(1)] assms by (auto simp: users_housed_def)
  note f = find_group_found [OF i(1)]
  from f(1) show "in_tab (find_group (u_group (usr st k)) st) (g_tab st)" .
  have "CHR ''@'' \<notin> set (g_name (grp st (find_group (u_group (usr st k)) st)))"
    using srv_ok_grp [OF assms(1) f(1)] filtered_no_at by (auto simp: group_ok_def)
  with strcaseeq_no_at f(2) strcaseeq_sym show "take 1 (u_group (usr st k)) \<noteq> ''@''" by blast
qed

lemma field_set: "field st i \<noteq> [] \<Longrightarrow> field (st\<lparr>pfields := (pfields st)[i := v]\<rparr>) i = v"
  by (simp add: field_def split: if_splits)

lemma s_change_1: "take 1 (field st 1) \<noteq> ''@'' \<Longrightarrow> s_change_n (Suc k) n ls st = change_to n ls st"
  by (simp del: One_nat_def)

text \<open>
  The group \<open>@user\<close> leads to: the two calls of \<open>s_change\<close> as one, with what is left of the
  command after the lookup.
\<close>

lemma s_change_cases:
  assumes ok: "srv_ok st"
  shows "take 1 (field st 1) = ''@'' \<Longrightarrow> find_user (drop 1 (field st 1)) st < 0 \<Longrightarrow>
      s_change_n 2 n ls st = (-1, senderror n ''User not found.'' st)"
    and "take 1 (field st 1) = ''@'' \<Longrightarrow> t = find_user (drop 1 (field st 1)) st \<Longrightarrow> 0 \<le> t \<Longrightarrow>
      s_change_n 2 n ls st =
        (if g_visibility (grp st (find_group (u_group (usr st t)) st)) \<noteq> VISIBLE
         then (-1, senderror n ''User not found.'' st)
         else change_to n False (st\<lparr>pfields := (pfields st)[1 := u_group (usr st t)]\<rparr>))"
    and "take 1 (field st 1) \<noteq> ''@'' \<Longrightarrow> s_change_n 2 n ls st = change_to n ls st"
proof -
  have two: "(2 :: nat) = Suc (Suc 0)" by simp
  show "take 1 (field st 1) = ''@'' \<Longrightarrow> find_user (drop 1 (field st 1)) st < 0 \<Longrightarrow>
      s_change_n 2 n ls st = (-1, senderror n ''User not found.'' st)"
    by (simp add: two del: One_nat_def)
  show "take 1 (field st 1) \<noteq> ''@'' \<Longrightarrow> s_change_n 2 n ls st = change_to n ls st"
    by (simp add: two del: One_nat_def)
  assume at: "take 1 (field st 1) = ''@''" and t: "t = find_user (drop 1 (field st 1)) st" "0 \<le> t"
  note u = find_user_found [OF t(2) [unfolded t(1)]]
  have "u_nickname (usr st t) \<noteq> []" using u(2,3) t(1) by auto
  note h = housed_group [OF ok u(1) [folded t(1)] this]
  let ?s = "st\<lparr>pfields := (pfields st)[1 := u_group (usr st t)]\<rparr>"
  have "field ?s 1 = u_group (usr st t)" using at by (intro field_set) auto
  then have "s_change_n (Suc 0) n False ?s = change_to n False ?s" using h(2) by (intro s_change_1) simp
  then show "s_change_n 2 n ls st =
        (if g_visibility (grp st (find_group (u_group (usr st t)) st)) \<noteq> VISIBLE
         then (-1, senderror n ''User not found.'' st) else change_to n False ?s)"
    using at t h(1) by (simp add: two Let_def del: One_nat_def s_change_n.simps(2))
      (simp add: Let_def del: One_nat_def)
qed

lemma safe_s_change:
  assumes s: "safe s0 st" and n: "in_tab n (u_tab s0)"
  shows "safe s0 (snd (s_change n argc st))"
proof -
  note c = s_change_cases [OF safeD(1) [OF s], where n = n]
  have p: "safe s0 (snd (change_to n False (st\<lparr>pfields := fs\<rparr>)))" for fs
    using s n by (intro safe_change_to safe_others)
  have "safe s0 (snd (s_change_n 2 n ls st))" for ls
  proof (cases "take 1 (field st 1) = ''@''")
    case True
    show ?thesis
      using c(1) [OF True, of ls] c(2) [OF True refl, of ls] p s
      by (cases "find_user (drop 1 (field st 1)) st < 0") (simp_all add: hp.pairs safe_senders not_less)
  next
    case False
    show ?thesis unfolding c(3) [OF False] using s n by (rule safe_change_to)
  qed
  then show ?thesis
    using s n safe_tab [OF s] by (simp add: s_change_def Let_def hp.pairs)
qed

lemma safe_do_boot:
  assumes s: "safe s0 st" and t: "in_tab n (u_tab s0)" "in_tab dest (u_tab s0)" "in_tab gi (g_tab s0)"
  shows "safe s0 (do_boot n dest gi msg st)"
proof -
  have "group_ok st (grp st gi)" using srv_ok_grp [OF safeD(1) [OF s]] t safe_tab [OF s] by simp
  then have l: "nl_ok (n_invites (grp st gi))" "nl_ok (nr_invites (grp st gi))"
    by (simp_all add: group_ok_def group_lists_def)
  show ?thesis unfolding do_boot_def using s t l
    by - (rule safe_walk safe_upd_g safe_s_change | assumption
      | (erule nl_ok_delete_if, assumption)
      | (simp add: group_ok_def group_lists_def, intro conjI; erule nl_ok_delete_if, assumption) | simp)+
qed

lemma safe_s_boot:
  assumes "srv_ok st" "net_ok st" "in_group n st"
  shows "safe st (snd (s_boot n argc st))"
  unfolding s_boot_def
  using assms in_groupD [OF assms(1,3)] find_user_found(1) [of "getword (field st 1)" st]
  by - (rule safe_walk safe_refl safe_do_boot | assumption | simp)+

end
