(* ===== verification/GroupProps.thy ===== *)
theory GroupProps
  imports GroupSafe
begin

text \<open>
  What the commands about groups do: who gets a message to a group, and what changing group
  does to the tables on every branch.
\<close>

section \<open>What changing group does\<close>

lemma emits_upd [simp]:
  "upd_u i f (emits ps r st) = emits ps r (upd_u i f st)"
  "upd_g i g (emits ps r st) = emits ps r (upd_g i g st)"
  by (simp_all add: emits_def upd_u_def upd_g_def need_u_def need_g_def flag_fault_def usr_def grp_def)

lemma upd_u_upd_u: "in_tab i (u_tab st) \<Longrightarrow> upd_u i g (upd_u i f st) = upd_u i (\<lambda>u. g (f u)) st"
  by (auto simp: upd_u_def need_u_def flag_fault_def usr_def in_tab_def)

lemma now_upd [simp]: "now (upd_u i f st) = now st" "now (upd_g i g st) = now st"
  by (simp_all add: upd_u_def upd_g_def need_u_def need_g_def flag_fault_def)

definition old_group :: "int \<Rightarrow> srv \<Rightarrow> int" where
  "old_group n st = (if u_group (usr st n) = [] then -1 else find_group (u_group (usr st n)) st)"

text \<open>The tables after user \<open>n\<close> has moved to group \<open>ngi\<close>.\<close>

definition moved :: "int \<Rightarrow> int \<Rightarrow> srv \<Rightarrow> srv" where
  "moved n ngi st =
     (let st1 = upd_u n (\<lambda>u. u\<lparr>u_group := g_name (grp st ngi), u_t_group := now st\<rparr>) st; ogi = old_group n st
      in if 0 \<le> ogi \<and> \<not> 0 < count_users_in_group (g_name (grp st ogi)) st1
         then clear_group_item ogi st1 else st1)"

lemma leave_group_emits:
  assumes "net_ok st" "ogi < 0 \<or> in_tab ogi (g_tab st)"
  shows "\<exists>ps r. leave_group n ogi st = emits ps r
    (if 0 \<le> ogi \<and> \<not> 0 < count_users_in_group (g_name (grp st ogi)) st then clear_group_item ogi st else st)"
proof (cases "0 \<le> ogi \<and> 0 < count_users_in_group (g_name (grp st ogi)) st \<and> g_volume (grp st ogi) \<noteq> QUIET")
  case True
  with assms have t: "if (2 :: int) = 1 then in_tab ogi (u_tab st) else in_tab ogi (g_tab st)" by auto
  obtain ps r where s: "s_status_group 2 False ogi ''Depart'' (who_is n st @ '' just left'') st = emits ps r st"
    using s_status_group_emits [OF assms(1) t, of False "''Depart''" "who_is n st @ '' just left''"] by blast
  show ?thesis using True assms(1) s
    by (cases "g_mod (grp st ogi) = n") (auto simp: leave_group_def sender_rules)
next
  case False
  then show ?thesis by (auto simp: leave_group_def intro!: exI [of _ "[]"] exI [of _ False])
qed

lemma enter_group_emits:
  assumes net: "net_ok st" and t: "in_tab n (u_tab st)" "ogi < 0 \<or> in_tab ogi (g_tab st)"
    and o: "ogi = old_group n st"
  shows "\<exists>ps r. enter_group n ls ngi ogi st = emits ps r (moved n ngi st)"
proof -
  let ?g = "g_name (grp st ngi)"
  let ?s = "upd_u n (\<lambda>u. u\<lparr>u_group := ?g\<rparr>) st"
  let ?t = "upd_u n (\<lambda>u. u\<lparr>u_group := ?g, u_t_group := now st\<rparr>) st"
  let ?c = "if u_login (usr ?s n) < LOGIN_COMPLETE \<or> ls then ''Sign-on'' else ''Arrive''"
  let ?m = "who_is n ?s @ '' entered group''"
  have "if (1 :: int) = 1 then in_tab n (u_tab ?s) else in_tab n (g_tab ?s)" using t by simp
  from s_status_group_emits [OF _ this, of False ?c ?m] net
  obtain ps r where a: "s_status_group 1 False n ?c ?m ?s = emits ps r ?s" by auto
  define b where "b = (if g_volume (grp ?s ngi) \<noteq> QUIET then s_status_group 1 False n ?c ?m ?s else ?s)"
  have b: "\<exists>ps r. b = emits ps r ?s"
    unfolding b_def a by (metis emits_Nil)
  obtain qs q where c: "upd_u n (\<lambda>u. u\<lparr>u_t_group := now st\<rparr>) (sendstatus n ''Status'' (''You are now in group '' @ g_name (grp b ngi)
      @ (if g_mod (grp b ngi) = n then '' as moderator'' else [])) b) = emits qs q ?t"
    using b net t(1) by (auto simp: sender_rules upd_u_upd_u)
  have nb: "now (sendstatus n ''Status'' m b) = now st" for m using b net by (auto simp: sender_rules)
  have e: "enter_group n ls ngi ogi st = leave_group n ogi (emits qs q ?t)"
    unfolding enter_group_def Let_def b_def [symmetric] nb c ..
  have "\<exists>ps r. leave_group n ogi (emits qs q ?t) = emits ps r
    (if 0 \<le> ogi \<and> \<not> 0 < count_users_in_group (g_name (grp (emits qs q ?t) ogi)) (emits qs q ?t)
     then clear_group_item ogi (emits qs q ?t) else emits qs q ?t)"
    by (rule leave_group_emits) (use net t in auto)
  then show ?thesis
    unfolding e by (elim exE) (simp add: moved_def o [symmetric] Let_def clear_group_item_def, blast)
qed

lemma probe_tabs:
  assumes "srv_ok st" "net_ok st" "in_tab ngi (g_tab st)"
  shows "u_tab (probe n ngi m st) = u_tab st" "g_tab (probe n ngi m st) = g_tab st" "net_ok (probe n ngi m st)"
proof -
  have "g_mod (grp st ngi) > 0 \<Longrightarrow> in_tab (g_mod (grp st ngi)) (u_tab st)"
    using srv_ok_grp [OF assms(1,3)] by (auto simp: group_ok_def)
  then show "u_tab (probe n ngi m st) = u_tab st" "g_tab (probe n ngi m st) = g_tab st" "net_ok (probe n ngi m st)"
    using assms(2) by (auto simp: probe_def Let_def sender_rules)
qed

lemma join_group_outcome:
  assumes ok: "srv_ok st" "net_ok st" and t: "in_tab n (u_tab st)" "in_tab ngi (g_tab st)"
  shows "if may_enter n ngi st \<and> \<not> group_full n ngi st \<and> ngi \<noteq> old_group n st
    then fst (join_group n ls ngi nm st) = 0 \<and> (\<exists>ps r. snd (join_group n ls ngi nm st) = emits ps r (moved n ngi st))
    else fst (join_group n ls ngi nm st) = -1 \<and> u_tab (snd (join_group n ls ngi nm st)) = u_tab st
      \<and> g_tab (snd (join_group n ls ngi nm st)) = g_tab st"
proof -
  have o: "(if u_group (usr st n) = [] then -1 else find_group (u_group (usr st n)) st) = old_group n st"
    by (simp add: old_group_def)
  have "old_group n st < 0 \<or> in_tab (old_group n st) (g_tab st)"
    using find_group_tab by (simp add: old_group_def)
  note e = enter_group_emits [OF ok(2) t(1) this refl, of ls ngi]
  have r: "u_tab (senderror n x st) = u_tab st" "g_tab (senderror n x st) = g_tab st" for x
    using ok by (simp_all add: sender_rules)
  have p: "u_tab (probe n ngi m (senderror n x st)) = u_tab st" "g_tab (probe n ngi m (senderror n x st)) = g_tab st" for m x
    using probe_tabs [of "senderror n x st" ngi n m] ok t(2) by (simp_all add: sender_rules)
  have q: "u_tab (senderror n x (probe n ngi m st)) = u_tab st" "g_tab (senderror n x (probe n ngi m st)) = g_tab st" for m x
    using probe_tabs [OF ok t(2), of n m] by (simp_all add: sender_rules)
  show ?thesis
  proof (cases "may_enter n ngi st \<and> \<not> group_full n ngi st")
    case True
    then show ?thesis unfolding join_group_def o Let_def using e by (auto simp: r)
  next
    case False
    then show ?thesis unfolding join_group_def o Let_def using p q by auto
  qed
qed

lemma moved_usr:
  assumes "in_tab n (u_tab st)"
  shows "usr (moved n ngi st) n = (usr st n)\<lparr>u_group := g_name (grp st ngi), u_t_group := now st\<rparr>"
    and "k \<noteq> n \<Longrightarrow> usr (moved n ngi st) k = usr st k"
    and "u_tab (moved n ngi st)
      = (u_tab st)[nat n := (usr st n)\<lparr>u_group := g_name (grp st ngi), u_t_group := now st\<rparr>]"
  using assms by (simp_all add: moved_def Let_def clear_group_item_def u_tab_upd_u)

lemma moved_grp: "j \<noteq> old_group n st \<Longrightarrow> grp (moved n ngi st) j = grp st j"
  "in_tab j (g_tab (moved n ngi st)) = in_tab j (g_tab st)" "in_tab k (u_tab (moved n ngi st)) = in_tab k (u_tab st)"
  by (auto simp: moved_def Let_def clear_group_item_def)

text \<open>The tables after a command that may move user \<open>n\<close>.\<close>

definition change_result :: "int \<Rightarrow> srv \<Rightarrow> int \<times> srv \<Rightarrow> bool" where
  "change_result n st p \<longleftrightarrow>
     fst p = -1 \<and> u_tab (snd p) = u_tab st \<and> g_tab (snd p) = g_tab st
     \<or> fst p = 0 \<and> (\<exists>ngi st1. in_tab ngi (g_tab st) \<and> ngi \<noteq> old_group n st1 \<and> g_name (grp st1 ngi) \<noteq> []
         \<and> u_tab (snd p) = u_tab (moved n ngi st1) \<and> g_tab (snd p) = g_tab (moved n ngi st1)
         \<and> srv_ok st1 \<and> u_tab st1 = u_tab st \<and> old_group n st1 = old_group n st
         \<and> (g_tab st1 = g_tab st \<and> may_enter n ngi st \<and> \<not> group_full n ngi st
            \<or> g_name (grp st ngi) = []
              \<and> (\<exists>nm vis. g_tab st1 = (g_tab st)[nat ngi := new_group n nm vis (grp st ngi)])))"

lemma old_group_cong:
  "u_tab st' = u_tab st \<Longrightarrow> g_tab st' = g_tab st \<Longrightarrow> old_group n st' = old_group n st"
  by (simp add: old_group_def usr_def find_group_def)

lemma old_group_new:
  assumes ok: "srv_ok st" and n: "in_tab n (u_tab st)" and i: "in_tab i (g_tab st)" "g_name (grp st i) = []"
    and ok': "srv_ok (upd_g i f st)"
  shows "old_group n (upd_g i f st) = old_group n st" "old_group n st \<noteq> i"
proof -
  show ne: "old_group n st \<noteq> i"
    using find_group_found(2) [of "u_group (usr st n)" st] find_group_found(3) [of "u_group (usr st n)" st] i in_tab_nonneg [OF i(1)]
    by (auto simp: old_group_def split: if_splits)
  show "old_group n (upd_g i f st) = old_group n st"
  proof (cases "u_group (usr st n) = []")
    case False
    have g: "0 \<le> find_group (u_group (usr st n)) st"
      using srv_okD(5) [OF ok] n False by (simp add: users_housed_def)
    have "find_group (u_group (usr st n)) (upd_g i f st) = find_group (u_group (usr st n)) st"
      using find_group_found [OF g] False ne
      by (intro find_group_unique srv_okD(4) [OF ok']) (auto simp: old_group_def)
    with False show ?thesis by (simp add: old_group_def)
  qed (simp add: old_group_def)
qed

text \<open>A new group is never restricted nor full for its founder.\<close>

lemma new_group_open:
  assumes "in_tab i (g_tab st)"
  shows "may_enter n i (upd_g i (new_group n nm vis) st)" "\<not> group_full n i (upd_g i (new_group n nm vis) st)"
proof -
  let ?g = "new_group n nm vis (grp st i)"
  have "g_control ?g = PUBLIC \<or> g_control ?g = MODERATED \<and> g_mod ?g = n"
    by (simp add: new_group_def Let_def init_bars_def init_invites_def)
  with assms show "may_enter n i (upd_g i (new_group n nm vis) st)"
    and "\<not> group_full n i (upd_g i (new_group n nm vis) st)"
    by (auto simp: may_enter_def group_full_def)
qed

lemma change_to_result:
  assumes ok: "srv_ok st" "net_ok st" and n: "in_tab n (u_tab st)"
  shows "change_result n st (change_to n ls st)"
proof -
  obtain nm vis where p: "parse_group (field st 1) = (nm, vis)" by (cases "parse_group (field st 1)")
  let ?g = "filtergroupname nm"
  have err: "change_result n st (-1, senderror n m st)" for m
    using ok by (simp add: change_result_def sender_rules)
  have a: "change_result n st (join_group n ls (find_group ?g st) ?g st)" if g: "0 \<le> find_group ?g st"
  proof -
    note f = find_group_found [OF g]
    have "g_name (grp st (find_group ?g st)) \<noteq> []" using f by auto
    with join_group_outcome [OF ok n f(1), of ls ?g] f ok show ?thesis
      unfolding change_result_def
      by (cases "may_enter n (find_group ?g st) st \<and> \<not> group_full n (find_group ?g st) st \<and> find_group ?g st \<noteq> old_group n st")
        (auto intro!: exI [of _ "find_group ?g st"] exI [of _ st])
  qed
  have b: "change_result n st (join_group n ls (find_empty_group st) ?g s1)"
    if e: "find_group ?g st < 0" "0 \<le> find_empty_group st" "nm \<noteq> []"
      and s1: "s1 = upd_g (find_empty_group st) (new_group n ?g vis) st" for s1
  proof -
    note f = find_empty_group_found [OF e(2)]
    have "safe st s1" unfolding s1 using e parse_group_length [OF p] ok n
      by (intro safe_new_group safe_refl) (simp_all add: filtergroupname_props)
    then have k: "srv_ok s1" "net_ok s1" by (simp_all add: safeD)
    note old = old_group_new [OF ok(1) n f k(1) [unfolded s1], folded s1]
    have t: "in_tab n (u_tab s1)" "in_tab (find_empty_group st) (g_tab s1)" using n f s1 by simp_all
    have nn: "g_name (grp s1 (find_empty_group st)) \<noteq> []" "u_tab s1 = u_tab st"
      "g_tab s1 = (g_tab st)[nat (find_empty_group st) := new_group n ?g vis (grp st (find_empty_group st))]"
      using f e(3) by (simp_all add: s1 new_group_name filtergroupname_props g_tab_upd_g)
    have "fst (join_group n ls (find_empty_group st) ?g s1) = 0
        \<and> (\<exists>ps r. snd (join_group n ls (find_empty_group st) ?g s1) = emits ps r (moved n (find_empty_group st) s1))"
      using join_group_outcome [OF k t, of ls ?g] new_group_open [OF f(1), of n ?g vis, folded s1] old by auto
    moreover have "\<exists>nm vis. g_tab s1 = (g_tab st)[nat (find_empty_group st) := new_group n nm vis (grp st (find_empty_group st))]"
      using nn(3) by blast
    ultimately show ?thesis
      unfolding change_result_def using f nn(1,2) k old
      by (intro disjI2 conjI exI [of _ "find_empty_group st"] exI [of _ s1]) auto
  qed
  show ?thesis
    using a b err by (auto simp: change_to_def p Let_def not_less simp del: One_nat_def)
qed

lemma moved_cong_pfields:
  "u_tab (st\<lparr>pfields := fs\<rparr>) = u_tab st" "g_tab (st\<lparr>pfields := fs\<rparr>) = g_tab st"
  "may_enter n i (st\<lparr>pfields := fs\<rparr>) = may_enter n i st" "group_full n i (st\<lparr>pfields := fs\<rparr>) = group_full n i st"
  "grp (st\<lparr>pfields := fs\<rparr>) i = grp st i" "usr (st\<lparr>pfields := fs\<rparr>) i = usr st i"
  by (simp_all add: may_enter_def group_full_def is_invited_def check_auth_def addr_of_def grp_def usr_def
      real_users_def)

lemma change_result_pfields: "change_result n (st\<lparr>pfields := fs\<rparr>) p = change_result n st p"
proof -
  have "old_group n (st\<lparr>pfields := fs\<rparr>) = old_group n st" by (rule old_group_cong) simp_all
  then show ?thesis unfolding change_result_def moved_cong_pfields by simp
qed

lemma s_change_result:
  assumes ok: "srv_ok st" "net_ok st" and n: "in_tab n (u_tab st)" and a: "argc = 2 \<or> argc = 3"
  shows "change_result n st (s_change n argc st)"
proof -
  note c = s_change_cases [OF ok(1), where n = n]
  have err: "change_result n st (-1, senderror n m st)" for m
    using ok by (simp add: change_result_def sender_rules)
  have "change_result n (st\<lparr>pfields := fs\<rparr>) (change_to n False (st\<lparr>pfields := fs\<rparr>))" for fs
    using ok n by (intro change_to_result) simp_all
  then have p: "change_result n st (change_to n False (st\<lparr>pfields := fs\<rparr>))" for fs
    by (simp add: change_result_pfields)
  have "change_result n st (s_change_n 2 n ls st)" for ls
  proof (cases "take 1 (field st 1) = ''@''")
    case True
    show ?thesis
      using c(1) [OF True, of ls] c(2) [OF True refl, of ls] p err
      by (cases "find_user (drop 1 (field st 1)) st < 0") (simp_all add: not_less)
  next
    case False
    show ?thesis unfolding c(3) [OF False] using ok n by (rule change_to_result)
  qed
  then show ?thesis using a n by (auto simp: s_change_def Let_def)
qed

lemma moved_old:
  assumes "0 \<le> old_group n st"
  shows "grp (moved n ngi st) (old_group n st)
    = (if 0 < count_users_in_group (g_name (grp st (old_group n st))) (moved n ngi st)
       then grp st (old_group n st) else cleared_group (grp st (old_group n st)))"
proof -
  have t: "in_tab (old_group n st) (g_tab st)"
    using assms find_group_found(1) by (auto simp: old_group_def split: if_splits)
  have "count_users_in_group x (clear_group_item i s) = count_users_in_group x s" for x i s
    by (simp add: count_users_in_group_def clear_group_item_def)
  with assms t show ?thesis
    by (simp add: moved_def Let_def clear_group_item_def)
qed

lemma count_cong: "u_tab st' = u_tab st \<Longrightarrow> count_users_in_group x st' = count_users_in_group x st"
  by (simp add: count_users_in_group_def)

lemma tab_cong: "u_tab st' = u_tab st \<Longrightarrow> usr st' k = usr st k" "g_tab st' = g_tab st \<Longrightarrow> grp st' j = grp st j"
  by (simp_all add: usr_def grp_def)

lemma grp_list_update:
  assumes "g_tab st' = (g_tab st)[nat i := g]" "in_tab i (g_tab st)"
  shows "grp st' j = (if j = i then g else grp st j)"
  using assms by (auto simp: grp_def in_tab_def nth_list_update nat_eq_iff)

lemma new_group_control:
  "g_control (new_group n nm vis g) = PUBLIC \<or> g_control (new_group n nm vis g) = MODERATED \<and> g_mod (new_group n nm vis g) = n"
  by (simp add: new_group_def Let_def init_bars_def init_invites_def)

section \<open>No group without users\<close>

text \<open>Every group with a name has somebody in it, so a slot is free as soon as it is empty.\<close>

definition inhabited :: "srv \<Rightarrow> bool" where
  "inhabited st \<longleftrightarrow> (\<forall>j. in_tab j (g_tab st) \<and> g_name (grp st j) \<noteq> [] \<longrightarrow>
     0 < count_users_in_group (g_name (grp st j)) st)"

lemma count_users_tab:
  "0 < count_users_in_group nm st \<longleftrightarrow> nm \<noteq> [] \<and> (\<exists>k. in_tab k (u_tab st) \<and> strcaseeq (u_group (usr st k)) nm)"
  unfolding count_users_pos using u_tab_usr usr_in by blast

lemma inhabited_calm: "calm s0 st \<Longrightarrow> inhabited s0 \<Longrightarrow> inhabited st"
  unfolding inhabited_def count_users_tab by (simp add: calm_def safe_def in_tab_def)

lemma old_group_of:
  assumes ok: "srv_ok st" and n: "in_tab n (u_tab st)" and j: "in_tab j (g_tab st)" "g_name (grp st j) \<noteq> []"
    and g: "strcaseeq (u_group (usr st n)) (g_name (grp st j))"
  shows "old_group n st = j"
proof -
  have "u_group (usr st n) \<noteq> []" using g j(2) by auto
  then show ?thesis
    using find_group_unique [OF srv_okD(4) [OF ok] j(1)] g by (simp add: old_group_def strcaseeq_sym)
qed

lemma inhabited_moved:
  assumes inh: "inhabited st" and n: "in_tab n (u_tab st)" and ngi: "in_tab ngi (g_tab st)" "ngi \<noteq> old_group n st1"
    and st1: "srv_ok st1" "u_tab st1 = u_tab st" "g_name (grp st1 ngi) \<noteq> []"
      "length (g_tab st1) = length (g_tab st)" "\<And>j. j \<noteq> ngi \<Longrightarrow> grp st1 j = grp st j"
  shows "inhabited (moved n ngi st1)"
  unfolding inhabited_def
proof (intro allI impI, elim conjE)
  let ?m = "moved n ngi st1"
  fix j assume j: "in_tab j (g_tab ?m)" "g_name (grp ?m j) \<noteq> []"
  have n1: "in_tab n (u_tab st1)" using n st1(2) by simp
  have j1: "in_tab j (g_tab st1)" using j(1) by (simp add: moved_grp)
  then have j1: "in_tab j (g_tab st1)" "in_tab j (g_tab st)" using in_tab_length [OF st1(4)] by simp_all
  consider "j = ngi" | "j = old_group n st1" | "j \<noteq> ngi" "j \<noteq> old_group n st1" by blast
  then show "0 < count_users_in_group (g_name (grp ?m j)) ?m"
  proof cases
    case 1
    have "u_group (usr ?m n) = g_name (grp ?m j)"
      using 1 ngi(2) moved_usr(1) [OF n1, of ngi] moved_grp(1) [OF ngi(2)] by simp
    then show ?thesis using j(2) n1 by (auto simp: count_users_tab moved_grp)
  next
    case 2
    then have "0 \<le> old_group n st1" using in_tab_nonneg [OF j1(1)] by simp
    from moved_old [OF this, of ngi] j(2) 2 show ?thesis by (auto simp: cleared_group_def split: if_splits)
  next
    case 3
    have g: "grp ?m j = grp st1 j" "grp st1 j = grp st j" using 3 moved_grp(1) st1(5) by auto
    with inh j1(2) j(2) obtain k where k: "in_tab k (u_tab st1)" "strcaseeq (u_group (usr st1 k)) (g_name (grp st1 j))"
      using tab_cong(1) [OF st1(2)] st1(2) by (auto simp: inhabited_def count_users_tab)
    have "k \<noteq> n" using old_group_of [OF st1(1) n1 j1(1)] k(2) 3(2) j(2) g by auto
    then show ?thesis using k j(2) g moved_usr(2) [OF n1] by (auto simp: count_users_tab moved_grp)
  qed
qed

lemma inhabited_cong: "u_tab st' = u_tab st \<Longrightarrow> g_tab st' = g_tab st \<Longrightarrow> inhabited st' = inhabited st"
  by (simp add: inhabited_def count_users_in_group_def grp_def)

lemma inhabited_change:
  assumes "change_result n st p" "inhabited st" "in_tab n (u_tab st)"
  shows "inhabited (snd p)"
  using assms(1) unfolding change_result_def
proof (elim disjE conjE exE)
  assume "u_tab (snd p) = u_tab st" "g_tab (snd p) = g_tab st"
  then show ?thesis using inhabited_cong assms(2) by blast
next
  fix ngi st1
  assume a: "in_tab ngi (g_tab st)" "ngi \<noteq> old_group n st1" "g_name (grp st1 ngi) \<noteq> []"
    "u_tab (snd p) = u_tab (moved n ngi st1)" "g_tab (snd p) = g_tab (moved n ngi st1)" "srv_ok st1"
    "u_tab st1 = u_tab st" "g_tab st1 = g_tab st"
  then have "inhabited (moved n ngi st1)"
    by (intro inhabited_moved [OF assms(2,3)]) (auto intro: tab_cong)
  with a show ?thesis using inhabited_cong by blast
next
  fix ngi st1 nm vis
  assume a: "in_tab ngi (g_tab st)" "ngi \<noteq> old_group n st1" "g_name (grp st1 ngi) \<noteq> []"
    "u_tab (snd p) = u_tab (moved n ngi st1)" "g_tab (snd p) = g_tab (moved n ngi st1)" "srv_ok st1"
    "u_tab st1 = u_tab st" "g_tab st1 = (g_tab st)[nat ngi := new_group n nm vis (grp st ngi)]"
  then have "inhabited (moved n ngi st1)"
    by (intro inhabited_moved [OF assms(2,3)]) (auto simp: grp_list_update [OF a(8,1)])
  with a show ?thesis using inhabited_cong by blast
qed

section \<open>Properties\<close>

lemma sent_to_real:
  "i \<in> set (real_users st) \<Longrightarrow> sent_to i b st = (if S_kill st ! nat i \<le> 0 then [(i, frame_packet b)] else [])"
  by (auto simp: sent_to_def real_users_def)

lemma cast_list:
  "concat (map (\<lambda>i. sent_to i b st) (filter P (real_users st)))
     = map (\<lambda>i. (i, frame_packet b)) (filter (\<lambda>i. P i \<and> S_kill st ! nat i \<le> 0) (real_users st))"
proof -
  have "concat (map (\<lambda>i. sent_to i b st) (filter P xs))
     = map (\<lambda>i. (i, frame_packet b)) (filter (\<lambda>i. P i \<and> S_kill st ! nat i \<le> 0) xs)"
    if "set xs \<subseteq> set (real_users st)" for xs
    using that by (induction xs) (auto simp: sent_to_real)
  then show ?thesis by simp
qed

text \<open>
  C5 (delivery of open messages): an open message reaches exactly the logged-in users of the
  sender's group who have not hushed the sender by address or by nickname and whose connection
  is alive, the sender only with echo on; each gets one copy of the same packet, in the order
  of the table, and nothing else in the state changes.
\<close>

theorem s_send_group_delivery:
  assumes "net_ok st" "in_tab n (u_tab st)"
  shows "\<exists>r. s_send_group n st = (0, st\<lparr>out := out st @
      map (\<lambda>i. (i, frame_packet (open_body (u_nickname (usr st n)) (field st 0))))
        (filter (\<lambda>i. (i \<noteq> n \<or> u_echoback (usr st n) \<noteq> 0)
           \<and> strcaseeq (u_group (usr st n)) (u_group (usr st i))
           \<and> \<not> nl_match (addr_of st n) (pub_s_hushed (usr st i))
           \<and> \<not> nl_match (ucaseit (u_nickname (usr st n))) (pub_n_hushed (usr st i))
           \<and> u_login (usr st i) = LOGIN_COMPLETE \<and> S_kill st ! nat i \<le> 0) (real_users st)),
      overread := overread st \<or> r\<rparr>)"
proof -
  let ?P = "\<lambda>i. (i \<noteq> n \<or> u_echoback (usr st n) \<noteq> 0) \<and> strcaseeq (u_group (usr st n)) (u_group (usr st i))
     \<and> \<not> nl_match (addr_of st n) (pub_s_hushed (usr st i))
     \<and> \<not> nl_match (ucaseit (u_nickname (usr st n))) (pub_n_hushed (usr st i)) \<and> u_login (usr st i) = LOGIN_COMPLETE"
  let ?f = "\<lambda>i s. if (i \<noteq> n \<or> u_echoback (usr s n) \<noteq> 0) \<and> strcaseeq (u_group (usr st n)) (u_group (usr s i))
     \<and> \<not> nl_match (addr_of st n) (pub_s_hushed (usr s i))
     \<and> \<not> nl_match (ucaseit (u_nickname (usr st n))) (pub_n_hushed (usr s i)) \<and> u_login (usr s i) = LOGIN_COMPLETE
     then sendopen n i (field s 0) s else s"
  let ?b = "open_body (u_nickname (usr st n)) (field st 0)"
  have "?f i (emits ps r st) = (if ?P i then emits (sent_to i ?b st)
      (runs_over 13 (u_nickname (usr st n)) \<or> runs_over 241 (field st 0)) (emits ps r st) else emits ps r st)" for i ps r
    using assms by (auto simp: sender_rules)
  from fold_emits [of "real_users st" ?f st ?P "\<lambda>_. ?b", OF this]
  obtain r where "fold ?f (real_users st) st = emits (concat (map (\<lambda>i. sent_to i ?b st) (filter ?P (real_users st)))) r st"
    by blast
  with assms(2) show ?thesis
    unfolding s_send_group_def Let_def cast_list by (simp add: emits_def conj_assoc exI [of _ r])
qed

lemma demo_grp [simp]:
  "grp demo 0 = blank_group\<lparr>g_name := ''ICB'', g_control := RESTRICTED, g_mod := 3, g_volume := QUIET\<rparr>"
  "grp demo 1 = blank_group\<lparr>g_name := ''cafe'', g_control := MODERATED, g_mod := 0\<rparr>"
  "grp demo 2 = blank_group\<lparr>g_name := ''x''\<rparr>" "grp demo 3 = blank_group"
  by (simp_all add: grp_def in_tab_def demo_def)

lemma real_users_demo [simp]: "real_users demo = [0, 1, 2]"
  by (simp add: real_users_def upto_rec1)

text \<open>Witness: what \<open>ann\<close> says is heard by \<open>bob\<close>, and not by \<open>eve\<close> in the other group.\<close>

theorem s_send_group_delivery_witness:
  "\<exists>r. s_send_group 0 demo = (0, demo\<lparr>out := [(1, frame_packet (open_body ''ann'' (field demo 0)))],
     overread := overread demo \<or> r\<rparr>)"
proof -
  have "in_tab 0 (u_tab demo)" by (simp add: in_tab_def)
  from s_send_group_delivery [OF demo_simps(3) this]
  show ?thesis by (simp add: demo_user_def blank_user_def strcaseeq_def nl_match_def nl_init_def)
qed

text \<open>
  C4 (changing group): \<open>s_change\<close> either fails, returning -1 and leaving both tables as they
  were, or succeeds and returns 0. Then the user is in a named group; nobody else and no
  other group but the one left has changed; a group that did not exist before is public or
  moderated by its founder; a group that existed is as it was, its rules let the user in and
  it was not full; and the group left keeps its entry exactly if somebody is still in it.
\<close>

theorem s_change_outcome:
  assumes "srv_ok st" "net_ok st" "in_tab n (u_tab st)" "argc = 2 \<or> argc = 3"
    and "s_change n argc st = (r, st')"
  shows "r = -1 \<and> u_tab st' = u_tab st \<and> g_tab st' = g_tab st
    \<or> r = 0 \<and> (\<exists>ngi. in_tab ngi (g_tab st) \<and> ngi \<noteq> old_group n st
       \<and> u_group (usr st' n) = g_name (grp st' ngi) \<and> g_name (grp st' ngi) \<noteq> []
       \<and> (\<forall>k. k \<noteq> n \<longrightarrow> usr st' k = usr st k)
       \<and> (\<forall>j. j \<noteq> ngi \<and> j \<noteq> old_group n st \<longrightarrow> grp st' j = grp st j)
       \<and> (if g_name (grp st ngi) = []
          then g_control (grp st' ngi) = PUBLIC \<or> g_control (grp st' ngi) = MODERATED \<and> g_mod (grp st' ngi) = n
          else grp st' ngi = grp st ngi \<and> may_enter n ngi st \<and> \<not> group_full n ngi st)
       \<and> (0 \<le> old_group n st \<longrightarrow> grp st' (old_group n st) =
            (if 0 < count_users_in_group (g_name (grp st (old_group n st))) st'
             then grp st (old_group n st) else cleared_group (grp st (old_group n st)))))"
proof -
  have "change_result n st (r, st')" using s_change_result [OF assms(1-4)] assms(5) by simp
  then consider "r = -1" "u_tab st' = u_tab st" "g_tab st' = g_tab st"
    | ngi st1 where "r = 0" "in_tab ngi (g_tab st)" "ngi \<noteq> old_group n st1" "g_name (grp st1 ngi) \<noteq> []"
      "u_tab st' = u_tab (moved n ngi st1)" "g_tab st' = g_tab (moved n ngi st1)" "srv_ok st1"
      "u_tab st1 = u_tab st" "old_group n st1 = old_group n st"
      "g_tab st1 = g_tab st \<and> may_enter n ngi st \<and> \<not> group_full n ngi st
        \<or> g_name (grp st ngi) = [] \<and> (\<exists>nm vis. g_tab st1 = (g_tab st)[nat ngi := new_group n nm vis (grp st ngi)])"
    unfolding change_result_def fst_conv snd_conv by metis
  then show ?thesis
  proof cases
    case 1
    then show ?thesis by simp
  next
    case (2 ngi st1)
    have t: "in_tab n (u_tab st1)" using assms(3) 2(8) by simp
    have g1: "grp st1 j = grp st j" if "j \<noteq> ngi" for j
      using 2(10) that tab_cong(2) [of st1 st j] grp_list_update [OF _ 2(2), of st1 _ j] by auto
    have new: "if g_name (grp st ngi) = []
       then g_control (grp st1 ngi) = PUBLIC \<or> g_control (grp st1 ngi) = MODERATED \<and> g_mod (grp st1 ngi) = n
       else grp st1 ngi = grp st ngi \<and> may_enter n ngi st \<and> \<not> group_full n ngi st"
      using 2(4,10) tab_cong(2) [of st1 st ngi] grp_list_update [OF _ 2(2), of st1 _ ngi]
      by auto (metis new_group_control)+
    note c = tab_cong(1) [OF 2(5)] tab_cong(2) [OF 2(6)] count_cong [OF 2(5)]
    show ?thesis
      unfolding c using 2(1-4,9) new g1 moved_usr [OF t] moved_grp(1) [of _ n st1 ngi] moved_old [of n st1 ngi]
        tab_cong(1) [OF 2(8)]
      by (intro disjI2 conjI exI [of _ ngi]) auto
  qed
qed

text \<open>The example server is well-formed.\<close>

lemma demo_groups_filtered: "filtergroupname ''ICB'' = ''ICB''" "filtergroupname ''cafe'' = ''cafe''"
  "filtergroupname ''x'' = ''x''"
  by code_simp+

lemma demo_names: "\<not> strcaseeq ''ICB'' ''cafe''" "\<not> strcaseeq ''ICB'' ''x''" "\<not> strcaseeq ''cafe'' ''x''"
  "\<not> strcaseeq ''cafe'' ''ICB''" "\<not> strcaseeq ''x'' ''ICB''" "\<not> strcaseeq ''x'' ''cafe''"
  by (auto dest: strcaseeq_length)

lemma demo_tabs:
  "g_tab demo = [blank_group\<lparr>g_name := ''ICB'', g_control := RESTRICTED, g_mod := 3, g_volume := QUIET\<rparr>,
     blank_group\<lparr>g_name := ''cafe'', g_control := MODERATED, g_mod := 0\<rparr>, blank_group\<lparr>g_name := ''x''\<rparr>, blank_group]"
  "u_tab demo = [demo_user ''ann'' ''cafe'', demo_user ''bob'' ''cafe'', demo_user ''eve'' ''x'', demo_user ''Server'' ''ICB'']"
  "lpriv_id demo = [-1, -1, -1, -1]"
  by (simp_all add: demo_def)

lemma demo_cases: "in_tab i (g_tab demo) \<longleftrightarrow> i = 0 \<or> i = 1 \<or> i = 2 \<or> i = 3"
  "in_tab i (u_tab demo) \<longleftrightarrow> i = 0 \<or> i = 1 \<or> i = 2 \<or> i = 3"
  by (auto simp: in_tab_def)

lemma demo_ok: "srv_ok demo"
proof -
  have "groups_distinct demo"
    unfolding groups_distinct_def demo_cases by (auto simp: blank_group_def demo_names)
  moreover have "0 \<le> find_group ''cafe'' demo" "0 \<le> find_group ''x'' demo" "0 \<le> find_group ''ICB'' demo"
    by (auto simp: find_group_exists demo_tabs)
  then have "users_housed demo"
    unfolding users_housed_def demo_cases by (auto simp: demo_user_def)
  ultimately show ?thesis
    unfolding srv_ok_def
    by (auto simp: demo_tabs user_ok_def demo_user_def blank_user_def user_lists_def nl_ok_init
        group_ok_def blank_group_def group_lists_def demo_groups_filtered in_tab_def)
qed

theorem s_change_outcome_witness:
  "usr (snd (s_change 2 2 (demo\<lparr>pfields := [''g'', ''cafe'']\<rparr>))) 0 = demo_user ''ann'' ''cafe''
   \<and> usr (snd (s_change 2 2 (demo\<lparr>pfields := [''g'', ''cafe'']\<rparr>))) 1 = demo_user ''bob'' ''cafe''"
proof -
  let ?st = "demo\<lparr>pfields := [''g'', ''cafe'']\<rparr>"
  have "srv_ok ?st" "net_ok ?st" "in_tab 2 (u_tab ?st)" by (simp_all add: demo_ok in_tab_def)
  from s_change_outcome [OF this, of 2 "fst (s_change 2 2 ?st)" "snd (s_change 2 2 ?st)"]
  have "u_tab (snd (s_change 2 2 ?st)) = u_tab ?st \<or> (\<forall>k. k \<noteq> 2 \<longrightarrow> usr (snd (s_change 2 2 ?st)) k = usr ?st k)"
    unfolding prod.collapse by blast
  then have s: "\<forall>k. k \<noteq> 2 \<longrightarrow> usr (snd (s_change 2 2 ?st)) k = usr ?st k"
    by (elim disjE) (intro allI impI, erule tab_cong, assumption)
  have "usr (snd (s_change 2 2 ?st)) 0 = usr ?st 0" "usr (snd (s_change 2 2 ?st)) 1 = usr ?st 1"
    by (rule s [rule_format], simp)+
  moreover have "usr ?st i = usr demo i" for i by (simp add: usr_def)
  ultimately show ?thesis by simp
qed

end
