(* ===== verification/Status.thy ===== *)
theory Status
  imports GroupProps
begin

text \<open>
  \<open>s_status\<close> of \<open>server/s_group.c\<close>, with \<open>dump_table\<close> and \<open>set_name\<close>: showing and changing
  the settings of a group. \<open>MAX_IDLE\<close> is not defined in the default configuration, so the
  idle limit of a group has no upper bound.
\<close>

section \<open>Showing\<close>

definition dump_table :: "int \<Rightarrow> srv \<Rightarrow> srv" where
  "dump_table n st = fold (sendstatus n ''Information'')
     [''Table Of Status Commands'',
      ''r - restricted c - controlled m - moderated p - public'',
      ''i - invisible s - secret v - visible'',
      ''q - quiet n - normal l - loud'',
      ''name - change group name'',
      ''? -- this table'',
      ''# - change the number of allowed users'',
      ''b - change the idleboot setting'',
      ''idlebootmsg - change the idleboot message'',
      ''im - change the idlemod setting''] st"

definition plural :: "int \<Rightarrow> cstring" where
  "plural k = (if k = 1 then [] else ''s'')"

definition hours_mins :: "int \<Rightarrow> cstring" where
  "hours_mins t =
     (let hours = t div (60 * 60); mins = (t mod (60 * 60)) div 60
      in dec_int hours @ '' hour'' @ plural hours @ '', '' @ dec_int mins @ '' minute'' @ plural mins)"

definition vis_name :: "int \<Rightarrow> cstring" where
  "vis_name v = (if v = VISIBLE then ''Visible'' else if v = SECRET then ''Secret''
     else if v = SUPERSECRET then ''Invisible'' else ''Unknown'')"

definition con_name :: "int \<Rightarrow> cstring" where
  "con_name c = (if c = PUBLIC then ''Public'' else if c = MODERATED then ''Moderated''
     else if c = RESTRICTED then ''Restricted'' else if c = CONTROLLED then ''Controlled'' else ''Unknown'')"

definition vol_name :: "int \<Rightarrow> cstring" where
  "vol_name v = (if v = QUIET then ''Quiet'' else if v = NORMAL then ''Normal''
     else if v = LOUD then ''Loud'' else ''Unknown'')"

definition show_status :: "int \<Rightarrow> int \<Rightarrow> srv \<Rightarrow> srv" where
  "show_status n gi st =
     (let g = grp st gi;
          st = (if g_mod g \<ge> 0 then need_u (g_mod g) st else st);
          md = (if g_mod g \<ge> 0 then u_nickname (usr st (g_mod g))
                else if g_modtimeout g = 0 then ''None'' else g_missingmod g);
          st = sends_cmdout n (''Name: '' @ g_name g @ '' Mod: '' @ md @ '' ('' @ vis_name (g_visibility g)
                 @ '' / '' @ con_name (g_control g) @ '' / '' @ vol_name (g_volume g) @ '')'') st;
          st = snd (list_invites n gi st);
          st = list_lines n ''Nicks who can talk: '' (n_talk g) (nr_talk g) st;
          st = sends_cmdout n (if g_size g = 0 then ''Size: no limit''
                 else ''Size: '' @ dec_int (g_size g) @ '' user'' @ plural (g_size g) @ '' limit'') st;
          st = sends_cmdout n (if g_idleboot g = 0 then ''Idle-Boot: no limit''
                 else ''Idle-Boot: '' @ hours_mins (g_idleboot g)) st;
          st = (if g_idleboot_msg g \<noteq> []
                then sends_cmdout n (''Idle-Boot Message: '' @ g_idleboot_msg g) st else st)
      in if g_control g \<noteq> PUBLIC
         then sends_cmdout n (if g_idlemod g = 0 then ''Idle-Mod: no limit''
                else ''Idle-Mod: '' @ hours_mins (g_idlemod g)) st
         else st)"

section \<open>Changing\<close>

abbreviation (input) SET_RESTRICT :: int where "SET_RESTRICT \<equiv> 0"
abbreviation (input) SET_MODERATE :: int where "SET_MODERATE \<equiv> 1"
abbreviation (input) SET_PUBLIC :: int where "SET_PUBLIC \<equiv> 2"
abbreviation (input) SET_INVISIBLE :: int where "SET_INVISIBLE \<equiv> 3"
abbreviation (input) SET_SECRET :: int where "SET_SECRET \<equiv> 4"
abbreviation (input) SET_VISIBLE :: int where "SET_VISIBLE \<equiv> 5"
abbreviation (input) SET_QUIET :: int where "SET_QUIET \<equiv> 6"
abbreviation (input) SET_NORMAL :: int where "SET_NORMAL \<equiv> 7"
abbreviation (input) SET_LOUD :: int where "SET_LOUD \<equiv> 8"
abbreviation (input) SET_NAME :: int where "SET_NAME \<equiv> 9"
abbreviation (input) SET_QUESTION :: int where "SET_QUESTION \<equiv> 10"
abbreviation (input) SET_CONTROL :: int where "SET_CONTROL \<equiv> 11"
abbreviation (input) SET_SIZE :: int where "SET_SIZE \<equiv> 12"
abbreviation (input) SET_IDLEBOOT :: int where "SET_IDLEBOOT \<equiv> 13"
abbreviation (input) SET_IDLEBOOT_MSG :: int where "SET_IDLEBOOT_MSG \<equiv> 14"
abbreviation (input) SET_IDLEMOD :: int where "SET_IDLEMOD \<equiv> 15"

definition set_name :: "int \<Rightarrow> int \<Rightarrow> cstring \<Rightarrow> srv \<Rightarrow> int \<times> srv" where
  "set_name n gi name st =
     (if name = [] then (-1, senderror n ''New name may not be null.'' st)
      else let n_g_n = strncpy0 MAX_GROUPLEN name in
        if n_g_n = ''1'' then (-1, senderror n ''Cannot change name to group 1.'' st)
        else if find_group n_g_n st \<ge> 0 \<and> find_group n_g_n st \<noteq> gi
        then (-1, senderror n ''That group already exists.'' st)
        else let st = need_g gi st; cp = g_name (grp st gi);
                 st = fold (\<lambda>i st. if strcaseeq (u_group (usr st i)) cp
                                   then upd_u i (\<lambda>u. u\<lparr>u_group := n_g_n\<rparr>) st else st) (real_users st) st
             in (0, upd_g gi (\<lambda>g. g\<lparr>g_name := n_g_n\<rparr>) st))"

text \<open>The loop of \<open>SET_RESTRICT\<close>, which also runs over the server's own slot.\<close>

definition restrict_user :: "int \<Rightarrow> int \<Rightarrow> srv \<Rightarrow> srv" where
  "restrict_user gi i st =
     (if strcaseeq (u_group (usr st i)) (g_name (grp st gi)) then
        (let nick = u_nickname (usr st i);
             st = upd_g gi (\<lambda>g. if u_realname (usr st i) = [] then g\<lparr>n_invites := nl_put nick (n_invites g)\<rparr>
                                else g\<lparr>nr_invites := nl_put nick (nr_invites g)\<rparr>) st;
             st = (if g_mod (grp st gi) > 0 then sendstatus (g_mod (grp st gi)) ''FYI'' (nick @ '' invited'') st
                   else st)
         in sendstatus i ''FYI'' (''You are invited to group '' @ g_name (grp st gi) @ '' by default.'') st)
      else st)"

definition set_restrict :: "int \<Rightarrow> srv \<Rightarrow> srv" where
  "set_restrict gi st =
     fold (restrict_user gi) [0..MAX_USERS st - 1]
       (upd_g gi (\<lambda>g. init_bars (g\<lparr>g_control := RESTRICTED\<rparr>)) st)"

definition size_range :: "srv \<Rightarrow> cstring" where
  "size_range st = ''Size must be between 0 and '' @ dec_int (MAX_REAL_USERS st) @ ''.''"

definition set_size :: "int \<Rightarrow> int \<Rightarrow> cstring \<Rightarrow> srv \<Rightarrow> cstring \<times> srv" where
  "set_size n gi p2 st =
     (if p2 = [] then ([], senderror n (size_range st) st)
      else let new_size = atoi p2 in
        if new_size < 0 \<or> new_size > MAX_REAL_USERS st then ([], senderror n (size_range st) st)
        else let st = upd_g gi (\<lambda>g. g\<lparr>g_size := new_size\<rparr>) st
             in (if new_size = 0 then u_nickname (usr st n) @ '' removed group size limit.''
                 else u_nickname (usr st n) @ '' made group limited to '' @ dec_int new_size @ '' users.'', st))"

text \<open>The text about a new time limit. The product with 60 wraps as on the target machines.\<close>

definition time_note :: "cstring \<Rightarrow> int \<Rightarrow> cstring" where
  "time_note what t =
     what @ (if t > 59 * 60 then hours_mins t else dec_int (t div 60) @ '' minute'' @ plural (t div 60)) @ ''.''"

definition set_idleboot :: "int \<Rightarrow> int \<Rightarrow> cstring \<Rightarrow> srv \<Rightarrow> cstring \<times> srv" where
  "set_idleboot n gi p2 st =
     (if p2 = [] then
        ([], senderror n ''Idle-Boot must be specified in number of minutes (0=disabled).'' st)
      else let new_ib = to_int32 (atoi p2 * 60) in
        if new_ib < 0 then ([], senderror n ''Idle-Boot must be > 0 (or 0 to disable).'' st)
        else let st = upd_g gi (\<lambda>g. g\<lparr>g_idleboot := new_ib\<rparr>) st
             in (if new_ib = 0 then u_nickname (usr st n) @ '' disabled idle-boot.''
                 else time_note (u_nickname (usr st n) @ '' set idle-boot to '') new_ib, st))"

definition idlemod_range :: cstring where
  "idlemod_range = ''Idle-Mod must be between 0 and '' @ dec_int (MAX_IDLE_MOD div 60) @ ''.''"

definition set_idlemod :: "int \<Rightarrow> int \<Rightarrow> cstring \<Rightarrow> srv \<Rightarrow> cstring \<times> srv" where
  "set_idlemod n gi p2 st =
     (if p2 = [] then ([], senderror n idlemod_range st)
      else let new_im = to_int32 (atoi p2 * 60);
               st = (if new_im = 0 then sendstatus n ''Info'' ''Using maximum value allowed'' st else st);
               new_im = (if new_im = 0 then MAX_IDLE_MOD else new_im)
           in if new_im < 1 \<or> new_im > MAX_IDLE_MOD then ([], senderror n idlemod_range st)
              else let st = upd_g gi (\<lambda>g. g\<lparr>g_idlemod := new_im\<rparr>) st
                   in (time_note (u_nickname (usr st n) @ '' set idle-mod to '') new_im, st))"

text \<open>The message may be as long as its buffer, which leaves no room for the NUL.\<close>

definition set_idleboot_msg :: "int \<Rightarrow> int \<Rightarrow> cstring \<Rightarrow> srv \<Rightarrow> srv" where
  "set_idleboot_msg n gi p1 st =
     (if p1 = [] \<or> length p1 > IDLEBOOT_MSG_LEN then
        senderror n (''Idle-Boot message length must be between 1 and '' @ dec_nat IDLEBOOT_MSG_LEN
          @ '' (yours was '' @ dec_nat (length p1) @ '').'') st
      else case fst (filterfmt p1 1) of
        Some retstr \<Rightarrow> senderror n retstr st
      | None \<Rightarrow> let st = upd_g gi (\<lambda>g. g\<lparr>g_idleboot_msg := p1\<rparr>) (flag_fault (length p1 \<ge> IDLEBOOT_MSG_LEN) st)
                in sendstatus n ''Change'' (''Idle-boot msg: '' @ p1) st)"

text \<open>
  One option: the option number \<open>lu\<close> and word \<open>p2\<close>, the rest of the line from the option on.
  The results are where the option (with its argument) ends, the text for the group (empty
  for none), and the state.
\<close>

definition set_flag :: "int \<Rightarrow> int \<Rightarrow> (group_item \<Rightarrow> group_item) \<Rightarrow> cstring \<Rightarrow> srv \<Rightarrow> cstring \<times> srv" where
  "set_flag n gi f note st =
     (let st = upd_g gi f st in (u_nickname (usr st n) @ note, st))"

definition set_option :: "int \<Rightarrow> int \<Rightarrow> int \<Rightarrow> cstring \<Rightarrow> cstring \<Rightarrow> srv \<Rightarrow> cstring \<times> cstring \<times> srv" where
  "set_option n gi lu p1 p2 st =
     (if lu = SET_RESTRICT then (p1, ''Group is now restricted.'', set_restrict gi st)
      else if lu = SET_MODERATE then
        (p1, ''Group is now moderated.'', upd_g gi (\<lambda>g. init_invites (g\<lparr>g_control := MODERATED\<rparr>)) st)
      else if lu = SET_CONTROL then
        (p1, ''Group is now controlled.'', upd_g gi (\<lambda>g. init_invites (g\<lparr>g_control := CONTROLLED\<rparr>)) st)
      else if lu = SET_SIZE then (get_tail p1, set_size n gi (getword (get_tail p1)) st)
      else if lu = SET_IDLEBOOT then (get_tail p1, set_idleboot n gi (getword (get_tail p1)) st)
      else if lu = SET_IDLEBOOT_MSG then ([], [], set_idleboot_msg n gi (get_tail p1) st)
      else if lu = SET_IDLEMOD then (get_tail p1, set_idlemod n gi (getword (get_tail p1)) st)
      else if lu = SET_PUBLIC then
        (p1, set_flag n gi (\<lambda>g. init_bars (init_invites (g\<lparr>g_control := PUBLIC\<rparr>))) '' made group public.'' st)
      else if lu = SET_INVISIBLE then
        (p1, set_flag n gi (\<lambda>g. g\<lparr>g_visibility := SUPERSECRET\<rparr>) '' made group invisible.'' st)
      else if lu = SET_SECRET then
        (p1, set_flag n gi (\<lambda>g. g\<lparr>g_visibility := SECRET\<rparr>) '' made group secret.'' st)
      else if lu = SET_VISIBLE then
        (p1, set_flag n gi (\<lambda>g. g\<lparr>g_visibility := VISIBLE\<rparr>) '' made group visible.'' st)
      else if lu = SET_QUIET then
        (p1, set_flag n gi (\<lambda>g. g\<lparr>g_volume := QUIET\<rparr>) '' made group quiet.'' st)
      else if lu = SET_NORMAL then
        (p1, set_flag n gi (\<lambda>g. g\<lparr>g_volume := NORMAL\<rparr>) '' made group normal.'' st)
      else if lu = SET_LOUD then
        (p1, set_flag n gi (\<lambda>g. g\<lparr>g_volume := LOUD\<rparr>) '' made group loud.'' st)
      else if lu = SET_NAME then
        (let p1 = get_tail p1; p2 = filtergroupname (getword p1); (r, st) = set_name n gi p2 st
         in (p1, if r < 0 then [] else u_nickname (usr st n) @ '' renamed group to '' @ p2, st))
      else if lu = SET_QUESTION then (p1, [], dump_table n st)
      else (p1, [], senderror n (''Option '' @ p2 @ '' unknown.'') st))"

text \<open>What a group without a moderator may not do.\<close>

definition needs_mod :: "int \<Rightarrow> cstring" where
  "needs_mod lu =
     (if lu = SET_RESTRICT then ''become restricted''
      else if lu = SET_MODERATE then ''become moderated''
      else if lu = SET_CONTROL then ''become controlled''
      else if lu = SET_IDLEBOOT then ''have idleboot changed''
      else if lu = SET_IDLEMOD then ''have idlemod changed''
      else if lu = SET_QUIET then ''be changed to quiet'' else [])"

definition status_option :: "int \<Rightarrow> int \<Rightarrow> bool \<Rightarrow> cstring \<Rightarrow> srv \<Rightarrow> cstring \<times> srv" where
  "status_option n gi has_mod p1 st =
     (let p2 = getword p1; lu = lookup p2 status_table in
      if needs_mod lu \<noteq> [] \<and> \<not> has_mod then
        (if lu = SET_IDLEBOOT \<or> lu = SET_IDLEMOD then get_tail p1 else p1,
         senderror n (''Groups without a moderator cannot '' @ needs_mod lu @ ''.'') st)
      else let (p1, cp, st) = set_option n gi lu p1 p2 st
           in (p1, if cp \<noteq> [] then s_status_group 1 True n ''Change'' cp st else st))"

lemma get_tail_le: "length (get_tail s) \<le> length s"
  unfolding get_tail_def by (meson length_dropWhile_le le_trans)

lemma get_tail_less: "getword s \<noteq> [] \<Longrightarrow> length (get_tail s) < length s"
proof -
  assume "getword s \<noteq> []"
  then obtain c w where c: "s = c # w" "\<not> is_blank c"
    by (cases s) (auto simp: getword_def split: if_splits)
  have "length (get_tail s) \<le> length (dropWhile (\<lambda>c. \<not> is_blank c) w)"
    using c by (simp add: get_tail_def length_dropWhile_le)
  also have "\<dots> \<le> length w" by (rule length_dropWhile_le)
  finally show ?thesis by (simp add: c)
qed

lemma status_option_le: "length (fst (status_option n gi hm p1 st)) \<le> length p1"
  by (simp add: status_option_def set_option_def Let_def split_beta get_tail_le)

lemma status_option_less:
  assumes "getword p1 \<noteq> []"
  shows "length (get_tail (fst (status_option n gi hm p1 st))) < length p1"
proof (cases "fst (status_option n gi hm p1 st) = p1")
  case True
  then show ?thesis using get_tail_less [OF assms] by simp
next
  case False
  then have "fst (status_option n gi hm p1 st) \<in> {[], get_tail p1}"
    by (auto simp: status_option_def set_option_def Let_def split_beta split: if_splits)
  then show ?thesis
    using get_tail_less [OF assms] get_tail_le [of "[]"] get_tail_le [of "get_tail p1"] by auto
qed

function status_loop :: "int \<Rightarrow> int \<Rightarrow> bool \<Rightarrow> cstring \<Rightarrow> srv \<Rightarrow> srv" where
  "status_loop n gi has_mod p1 st =
     (if getword p1 = [] then st
      else let (p1', st') = status_option n gi has_mod p1 st
           in status_loop n gi has_mod (get_tail p1') st')"
  by pat_completeness auto
termination
proof (relation "measure (\<lambda>(n, gi, hm, p1, st). length p1)")
  fix n gi has_mod p1 st x p1' st'
  assume "getword p1 \<noteq> []" "x = status_option n gi has_mod p1 st" "(p1', st') = x"
  then show "((n, gi, has_mod, get_tail p1', st'), n, gi, has_mod, p1, st)
      \<in> measure (\<lambda>(n, gi, hm, p1, st). length p1)"
    using status_option_less [of p1 n gi has_mod st] by (auto dest: sym)
qed simp

declare status_loop.simps [simp del]

definition s_status :: "int \<Rightarrow> int \<Rightarrow> srv \<Rightarrow> int \<times> srv" where
  "s_status n argc st =
     (if argc \<noteq> 2 then (0, st)
      else let st = need_u n st; gi = find_group (u_group (usr st n)) st; st = need_g gi st in
        if field st 1 = [] then (0, show_status n gi st)
        else let is_public = (g_control (grp st gi) = PUBLIC);
                 is_moderator = (g_mod (grp st gi) = n);
                 has_mod = (g_mod (grp st gi) \<noteq> -1 \<or> g_modtimeout (grp st gi) > 0)
             in if strcaseeq (g_name (grp st gi)) ''1''
                then (0, senderror n (''Can'' @ [CHR 0x27] @ ''t change group 1!'') st)
                else if strcaseeq (g_name (grp st gi)) IDLE_GROUP
                then (0, senderror n (''Can'' @ [CHR 0x27] @ ''t change group '' @ IDLE_GROUP @ ''!'') st)
                else if strcaseeq (g_name (grp st gi)) BOOT_GROUP
                then (0, senderror n (''Can'' @ [CHR 0x27] @ ''t change group '' @ BOOT_GROUP @ ''!'') st)
                else if \<not> is_moderator \<and> has_mod \<and> \<not> is_public then (0, senderror n not_moderator st)
                else (0, status_loop n gi has_mod (field st 1) st))"

section \<open>Renaming a group\<close>

definition rename_user :: "cstring \<Rightarrow> cstring \<Rightarrow> int \<Rightarrow> srv \<Rightarrow> srv" where
  "rename_user cp nm i st =
     (if strcaseeq (u_group (usr st i)) cp then upd_u i (\<lambda>u. u\<lparr>u_group := nm\<rparr>) st else st)"

lemma rename_user_simps [simp]:
  "g_tab (rename_user cp nm i st) = g_tab st" "S_kill (rename_user cp nm i st) = S_kill st"
  "lpriv_id (rename_user cp nm i st) = lpriv_id st" "net_ok (rename_user cp nm i st) = net_ok st"
  "length (u_tab (rename_user cp nm i st)) = length (u_tab st)"
  "in_tab i (u_tab st) \<Longrightarrow> fault (rename_user cp nm i st) = fault st"
  by (simp_all add: rename_user_def)

lemma fold_rename:
  assumes "\<And>i. i \<in> set xs \<Longrightarrow> in_tab i (u_tab st)" "distinct xs"
  shows "g_tab (fold (rename_user cp nm) xs st) = g_tab st \<and> S_kill (fold (rename_user cp nm) xs st) = S_kill st
     \<and> lpriv_id (fold (rename_user cp nm) xs st) = lpriv_id st \<and> net_ok (fold (rename_user cp nm) xs st) = net_ok st
     \<and> length (u_tab (fold (rename_user cp nm) xs st)) = length (u_tab st)
     \<and> fault (fold (rename_user cp nm) xs st) = fault st"
    and "usr (fold (rename_user cp nm) xs st) k =
      (if k \<in> set xs \<and> strcaseeq (u_group (usr st k)) cp then (usr st k)\<lparr>u_group := nm\<rparr> else usr st k)"
proof -
  show "g_tab (fold (rename_user cp nm) xs st) = g_tab st \<and> S_kill (fold (rename_user cp nm) xs st) = S_kill st
     \<and> lpriv_id (fold (rename_user cp nm) xs st) = lpriv_id st \<and> net_ok (fold (rename_user cp nm) xs st) = net_ok st
     \<and> length (u_tab (fold (rename_user cp nm) xs st)) = length (u_tab st)
     \<and> fault (fold (rename_user cp nm) xs st) = fault st"
    using assms by (induction xs arbitrary: st) (auto simp: in_tab_def)
  show "usr (fold (rename_user cp nm) xs st) k =
      (if k \<in> set xs \<and> strcaseeq (u_group (usr st k)) cp then (usr st k)\<lparr>u_group := nm\<rparr> else usr st k)"
    using assms
  proof (induction xs arbitrary: st)
    case (Cons x xs)
    let ?s = "rename_user cp nm x st"
    have x: "in_tab x (u_tab st)" using Cons.prems by simp
    have "usr ?s k = (if k = x \<and> strcaseeq (u_group (usr st k)) cp then (usr st k)\<lparr>u_group := nm\<rparr> else usr st k)"
      using x by (auto simp: rename_user_def)
    with Cons.IH [of ?s] Cons.prems show ?case by (auto simp: in_tab_def)
  qed simp
qed

lemma real_users_tab: "i \<in> set (real_users st) \<longleftrightarrow> in_tab i (u_tab st) \<and> i \<noteq> NICKSERV st"
  by (auto simp: real_users_def in_tab_def)

text \<open>
  What the loop over the options keeps: the group has a name, the server's own slot is not in
  it (\<open>set_name\<close> does not rename that slot's group), and no group loses its last user.
\<close>

definition status_inv :: "srv \<Rightarrow> int \<Rightarrow> srv \<Rightarrow> bool" where
  "status_inv s0 gi st \<longleftrightarrow> safe s0 st \<and> g_name (grp st gi) \<noteq> []
     \<and> \<not> strcaseeq (u_group (usr st (NICKSERV s0))) (g_name (grp st gi))
     \<and> (inhabited s0 \<longrightarrow> inhabited st)"

lemma status_inv_calm: "status_inv s0 gi st \<Longrightarrow> calm st st' \<Longrightarrow> status_inv s0 gi st'"
  using safe_trans [of s0 st st'] inhabited_calm [of st st'] by (auto simp: status_inv_def calm_def)

lemma set_name_eq:
  assumes "in_tab gi (g_tab st)" "name \<noteq> []" "strncpy0 MAX_GROUPLEN name \<noteq> ''1''"
    "\<not> (find_group (strncpy0 MAX_GROUPLEN name) st \<ge> 0 \<and> find_group (strncpy0 MAX_GROUPLEN name) st \<noteq> gi)"
  shows "set_name n gi name st = (0, upd_g gi (\<lambda>g. g\<lparr>g_name := strncpy0 MAX_GROUPLEN name\<rparr>)
      (fold (rename_user (g_name (grp st gi)) (strncpy0 MAX_GROUPLEN name)) (real_users st) st))"
proof -
  have "(\<lambda>i st. if strcaseeq (u_group (usr st i)) cp then upd_u i (\<lambda>u. u\<lparr>u_group := nm\<rparr>) st else st)
      = rename_user cp nm" for cp nm
    by (intro ext) (simp add: rename_user_def)
  with assms show ?thesis by (simp add: set_name_def Let_def)
qed

lemma fresh_name:
  assumes ok: "srv_ok st" and nm: "nm \<noteq> []" "find_group nm st < 0 \<or> find_group nm st = gi"
    and j: "in_tab j (g_tab st)" "j \<noteq> gi"
  shows "\<not> strcaseeq nm (g_name (grp st j))"
proof
  assume eq: "strcaseeq nm (g_name (grp st j))"
  then have "find_group nm st = j"
    using find_group_unique [OF srv_okD(4) [OF ok] j(1) nm(1)] strcaseeq_sym by blast
  with nm(2) j show False by (auto simp: in_tab_def)
qed

lemma renamed_ok:
  assumes ok: "srv_ok st" and t: "in_tab gi (g_tab st)" "g_name (grp st gi) \<noteq> []"
    and nm: "nm \<noteq> []" "length nm \<le> MAX_GROUPLEN" "filtergroupname nm = nm"
    and fresh: "find_group nm st < 0 \<or> find_group nm st = gi"
    and s: "g_tab s = (g_tab st)[nat gi := (grp st gi)\<lparr>g_name := nm\<rparr>]" "length (u_tab s) = length (u_tab st)"
      "S_kill s = S_kill st" "lpriv_id s = lpriv_id st"
    and u: "\<And>k. in_tab k (u_tab st) \<Longrightarrow> usr s k = (if strcaseeq (u_group (usr st k)) (g_name (grp st gi))
      then (usr st k)\<lparr>u_group := nm\<rparr> else usr st k)"
  shows "srv_ok s"
proof -
  have g: "grp s j = (if j = gi then (grp st gi)\<lparr>g_name := nm\<rparr> else grp st j)" for j
    by (rule grp_list_update [OF s(1) t(1)])
  have tab: "in_tab k (u_tab s) = in_tab k (u_tab st)" "in_tab j (g_tab s) = in_tab j (g_tab st)" for k j
    by (rule in_tab_length, simp add: s)+
  have uok: "\<forall>x \<in> set (u_tab s). user_ok x"
  proof
    fix x assume "x \<in> set (u_tab s)"
    then obtain k where "in_tab k (u_tab st)" "x = usr s k" using u_tab_usr tab by blast
    with u nm(2) srv_ok_usr [OF ok] show "user_ok x" by (auto simp: user_ok_def user_lists_def)
  qed
  have gok: "\<forall>x \<in> set (g_tab s). group_ok s x"
  proof
    fix x assume "x \<in> set (g_tab s)"
    then obtain j where "in_tab j (g_tab st)" "x = grp s j" using g_tab_grp tab by blast
    with g nm srv_ok_grp [OF ok] show "group_ok s x" by (auto simp: group_ok_def group_lists_def tab)
  qed
  have dis: "groups_distinct s"
    unfolding groups_distinct_def
  proof (intro allI impI, elim conjE)
    fix a b assume ab: "in_tab a (g_tab s)" "in_tab b (g_tab s)" "a \<noteq> b" "g_name (grp s a) \<noteq> []"
    consider "a = gi" | "b = gi" | "a \<noteq> gi" "b \<noteq> gi" by blast
    then show "\<not> strcaseeq (g_name (grp s a)) (g_name (grp s b))"
    proof cases
      case 1 with ab fresh_name [OF ok nm(1) fresh, of b] show ?thesis by (simp add: g tab)
    next
      case 2 with ab fresh_name [OF ok nm(1) fresh, of a] show ?thesis by (simp add: g tab strcaseeq_sym)
    next
      case 3 with ab srv_okD(4) [OF ok] show ?thesis by (auto simp: groups_distinct_def g tab)
    qed
  qed
  have found: "0 \<le> find_group (u_group (usr s k)) s" if k: "in_tab k (u_tab st)" "u_group (usr s k) \<noteq> []" for k
  proof (cases "strcaseeq (u_group (usr st k)) (g_name (grp st gi))")
    case True
    have "find_group nm s = gi" using t(1) nm(1) by (intro find_group_unique dis) (simp_all add: g tab)
    with True u [OF k(1)] in_tab_nonneg [OF t(1)] show ?thesis by simp
  next
    case False
    let ?j = "find_group (u_group (usr st k)) st"
    have uk: "usr s k = usr st k" using u [OF k(1)] False by simp
    have "0 \<le> ?j" using srv_okD(5) [OF ok] k uk by (simp add: users_housed_def)
    note j = find_group_found(1,2) [OF this]
    have "?j \<noteq> gi" using j(2) False strcaseeq_sym by auto
    then have "find_group (u_group (usr st k)) s = ?j"
      using j k(2) uk by (intro find_group_unique dis) (simp_all add: g tab)
    with uk \<open>0 \<le> ?j\<close> show ?thesis by simp
  qed
  have "u_nickname (usr s k) \<noteq> [] \<Longrightarrow> u_group (usr s k) \<noteq> []" if "in_tab k (u_tab st)" for k
    using srv_okD(5) [OF ok] that u [OF that] nm(1) by (auto simp: users_housed_def)
  with found have "users_housed s" by (simp add: users_housed_def tab)
  with uok gok dis ok s show ?thesis by (auto simp: srv_ok_def)
qed

lemma renamed_inhabited:
  assumes inh: "inhabited st" and t: "in_tab gi (g_tab st)" "nm \<noteq> []" "g_name (grp st gi) \<noteq> []"
    and dis: "groups_distinct st"
    and s: "g_tab s = (g_tab st)[nat gi := (grp st gi)\<lparr>g_name := nm\<rparr>]" "length (u_tab s) = length (u_tab st)"
    and u: "\<And>k. in_tab k (u_tab st) \<Longrightarrow> usr s k = (if strcaseeq (u_group (usr st k)) (g_name (grp st gi))
      then (usr st k)\<lparr>u_group := nm\<rparr> else usr st k)"
  shows "inhabited s"
  unfolding inhabited_def
proof (intro allI impI, elim conjE)
  fix j assume j: "in_tab j (g_tab s)" "g_name (grp s j) \<noteq> []"
  have g: "grp s j = (if j = gi then (grp st gi)\<lparr>g_name := nm\<rparr> else grp st j)"
    by (rule grp_list_update [OF s(1) t(1)])
  have tab: "in_tab k (u_tab s) = in_tab k (u_tab st)" for k by (rule in_tab_length, simp add: s)
  have "in_tab j (g_tab st)" using j(1) s(1) by (simp add: in_tab_def)
  moreover have "g_name (grp st j) \<noteq> []" using j(2) t(3) g by (auto split: if_splits)
  ultimately obtain k where k: "in_tab k (u_tab st)" "strcaseeq (u_group (usr st k)) (g_name (grp st j))"
    using inh by (auto simp: inhabited_def count_users_tab)
  have "j = gi \<or> \<not> strcaseeq (u_group (usr st k)) (g_name (grp st gi))"
    using groups_distinctD [OF dis \<open>in_tab j (g_tab st)\<close> t(1)] k(2) \<open>g_name (grp st j) \<noteq> []\<close>
    by (auto simp: strcaseeq_def)
  then have "strcaseeq (u_group (usr s k)) (g_name (grp s j))"
    using k u [OF k(1)] g by auto
  then show "0 < count_users_in_group (g_name (grp s j)) s"
    using k(1) j(2) tab by (auto simp: count_users_tab)
qed

lemma status_inv_set_name:
  assumes inv: "status_inv s0 gi st" and t: "in_tab gi (g_tab s0)" and nm: "filtergroupname name = name"
  shows "status_inv s0 gi (snd (set_name n gi name st))"
proof -
  have sf: "safe s0 st" and ne: "g_name (grp st gi) \<noteq> []"
    and ns: "\<not> strcaseeq (u_group (usr st (NICKSERV s0))) (g_name (grp st gi))"
    using inv by (auto simp: status_inv_def)
  have len: "NICKSERV s0 = NICKSERV st" using sf by (simp add: safe_def)
  have tg: "in_tab gi (g_tab st)" using t safe_tab [OF sf] by simp
  let ?nm = "strncpy0 MAX_GROUPLEN name"
  have err: "status_inv s0 gi (senderror n m st)" for m
    by (rule status_inv_calm [OF inv]) (intro calm_senders calm_refl safeD [OF sf])
  show ?thesis
  proof (cases "name = [] \<or> ?nm = ''1'' \<or> find_group ?nm st \<ge> 0 \<and> find_group ?nm st \<noteq> gi")
    case True
    then show ?thesis using err by (auto simp: set_name_def Let_def)
  next
    case False
    let ?s1 = "fold (rename_user (g_name (grp st gi)) ?nm) (real_users st) st"
    let ?s = "upd_g gi (\<lambda>g. g\<lparr>g_name := ?nm\<rparr>) ?s1"
    have d: "distinct (real_users st)" by (simp add: real_users_def)
    note F = fold_rename [OF _ d, of st "g_name (grp st gi)" ?nm, unfolded real_users_tab, simplified]
    have e: "set_name n gi name st = (0, ?s)"
      using False by (intro set_name_eq tg) auto
    have f: "?nm \<noteq> []" "length ?nm \<le> MAX_GROUPLEN" "filtergroupname ?nm = ?nm"
      using False nm by (auto simp: strncpy0_def filtergroupname_def take_map [symmetric])
    have g1: "grp ?s1 gi = grp st gi" using F(1) by (intro tab_cong) simp
    have fresh: "find_group ?nm st < 0 \<or> find_group ?nm st = gi" using False by auto
    have gt: "g_tab ?s = (g_tab st)[nat gi := (grp st gi)\<lparr>g_name := ?nm\<rparr>]"
      using F(1) tg g1 by (simp add: g_tab_upd_g)
    have us: "usr ?s k = (if strcaseeq (u_group (usr st k)) (g_name (grp st gi))
          then (usr st k)\<lparr>u_group := ?nm\<rparr> else usr st k)" if "in_tab k (u_tab st)" for k
      using that ns len by (simp add: F(2))
    have ok: "srv_ok ?s"
      by (rule renamed_ok [OF safeD(1) [OF sf] tg ne f fresh gt]) (use F(1) us in simp_all)
    have inh: "inhabited st \<Longrightarrow> inhabited ?s"
      by (rule renamed_inhabited [OF _ tg f(1) ne srv_okD(4) [OF safeD(1) [OF sf]] gt]) (use F(1) us in simp_all)
    have "safe s0 ?s" using ok F(1) tg sf by (simp add: safe_def)
    moreover have "grp ?s gi = (grp st gi)\<lparr>g_name := ?nm\<rparr>" using tg F(1) g1 by simp
    moreover have "usr ?s (NICKSERV s0) = usr st (NICKSERV s0)" using len by (simp add: F(2))
    moreover have "\<not> strcaseeq (u_group (usr st (NICKSERV st))) ?nm"
    proof
      let ?g = "u_group (usr st (NICKSERV st))"
      assume eq: "strcaseeq ?g ?nm"
      have "in_tab (NICKSERV st) (u_tab st)" using srv_okD(1) [OF safeD(1) [OF sf]] by (auto simp: in_tab_def Suc_le_eq)
      moreover have "?g \<noteq> []" using eq f(1) by auto
      ultimately have "0 \<le> find_group ?g st"
        using srv_okD(5) [OF safeD(1) [OF sf]] by (auto simp: users_housed_def)
      note this find_group_found(2) [OF this]
      moreover have "find_group ?g st = find_group ?nm st" using eq by (rule find_group_case)
      ultimately have "strcaseeq (g_name (grp st gi)) ?g" using fresh by auto
      with ns len show False by (simp add: strcaseeq_sym)
    qed
    ultimately show ?thesis using f(1) len inh inv by (simp add: status_inv_def e)
  qed
qed

section \<open>The options one by one\<close>

lemma calm_dump_table: "calm s0 st \<Longrightarrow> calm s0 (dump_table n st)"
  unfolding dump_table_def by (rule hc.folds) (auto intro: calm_senders)

lemma calm_show_status:
  assumes "srv_ok st" "net_ok st" "in_tab gi (g_tab st)"
  shows "calm st (show_status n gi st)"
proof -
  have "0 \<le> g_mod (grp st gi) \<Longrightarrow> in_tab (g_mod (grp st gi)) (u_tab st)"
    using srv_ok_grp [OF assms(1,3)] by (auto simp: group_ok_def)
  then have need: "(if 0 \<le> g_mod (grp st gi) then need_u (g_mod (grp st gi)) st else st) = st" by simp
  show ?thesis
    unfolding show_status_def Let_def need using calm_refl [OF assms(1,2)]
    by - (rule calm_senders hc.ifs calm_list_lines calm_list_invites | assumption)+
qed

lemma group_ok_inits:
  "group_ok st g \<Longrightarrow> group_ok st (init_invites (g\<lparr>g_control := c\<rparr>))"
  "group_ok st g \<Longrightarrow> group_ok st (init_bars (g\<lparr>g_control := c\<rparr>))"
  "group_ok st g \<Longrightarrow> group_ok st (init_bars (init_invites (g\<lparr>g_control := c\<rparr>)))"
  "g_name (init_invites g) = g_name g" "g_name (init_bars g) = g_name g"
  by (simp_all add: init_invites_def init_bars_def group_ok_def group_lists_def nl_ok_init)

lemma calm_restrict_user:
  assumes "calm s0 st" "in_tab gi (g_tab s0)"
  shows "calm s0 (restrict_user gi i st)"
  unfolding restrict_user_def using assms
  by - (rule calm_ctl calm_senders calm_upd_g | assumption | simp add: group_ok_def group_lists_def nl_ok_put)+

lemma calm_set_restrict:
  assumes "calm s0 st" "in_tab gi (g_tab s0)"
  shows "calm s0 (set_restrict gi st)"
  unfolding set_restrict_def using assms
  by (auto intro!: hc.folds calm_restrict_user calm_upd_g simp: group_ok_inits)

lemma calm_set_limits:
  assumes "calm s0 st" "in_tab gi (g_tab s0)"
  shows "calm s0 (snd (set_size n gi p2 st))" "calm s0 (snd (set_idleboot n gi p2 st))"
    "calm s0 (snd (set_idlemod n gi p2 st))"
    "(\<And>g. g_name (f g) = g_name g) \<Longrightarrow> (\<And>g. group_ok s0 g \<Longrightarrow> group_ok s0 (f g)) \<Longrightarrow>
       calm s0 (snd (set_flag n gi f note st))"
  unfolding set_size_def set_idleboot_def set_idlemod_def set_flag_def using assms
  by - (rule calm_ctl calm_senders calm_upd_g | assumption | simp add: group_ok_def group_lists_def)+

lemma calm_flag_fault: "calm s0 st \<Longrightarrow> \<not> b \<Longrightarrow> calm s0 (flag_fault b st)"
  by (simp add: flag_fault_def)

lemma calm_set_idleboot_msg:
  assumes "calm s0 st" "in_tab gi (g_tab s0)" "length p1 < IDLEBOOT_MSG_LEN"
  shows "calm s0 (set_idleboot_msg n gi p1 st)"
  unfolding set_idleboot_msg_def using assms
  by - (rule calm_ctl calm_senders calm_upd_g calm_flag_fault | assumption
      | simp add: group_ok_def group_lists_def split: option.split)+

lemma set_option_calm:
  assumes ok: "srv_ok st" "net_ok st" "in_tab gi (g_tab st)"
    and msg: "lu = SET_IDLEBOOT_MSG \<Longrightarrow> length (get_tail p1) < IDLEBOOT_MSG_LEN" and lu: "lu \<noteq> SET_NAME"
  shows "calm st (snd (snd (set_option n gi lu p1 p2 st)))"
proof -
  note r = calm_refl [OF ok(1,2)]
  note f = calm_set_limits [OF r ok(3), where n = n]
  note u = calm_upd_g [OF r ok(3)]
  have flags: "group_ok st g \<Longrightarrow> group_ok st (g\<lparr>g_visibility := v\<rparr>)" "group_ok st g \<Longrightarrow> group_ok st (g\<lparr>g_volume := v\<rparr>)" for g v
    by (simp_all add: group_ok_def group_lists_def)
  have a: "calm st (upd_g gi (\<lambda>g. init_invites (g\<lparr>g_control := c\<rparr>)) st)" for c
    by (rule u) (simp_all add: group_ok_inits)
  have b: "calm st (snd (set_flag n gi (\<lambda>g. init_bars (init_invites (g\<lparr>g_control := PUBLIC\<rparr>))) nt st))"
    "calm st (snd (set_flag n gi (\<lambda>g. g\<lparr>g_visibility := v\<rparr>) nt st))"
    "calm st (snd (set_flag n gi (\<lambda>g. g\<lparr>g_volume := v\<rparr>) nt st))" for v nt
    by (rule f(4); simp add: group_ok_inits flags)+
  have i: "(c \<Longrightarrow> calm st (snd (snd x))) \<Longrightarrow> (\<not> c \<Longrightarrow> calm st (snd (snd y))) \<Longrightarrow> calm st (snd (snd (if c then x else y)))"
    for c and x y :: "cstring \<times> cstring \<times> srv" by simp
  show ?thesis
    unfolding set_option_def
    by (intro i) (use lu in \<open>simp_all add: a b f(1-3) msg calm_set_idleboot_msg [OF r ok(3)]
        calm_set_restrict [OF r ok(3)] calm_dump_table [OF r] hc.senders(1) [OF r]\<close>)
qed

lemma idlebootmsg_tail:
  assumes "lookup (getword p1) status_table = SET_IDLEBOOT_MSG" "length p1 < 66"
  shows "length (get_tail p1) < IDLEBOOT_MSG_LEN"
proof -
  have "find_index (strcaseeq (getword p1)) status_table = int 14"
    using assms(1) by (simp add: lookup_def)
  from find_index_Some [OF this] have "strcaseeq (getword p1) (status_table ! 14)" by blast
  moreover have "status_table ! 14 = ''idlebootmsg''" by (simp add: status_table_def)
  ultimately have "length (getword p1) = 11" using strcaseeq_length by fastforce
  then have w: "length (takeWhile (\<lambda>c. \<not> is_blank c) p1) = 11" by (simp add: getword_def min_def split: if_splits)
  obtain ws where ws: "\<forall>c \<in> set ws. is_blank c" "p1 = takeWhile (\<lambda>c. \<not> is_blank c) p1 @ ws @ get_tail p1"
    by (rule getword_tail)
  have len: "length p1 = 11 + length ws + length (get_tail p1)"
    using arg_cong [OF ws(2), of length] w by simp
  show ?thesis
  proof (cases "ws = []")
    case True
    have "dropWhile (\<lambda>c. \<not> is_blank c) p1 = get_tail p1"
      using ws(2) True takeWhile_dropWhile_id [of "\<lambda>c. \<not> is_blank c" p1] by (metis append_Nil same_append_eq)
    moreover have "get_tail p1 = dropWhile is_blank (dropWhile (\<lambda>c. \<not> is_blank c) p1)" by (simp add: get_tail_def)
    ultimately have "get_tail p1 = []"
      using hd_dropWhile [of "\<lambda>c. \<not> is_blank c" p1] hd_dropWhile [of is_blank "dropWhile (\<lambda>c. \<not> is_blank c) p1"] by metis
    then show ?thesis by simp
  next
    case False
    then have "1 \<le> length ws" by (cases ws) auto
    with len assms(2) show ?thesis by linarith
  qed
qed

lemma status_inv_option:
  assumes inv: "status_inv s0 gi st" and t: "in_tab gi (g_tab s0)" "in_tab n (u_tab s0)" and len: "length p1 < 66"
  shows "status_inv s0 gi (snd (status_option n gi hm p1 st))"
proof -
  let ?lu = "lookup (getword p1) status_table"
  let ?o = "snd (snd (set_option n gi ?lu p1 (getword p1) st))"
  have sf: "safe s0 st" using inv by (simp add: status_inv_def)
  note ok = safeD [OF sf]
  have tg: "in_tab gi (g_tab st)" using t safe_tab [OF sf] by simp
  have o: "status_inv s0 gi ?o"
  proof (cases "?lu = SET_NAME")
    case True
    then have "?o = snd (set_name n gi (filtergroupname (getword (get_tail p1))) st)"
      by (simp add: set_option_def Let_def split_beta)
    then show ?thesis using status_inv_set_name [OF inv t(1)] by (simp add: filtergroupname_props)
  next
    case False
    show ?thesis
      using set_option_calm [OF ok tg idlebootmsg_tail [OF _ len] False] by (rule status_inv_calm [OF inv])
  qed
  then have so: "safe s0 ?o" by (simp add: status_inv_def)
  have n: "in_tab n (u_tab ?o)" using t safe_tab [OF so] by simp
  have "status_inv s0 gi (s_status_group 1 True n ''Change'' cp ?o)" for cp
    by (rule status_inv_calm [OF o]) (intro hc.casts calm_refl safeD [OF so] n)
  moreover have "status_inv s0 gi (senderror n m st)" for m
    by (rule status_inv_calm [OF inv]) (intro calm_senders calm_refl ok)
  ultimately show ?thesis using o by (simp add: status_option_def Let_def split_beta)
qed

lemma status_inv_loop:
  assumes "status_inv s0 gi st" "in_tab gi (g_tab s0)" "in_tab n (u_tab s0)" "length p1 < 66"
  shows "status_inv s0 gi (status_loop n gi hm p1 st)"
  using assms
proof (induction n gi hm p1 st rule: status_loop.induct)
  case (1 n gi hm p1 st)
  show ?case
  proof (cases "getword p1 = []")
    case False
    obtain p1' st' where o: "status_option n gi hm p1 st = (p1', st')" by (cases "status_option n gi hm p1 st")
    have "status_inv s0 gi st'" using status_inv_option [OF "1.prems", of hm] o by simp
    moreover have "length (get_tail p1') < 66"
      using status_option_less [OF False, of n gi hm st] o "1.prems"(4) by simp
    ultimately have "status_inv s0 gi (status_loop n gi hm (get_tail p1') st')"
      using "1.IH" [OF False refl, of p1' st'] o "1.prems" by simp
    then show ?thesis using False o by (subst status_loop.simps) simp
  qed (use 1 in \<open>simp add: status_loop.simps\<close>)
qed

text \<open>The command keeps the tables well-formed and leaves no group without users.\<close>

definition kept :: "srv \<Rightarrow> srv \<Rightarrow> bool" where
  "kept s0 st \<longleftrightarrow> safe s0 st \<and> (inhabited s0 \<longrightarrow> inhabited st)"

lemma kept_calm: "kept s0 st \<Longrightarrow> calm st st' \<Longrightarrow> kept s0 st'"
  using safe_trans [of s0 st st'] inhabited_calm [of st st'] by (auto simp: kept_def calm_safe)

lemma kept_refl: "srv_ok st \<Longrightarrow> net_ok st \<Longrightarrow> kept st st"
  by (simp add: kept_def safe_refl)

lemma keptD: "kept s0 st \<Longrightarrow> srv_ok st" "kept s0 st \<Longrightarrow> net_ok st" "kept s0 st \<Longrightarrow> safe s0 st"
  by (auto simp: kept_def intro: safeD)

lemma emits_calm: "srv_ok st \<Longrightarrow> net_ok st \<Longrightarrow> calm st (emits ps r st)"
  by (simp add: calm_emits calm_refl)

interpretation hk: handler_pred "kept s0" for s0
proof unfold_locales
  fix st ps r assume "kept s0 st"
  then show "net_ok st" "kept s0 (emits ps r st)"
    using keptD kept_calm emits_calm by blast+
qed

lemma kept_s_status:
  assumes "srv_ok st" "net_ok st" "in_group n st" "length (field st 1) < 66"
    and ns: "\<not> strcaseeq (u_group (usr st (NICKSERV st))) (u_group (usr st n))"
  shows "kept st (snd (s_status n argc st))"
proof -
  note t = in_groupD [OF assms(1,3)]
  let ?gi = "find_group (u_group (usr st n)) st"
  have g: "strcaseeq (g_name (grp st ?gi)) (u_group (usr st n))"
    using find_group_found(2) in_tab_nonneg [OF t(2)] .
  have "status_inv st ?gi st"
    using assms g safe_refl [OF assms(1,2)] by (auto simp: status_inv_def in_group_def strcaseeq_def)
  from status_inv_loop [OF this t(2,1) assms(4)]
  have l: "kept st (status_loop n ?gi hm (field st 1) st)" for hm by (simp add: status_inv_def kept_def)
  have s: "kept st (show_status n ?gi st)"
    by (rule kept_calm [OF kept_refl calm_show_status]) (fact assms t)+
  show ?thesis unfolding s_status_def using assms t l s
    by - (rule hk.ctl hk.senders kept_refl | assumption | simp)+
qed

end
