(* ===== verification/Commands.thy ===== *)
theory Commands
  imports Status "HOL-Library.Transitive_Closure_Table"
begin

text \<open>
  Properties of the group commands together: the invariant of the tables over any sequence of
  commands, who may change what, and what single commands do.
\<close>

section \<open>Sequences of commands\<close>

text \<open>
  One command of a user who has a group (\<open>s_change\<close> also serves the login, where there is no
  group yet), or the arrival of new fields and the passing of time. \<open>s_status\<close> is guarded by
  the two conditions under which it is safe: the server's own slot is not in the group, which
  \<open>set_name\<close> would forget to rename, and the text is too short for the message that overflows
  its buffer.
\<close>

inductive command :: "srv \<Rightarrow> srv \<Rightarrow> bool" where
  arrive: "command st (st\<lparr>pfields := fs\<rparr>)"
| change: "in_tab n (u_tab st) \<Longrightarrow> argc = 2 \<or> argc = 3 \<Longrightarrow> command st (snd (s_change n argc st))"
| send_group: "in_tab n (u_tab st) \<Longrightarrow> command st (snd (s_send_group n st))"
| exclude: "in_tab n (u_tab st) \<Longrightarrow> command st (snd (s_exclude n argc st))"
| cancel: "in_group n st \<Longrightarrow> command st (snd (s_cancel n argc st))"
| invite: "in_group n st \<Longrightarrow> command st (snd (s_invite n argc st))"
| pass: "in_group n st \<Longrightarrow> command st (snd (s_pass n argc st))"
| boot: "in_group n st \<Longrightarrow> command st (snd (s_boot n argc st))"
| topic: "in_group n st \<Longrightarrow> command st (snd (s_topic n argc st))"
| talk: "in_group n st \<Longrightarrow> command st (snd (s_talk n argc st))"
| status: "in_group n st \<Longrightarrow> length (field st 1) < 66 \<Longrightarrow>
    \<not> strcaseeq (u_group (usr st (NICKSERV st))) (u_group (usr st n)) \<Longrightarrow>
    command st (snd (s_status n argc st))"

inductive_cases commandE: "command st st'"

lemma kept_s_change:
  assumes "kept s0 st" "in_tab n (u_tab s0)" "argc = 2 \<or> argc = 3"
  shows "kept s0 (snd (s_change n argc st))"
proof -
  note k = keptD [OF assms(1)]
  have n: "in_tab n (u_tab st)" using assms(2) safe_tab [OF k(3)] by simp
  show ?thesis
    using safe_s_change [OF k(3) assms(2)] inhabited_change [OF s_change_result [OF k(1,2) n assms(3)] _ n] assms(1)
    by (auto simp: kept_def)
qed

lemma kept_upd_g:
  assumes "kept s0 st" "in_tab i (g_tab s0)" "\<And>g. g_name (f g) = g_name g"
    and "\<And>g. group_ok s0 g \<Longrightarrow> group_ok s0 (f g)"
  shows "kept s0 (upd_g i f st)"
proof (rule kept_calm [OF assms(1)], rule calm_upd_g)
  note k = keptD [OF assms(1)]
  show "calm st st" using k by (rule_tac calm_refl)
  show "in_tab i (g_tab st)" using assms(2) safe_tab [OF k(3)] by simp
  have "group_ok st = group_ok s0" by (rule ext) (simp add: group_ok_def safe_tab [OF k(3)])
  with assms(4) show "\<And>g. group_ok st g \<Longrightarrow> group_ok st (f g)" by simp
qed (fact assms)

lemma kept_others:
  assumes "kept s0 st"
  shows "kept s0 (st\<lparr>pfields := fs\<rparr>)" "kept s0 (st\<lparr>is_booting := x\<rparr>)" "kept s0 (st\<lparr>stats := y\<rparr>)"
    "kept s0 (st\<lparr>pfields := fs, is_booting := x\<rparr>)"
proof -
  have "inhabited (st\<lparr>pfields := fs\<rparr>) = inhabited st" "inhabited (st\<lparr>is_booting := x\<rparr>) = inhabited st"
    "inhabited (st\<lparr>stats := y\<rparr>) = inhabited st" "inhabited (st\<lparr>pfields := fs, is_booting := x\<rparr>) = inhabited st"
    by (rule inhabited_cong; simp)+
  then show "kept s0 (st\<lparr>pfields := fs\<rparr>)" "kept s0 (st\<lparr>is_booting := x\<rparr>)" "kept s0 (st\<lparr>stats := y\<rparr>)"
    "kept s0 (st\<lparr>pfields := fs, is_booting := x\<rparr>)"
    using assms safe_others [OF keptD(3) [OF assms]] unfolding kept_def by simp_all
qed

lemma kept_status_group:
  assumes "kept s0 st" "in_tab n (u_tab s0)"
  shows "kept s0 (s_status_group 1 t n c m st)"
  using hk.casts(1) [OF assms(1)] assms(2) safe_tab [OF keptD(3) [OF assms(1)]] by simp

lemma kept_do_boot:
  assumes s: "kept s0 st" and t: "in_tab n (u_tab s0)" "in_tab dest (u_tab s0)" "in_tab gi (g_tab s0)"
  shows "kept s0 (do_boot n dest gi msg st)"
proof -
  have "group_ok st (grp st gi)" using srv_ok_grp [OF keptD(1) [OF s]] t safe_tab [OF keptD(3) [OF s]] by simp
  then have l: "nl_ok (n_invites (grp st gi))" "nl_ok (nr_invites (grp st gi))"
    by (simp_all add: group_ok_def group_lists_def)
  show ?thesis unfolding do_boot_def using s t l
    by - (rule hk.ctl hk.senders kept_status_group kept_others kept_upd_g kept_s_change | assumption
      | (erule nl_ok_delete_if, assumption)
      | (simp add: group_ok_def group_lists_def, intro conjI; erule nl_ok_delete_if, assumption) | simp)+
qed

lemma kept_s_boot:
  assumes "srv_ok st" "net_ok st" "in_group n st"
  shows "kept st (snd (s_boot n argc st))"
  unfolding s_boot_def
  using assms in_groupD [OF assms(1,3)] find_user_found(1) [of "getword (field st 1)" st]
  by - (rule hk.ctl hk.senders kept_refl kept_do_boot | assumption | simp)+

lemmas kept_calms = kept_calm [OF kept_refl calm_s_send_group] kept_calm [OF kept_refl calm_s_exclude]
  kept_calm [OF kept_refl calm_s_cancel] kept_calm [OF kept_refl calm_s_invite] kept_calm [OF kept_refl calm_s_pass]
  kept_calm [OF kept_refl calm_s_topic] kept_calm [OF kept_refl calm_s_talk]

lemma command_kept: "command st st' \<Longrightarrow> srv_ok st \<Longrightarrow> net_ok st \<Longrightarrow> kept st st'"
  by (induction rule: command.induct)
    (auto intro: kept_calms kept_s_change kept_s_boot kept_s_status kept_others kept_refl)

lemma commands_kept: "command\<^sup>*\<^sup>* st st' \<Longrightarrow> srv_ok st \<Longrightarrow> net_ok st \<Longrightarrow> kept st st'"
proof (induction rule: rtranclp_induct)
  case (step y z)
  then have y: "kept st y" by simp
  have "kept y z" using step.hyps(2) keptD(1,2) [OF y] by (rule command_kept)
  with y show ?case using safe_trans [of st y z] by (auto simp: kept_def)
qed (rule kept_refl)


lemma change_result_others:
  assumes "change_result n st p" "in_tab n (u_tab st)" "k \<noteq> n"
  shows "usr (snd p) k = usr st k"
  using assms(1) unfolding change_result_def
proof (elim disjE conjE exE)
  assume "u_tab (snd p) = u_tab st"
  then show ?thesis by (rule tab_cong)
next
  fix ngi st1 assume a: "u_tab (snd p) = u_tab (moved n ngi st1)" "u_tab st1 = u_tab st"
  have "usr (snd p) k = usr (moved n ngi st1) k" using a(1) by (rule tab_cong)
  also have "\<dots> = usr st1 k" using moved_usr(2) [of n st1 k ngi] assms(2,3) a(2) by simp
  also have "\<dots> = usr st k" using a(2) by (rule tab_cong)
  finally show ?thesis .
next
  fix ngi st1 assume a: "u_tab (snd p) = u_tab (moved n ngi st1)" "u_tab st1 = u_tab st"
  have "usr (snd p) k = usr (moved n ngi st1) k" using a(1) by (rule tab_cong)
  also have "\<dots> = usr st1 k" using moved_usr(2) [of n st1 k ngi] assms(2,3) a(2) by simp
  also have "\<dots> = usr st k" using a(2) by (rule tab_cong)
  finally show ?thesis .
qed

lemma demo_inhabited: "inhabited demo"
  unfolding inhabited_def demo_cases count_users_pos demo_tabs(2)
  by (auto simp: demo_user_def blank_group_def)


section \<open>Who may change what\<close>

text \<open>Both tables are as they were.\<close>

definition still :: "srv \<Rightarrow> srv \<Rightarrow> bool" where
  "still s0 st \<longleftrightarrow> net_ok st \<and> u_tab st = u_tab s0 \<and> g_tab st = g_tab s0"

interpretation ht: handler_pred "still s0" for s0
  by unfold_locales (simp_all add: still_def)

lemma still_refl: "net_ok st \<Longrightarrow> still st st"
  by (simp add: still_def)

lemma still_add_item: "still s0 (snd b) \<Longrightarrow> still s0 (snd (add_item n item b))"
  by (cases b) (auto simp: add_item_def ht.senders)

lemma still_add_names: "still s0 (snd b) \<Longrightarrow> still s0 (snd (add_names n ti ix mk fi ss b))"
  by (induction n ti ix mk fi ss b rule: add_names.induct) (auto simp: Let_def still_add_item)

lemma still_list_lines: "still s0 st \<Longrightarrow> still s0 (list_lines n ti l lr st)"
  unfolding list_lines_def
  using still_add_names ht.pairs by (simp add: split_beta Let_def ht.senders)

lemma still_list_invites: "still s0 st \<Longrightarrow> still s0 (snd (list_invites n gi st))"
  by (simp add: list_invites_def Let_def still_list_lines)

text \<open>
  C6 (only the moderator): a user who is neither the moderator of the group nor the
  administrator can change nothing with \<open>pass\<close>, \<open>boot\<close>, \<open>cancel\<close>, \<open>invite\<close> and \<open>talk\<close>, nothing
  with \<open>topic\<close> if the group has a moderator, and nothing with \<open>status\<close> if the group has a
  moderator and is not public: both tables stay as they were.
\<close>

theorem moderator_only:
  assumes "srv_ok st" "net_ok st" "in_group n st" "gi = find_group (u_group (usr st n)) st"
    and "g_mod (grp st gi) \<noteq> n" "\<not> check_auth n st"
  shows "still st (snd (s_pass n argc st)) \<and> still st (snd (s_boot n argc st))
    \<and> still st (snd (s_cancel n argc st)) \<and> still st (snd (s_invite n argc st))
    \<and> still st (snd (s_talk n argc st))
    \<and> (0 \<le> g_mod (grp st gi) \<longrightarrow> still st (snd (s_topic n argc st)))
    \<and> (g_mod (grp st gi) \<noteq> -1 \<and> g_control (grp st gi) \<noteq> PUBLIC \<and> field st 1 \<noteq> [] \<longrightarrow>
         still st (snd (s_status n argc st)))"
proof -
  note g = in_groupD [OF assms(1,3), folded assms(4)]
  note rules = ht.ctl ht.senders still_refl [OF assms(2)]
  have "still st (snd (s_pass n argc st))" "still st (snd (s_boot n argc st))"
    "still st (snd (s_cancel n argc st))"
    unfolding s_pass_def s_boot_def s_cancel_def using assms(5,6) g
    by - (rule rules | simp add: assms(4) | simp add: assms(4) [symmetric])+
  moreover have "still st (snd (s_invite n argc st))"
    unfolding s_invite_def using assms(5,6) g
    by - (rule rules still_list_invites | assumption | simp add: assms(4) | simp add: assms(4) [symmetric])+
  moreover have "still st (snd (s_talk n argc st))"
    unfolding s_talk_def using assms(5,6) g
    by - (rule rules | simp add: assms(4) | simp add: assms(4) [symmetric])+
  moreover have "still st (snd (s_topic n argc st))" if "0 \<le> g_mod (grp st gi)"
    unfolding s_topic_def using assms(5,6) g that
    by - (rule rules | simp add: assms(4) | simp add: assms(4) [symmetric])+
  moreover have "still st (snd (s_status n argc st))"
    if "g_mod (grp st gi) \<noteq> -1" "g_control (grp st gi) \<noteq> PUBLIC" "field st 1 \<noteq> []"
    unfolding s_status_def using assms(5,6) g that
    by - (rule rules | simp add: assms(4) | simp add: assms(4) [symmetric])+
  ultimately show ?thesis by blast
qed

text \<open>Witness: \<open>bob\<close> is not the moderator of \<open>cafe\<close>.\<close>

theorem moderator_only_witness:
  "still demo (snd (s_pass 1 2 demo)) \<and> still demo (snd (s_topic 1 2 demo))"
proof -
  have g: "find_group ''cafe'' demo = 1"
    using demo_ok by (intro find_group_unique) (auto simp: srv_ok_def in_tab_def)
  have "\<not> check_auth 1 demo"
    by (auto simp: check_auth_def demo_user_def dest: strcaseeq_length)
  moreover have "in_group 1 demo" by (simp add: in_group_def in_tab_def demo_user_def)
  moreover have "1 = find_group (u_group (usr demo 1)) demo" by (simp add: demo_user_def g)
  ultimately show ?thesis
    using moderator_only [of demo 1 1 2] demo_ok by simp
qed

text \<open>
  C7 (restricted groups): a user who is not the administrator, not the moderator and not
  invited to a restricted group cannot enter it: after \<open>s_change\<close> the user is in another group
  (or still has none).
\<close>

theorem restricted_closed:
  assumes "srv_ok st" "net_ok st" "in_tab n (u_tab st)" "argc = 2 \<or> argc = 3"
    and "in_tab gi (g_tab st)" "g_name (grp st gi) \<noteq> []" "g_control (grp st gi) = RESTRICTED"
    and "\<not> check_auth n st" "g_mod (grp st gi) \<noteq> n" "\<not> is_invited n gi st" "\<not> is_booting st"
    and "\<not> strcaseeq (u_group (usr st n)) (g_name (grp st gi))"
  shows "\<not> strcaseeq (u_group (usr (snd (s_change n argc st)) n)) (g_name (grp st gi))"
proof -
  let ?p = "s_change n argc st"
  have no: "\<not> may_enter n gi st" using assms by (simp add: may_enter_def)
  have "change_result n st ?p" by (rule s_change_result) (fact assms)+
  then show ?thesis unfolding change_result_def
  proof (elim disjE conjE exE)
    assume "u_tab (snd ?p) = u_tab st"
    then have "usr (snd ?p) n = usr st n" by (rule tab_cong)
    with assms(12) show ?thesis by simp
  next
    fix ngi st1
    assume a: "in_tab ngi (g_tab st)" "g_name (grp st1 ngi) \<noteq> []" "u_tab (snd ?p) = u_tab (moved n ngi st1)"
      "u_tab st1 = u_tab st" "g_tab st1 = g_tab st" "may_enter n ngi st"
    have "u_group (usr (snd ?p) n) = g_name (grp st ngi)"
      using tab_cong(1) [OF a(3)] tab_cong(2) [OF a(5)] moved_usr(1) [of n st1 ngi] assms(3) a(4) by simp
    moreover have "ngi \<noteq> gi" using a(6) no by auto
    moreover have "g_name (grp st ngi) \<noteq> []" using a(2) tab_cong(2) [OF a(5), of ngi] by simp
    ultimately show ?thesis
      using groups_distinctD [OF srv_okD(4) [OF assms(1)] a(1) assms(5)] by metis
  next
    fix ngi st1 nm vis
    assume a: "in_tab ngi (g_tab st)" "g_name (grp st1 ngi) \<noteq> []" "u_tab (snd ?p) = u_tab (moved n ngi st1)"
      "u_tab st1 = u_tab st" "srv_ok st1" "g_name (grp st ngi) = []"
      "g_tab st1 = (g_tab st)[nat ngi := new_group n nm vis (grp st ngi)]"
    have u: "u_group (usr (snd ?p) n) = g_name (grp st1 ngi)"
      using tab_cong(1) [OF a(3)] moved_usr(1) [of n st1 ngi] assms(3) a(4) by simp
    have "ngi \<noteq> gi" using a(6) assms(6) by auto
    moreover have "grp st1 gi = grp st gi" using grp_list_update [OF a(7,1), of gi] \<open>ngi \<noteq> gi\<close> by auto
    moreover have "in_tab ngi (g_tab st1)" "in_tab gi (g_tab st1)" using a(1,7) assms(5) by (simp_all add: in_tab_def)
    ultimately show ?thesis
      using groups_distinctD [OF srv_okD(4) [OF a(5)], of ngi gi] a(2) u by metis
  qed
qed

theorem restricted_closed_witness:
  "\<not> strcaseeq (u_group (usr (snd (s_change 2 2 (demo\<lparr>pfields := [''g'', ''ICB'']\<rparr>))) 2)) ''ICB''"
proof -
  let ?st = "demo\<lparr>pfields := [''g'', ''ICB'']\<rparr>"
  have u: "usr ?st i = usr demo i" and g: "grp ?st i = grp demo i" for i by (auto intro: tab_cong)
  have "\<not> is_invited 2 0 ?st"
    by (simp add: is_invited_def u g blank_group_def nl_present_def nl_match_def nl_init_def)
  moreover have "\<not> check_auth 2 ?st"
    unfolding check_auth_def u by (auto simp: demo_user_def dest: strcaseeq_length)
  moreover have "\<not> strcaseeq (u_group (usr ?st 2)) (g_name (grp ?st 0))"
    unfolding u g by (auto simp: demo_user_def dest: strcaseeq_length)
  moreover have "\<not> is_booting ?st" by (simp add: demo_def)
  ultimately show ?thesis
    using restricted_closed [of ?st 2 2 0] demo_ok by (simp add: g in_tab_def)
qed

section \<open>Single commands\<close>

lemma talk_add_lists:
  assumes "net_ok st" "in_tab gi (g_tab st)"
  shows "n_talk (grp (talk_add n gi who 0 q st) gi) = nl_put who (n_talk (grp st gi))"
    "nr_talk (grp (talk_add n gi who 0 q st) gi) = nr_talk (grp st gi)"
proof -
  let ?s = "upd_g gi (\<lambda>g. g\<lparr>n_talk := nl_put who (n_talk g)\<rparr>) st"
  have "\<exists>ps r. talk_add n gi who 0 q st = emits ps r ?s"
    using assms(1) by (auto simp: talk_add_def Let_def sender_rules intro: exI [of _ "[]"] exI [of _ False])
  then show "n_talk (grp (talk_add n gi who 0 q st) gi) = nl_put who (n_talk (grp st gi))"
    "nr_talk (grp (talk_add n gi who 0 q st) gi) = nr_talk (grp st gi)"
    using assms(2) by auto
qed

text \<open>
  \<open>talk\<close> replaces the list: without options, \<open>talk who\<close> by the moderator of a group that
  is not public leaves \<open>who\<close> as the only one with permission to talk: both lists, however long
  they were, are emptied first.
\<close>

lemma s_talk_replaces:
  assumes "srv_ok st" "net_ok st" "in_group n st" "gi = find_group (u_group (usr st n)) st"
    and "g_mod (grp st gi) = n" "g_control (grp st gi) \<noteq> PUBLIC"
    and "flag_loop ''qadr'' (field st 1) no_flags = Some (who, no_flags)" "who \<noteq> []"
    and "[] \<notin> set (names (n_talk (grp st gi)))" "[] \<notin> set (names (nr_talk (grp st gi)))"
  shows "names (n_talk (grp (snd (s_talk n 2 st)) gi)) = [who] \<and> names (nr_talk (grp (snd (s_talk n 2 st)) gi)) = []"
proof -
  note g = in_groupD [OF assms(1,3), folded assms(4)]
  let ?s1 = "talk_clear (nat (nl_count (n_talk (grp st gi)))) False '' removed from talk list'' n gi False st"
  let ?s2 = "talk_clear (nat (nl_count (nr_talk (grp ?s1 gi)))) True '' removed from registered talk list'' n gi False ?s1"
  have e: "snd (s_talk n 2 st) = talk_add n gi who 0 False ?s2"
    using assms(4-8) g by (simp add: s_talk_def Let_def no_flags_def flag_val_def)
  have "in_tab (g_mod (grp st gi)) (u_tab st)" using assms(5) g(1) by simp
  note c = talk_clear_both [OF g(2) this calm_refl [OF assms(1,2)] refl refl,
      of "'' removed from talk list''" n False "'' removed from registered talk list''"]
  have t: "in_tab gi (g_tab ?s2)" using calm_tab [OF c(1)] g(2) by simp
  have l: "names (n_talk (grp ?s2 gi)) = []" "names (nr_talk (grp ?s2 gi)) = []"
    using c(2) [OF assms(9,10)] by simp_all
  have "nl_ok (n_talk (grp ?s2 gi))"
    using srv_ok_grp [OF calmD(1) [OF c(1)] t] by (simp add: group_ok_def group_lists_def)
  then have "0 < limit (n_talk (grp ?s2 gi))" by (simp add: nl_ok_def)
  with l show ?thesis
    unfolding e talk_add_lists [OF calmD(2) [OF c(1)] t] by (simp add: nl_put_def)
qed

text \<open>Witness: in \<open>cafe\<close>, where \<open>bob\<close> could talk, now only \<open>eve\<close> can.\<close>

lemma s_talk_replaces_example:
  "names (n_talk (grp (snd (s_talk 0 2 (upd_g 1 (\<lambda>g. g\<lparr>n_talk := nl_put ''bob'' (n_talk g)\<rparr>)
     (demo\<lparr>pfields := [''talk'', ''eve'']\<rparr>)))) 1)) = [''eve'']"
proof -
  let ?a = "demo\<lparr>pfields := [''talk'', ''eve'']\<rparr>"
  let ?st = "upd_g 1 (\<lambda>g. g\<lparr>n_talk := nl_put ''bob'' (n_talk g)\<rparr>) ?a"
  have t: "in_tab 1 (g_tab ?a)" by (simp add: in_tab_def)
  have ga: "grp ?a i = grp demo i" and ua: "usr ?a i = usr demo i" for i by (auto intro: tab_cong)
  have "calm demo ?st"
    by (rule calm_upd_g) (auto simp: calm_def safe_others safe_refl demo_ok ga ua in_tab_def group_ok_def group_lists_def nl_ok_put)
  note ok = calmD [OF this]
  have gr: "grp ?st 1 = (grp demo 1)\<lparr>n_talk := nl_put ''bob'' (nl_init MAX_INVITES)\<rparr>"
    using t by (simp add: ga blank_group_def)
  have u: "usr ?st 0 = usr demo 0" by (simp add: ua)
  have f: "find_group ''cafe'' ?st = 1"
    using t by (intro find_group_unique srv_okD(4) [OF ok(1)]) (simp_all add: ga)
  have n: "names (nl_put ''bob'' (nl_init MAX_INVITES)) = [''bob'']" by (simp add: nl_put_def nl_init_def)
  have fl: "flag_loop ''qadr'' (field ?st 1) no_flags = Some (''eve'', no_flags)"
    by (subst flag_loop.simps) (simp add: field_def)
  have "in_group 0 ?st" unfolding in_group_def u by (simp add: in_tab_def demo_user_def)
  from s_talk_replaces [OF ok this, of 1 "''eve''"] fl show ?thesis
    unfolding gr u by (simp add: f n [unfolded nl_init_def] demo_user_def blank_group_def nl_init_def)
qed

text \<open>
  The idle-boot message overflows: a message of exactly \<open>IDLEBOOT_MSG_LEN\<close> bytes passes the
  check of its length, although the buffer of that size has no room for the NUL: the copy
  writes one byte past it. Every shorter message that \<open>filterfmt\<close> accepts is stored safely.
\<close>

lemma idlebootmsg_overflow:
  assumes "in_tab gi (g_tab st)" "net_ok st" "p1 \<noteq> []" "length p1 \<le> IDLEBOOT_MSG_LEN" "fst (filterfmt p1 1) = None"
  shows "g_idleboot_msg (grp (set_idleboot_msg n gi p1 st) gi) = p1
    \<and> (fault (set_idleboot_msg n gi p1 st) \<longleftrightarrow> fault st \<or> length p1 = IDLEBOOT_MSG_LEN)"
proof -
  have "net_ok (upd_g gi f (flag_fault b st))" for f b using assms(2) by simp
  then show ?thesis using assms by (auto simp: set_idleboot_msg_def Let_def sender_rules)
qed

lemma idlebootmsg_overflow_example:
  "fault (set_idleboot_msg 0 1 (''%s'' @ replicate 52 CHR ''x'') demo)"
proof -
  have "fst (filterfmt (''%s'' @ replicate 52 CHR ''x'') 1) = None" by code_simp
  with idlebootmsg_overflow [of 1 demo "''%s'' @ replicate 52 CHR ''x''" 0] show ?thesis
    by (simp add: in_tab_def)
qed

end
