(* ===== verification/Access.thy ===== *)
theory Access
  imports Commands
begin

text \<open>
  \<open>server/access.c\<close>: registered nicknames, their passwords, the information stored about them
  and the messages left for them, over the database of theory \<open>IcbDb\<close>; and \<open>server/s_auto.c\<close>,
  the commands to the server itself that call these functions.
\<close>

section \<open>The database as part of the state\<close>

definition db_open :: "srv \<Rightarrow> srv" where
  "db_open st = st\<lparr>userdb := snd (icbdb_open (userdb st))\<rparr>"

definition db_close :: "srv \<Rightarrow> srv" where
  "db_close st = st\<lparr>userdb := icbdb_close (userdb st)\<rparr>"

definition db_get :: "cstring \<Rightarrow> cstring \<Rightarrow> srv \<Rightarrow> cstring option \<times> srv" where
  "db_get nick attr st =
     (let (r, db) = icbdb_get (Some nick) attr ICBDB_STRING (userdb st)
      in (case r of Some (VStr s) \<Rightarrow> Some s | _ \<Rightarrow> None, st\<lparr>userdb := db\<rparr>))"

definition db_get_int :: "cstring \<Rightarrow> cstring \<Rightarrow> srv \<Rightarrow> int option \<times> srv" where
  "db_get_int nick attr st =
     (let (r, db) = icbdb_get (Some nick) attr ICBDB_INT (userdb st)
      in (case r of Some (VInt i) \<Rightarrow> Some i | _ \<Rightarrow> None, st\<lparr>userdb := db\<rparr>))"

definition db_set :: "cstring \<Rightarrow> cstring \<Rightarrow> icbdb_val \<Rightarrow> srv \<Rightarrow> srv" where
  "db_set nick attr v st = st\<lparr>userdb := snd (icbdb_set (Some nick) attr v (userdb st))\<rparr>"

definition db_delete :: "cstring \<Rightarrow> cstring \<Rightarrow> srv \<Rightarrow> srv" where
  "db_delete nick attr st = st\<lparr>userdb := snd (icbdb_delete (Some nick) attr (userdb st))\<rparr>"

section \<open>Registration\<close>

abbreviation (input) MAX_WRITES :: int where "MAX_WRITES \<equiv> 20"

definition setsecure :: "int \<Rightarrow> int \<Rightarrow> srv \<Rightarrow> int \<times> srv" where
  "setsecure forWhom secure st =
     (let nick = u_nickname (usr st forWhom)
      in if u_realname (usr st forWhom) = [] then
           (-1, senderror forWhom ''You must be registered to change your security.'' st)
         else if secure = 0 then
           (0, sends_cmdout forWhom ''Security set to automatic.'' (db_delete nick ''secure'' st))
         else if secure = 1 then
           (0, sends_cmdout forWhom ''Security set to password required.''
                 (db_set nick ''secure'' (VStr ''SECURED'') st))
         else (-2, st))"

definition valuser :: "cstring \<Rightarrow> cstring \<Rightarrow> srv \<Rightarrow> int \<times> srv" where
  "valuser user password st =
     (if password = [] then (-1, st)
      else let password = take MAX_PASSWDLEN password;
               (r, st) = db_get user ''password'' st
        in case r of
             None \<Rightarrow> (-1, st)
           | Some stored \<Rightarrow> (if stored \<noteq> password then -1 else 0, st))"

definition record_keys :: "cstring list" where
  "record_keys = [''secure'', ''realname'', ''email'', ''signon'', ''signoff'', ''nick'', ''password'',
     ''phone'', ''text'', ''home'', ''addr'', ''nummsg'', ''www'']"

definition message_keys :: "int \<Rightarrow> cstring list" where
  "message_keys i = [''header'' @ dec_int i, ''message'' @ dec_int i, ''from'' @ dec_int i]"

definition nickdelete :: "int \<Rightarrow> cstring \<Rightarrow> srv \<Rightarrow> int \<times> srv" where
  "nickdelete forWhom password st =
     (if password = [] then (-1, senderror forWhom ''Password cannot be null'' st)
      else let password = take MAX_PASSWDLEN password
        in if u_realname (usr st forWhom) = [] then
             (-1, senderror forWhom ''You must be registered to delete your entry.'' st)
           else let nick = u_nickname (usr st forWhom);
                    st = db_open st;
                    (r, st) = db_get nick ''password'' st
             in case r of
                  None \<Rightarrow> (-1, db_close (senderror forWhom (''You don'' @ [CHR 0x27] @ ''t have a password.'') st))
                | Some stored \<Rightarrow>
                    if stored \<noteq> password then (-1, db_close (senderror forWhom ''Password incorrect.'' st))
                    else (let st = fold (db_delete nick) record_keys st;
                              st = fold (\<lambda>i. fold (db_delete nick) (message_keys i)) [1..MAX_WRITES] st;
                              st = sends_cmdout forWhom ''Record Deleted'' st
                          in (0, db_close st)))"

definition nickchinfo :: "int \<Rightarrow> cstring \<Rightarrow> cstring \<Rightarrow> nat \<Rightarrow> cstring \<Rightarrow> srv \<Rightarrow> int \<times> srv" where
  "nickchinfo forWhom tag data mx message st =
     (if u_realname (usr st forWhom) = [] then
        (-1, senderror forWhom ''Setting your name requites that you be registered.'' st)
      else let (data, st) =
                 (if length data > mx then
                    (take mx data,
                     senderror forWhom
                       (snprintf 255 (take 80 message @ '' truncated to '' @ dec_nat mx @ '' characters'')) st)
                  else (data, st));
               st = db_set (u_nickname (usr st forWhom)) tag (VStr data) st
        in (0, sends_cmdout forWhom
                 (snprintf 255 (take 80 message @ '' set to '' @ [CHR 0x27] @ take 160 data @ [CHR 0x27])) st))"

definition home_of :: "srv \<Rightarrow> int \<Rightarrow> cstring" where
  "home_of st n = snprintf 255 (u_loginid (usr st n) @ ''@'' @ u_nodeid (usr st n))"

definition nickchpass :: "int \<Rightarrow> cstring \<Rightarrow> cstring \<Rightarrow> srv \<Rightarrow> int \<times> srv" where
  "nickchpass forWhom oldpw newpw st =
     (let nick = u_nickname (usr st forWhom);
          oldpw = take MAX_PASSWDLEN oldpw;
          newpw = take MAX_PASSWDLEN newpw;
          st = db_open st;
          (r, st) = db_get nick ''password'' st;
          st = (if r \<noteq> Some oldpw then senderror forWhom ''Authorization failure'' st
                else if newpw = [] then senderror forWhom ''Missing paramater'' st
                else let st = db_set nick ''password'' (VStr newpw) st;
                         st = sendstatus forWhom ''Pass'' ''Password changed'' st
                  in db_set nick ''home'' (VStr (home_of st forWhom)) st)
      in (0, db_close st))"

section \<open>Messages\<close>

definition nickwritemsg :: "int \<Rightarrow> cstring \<Rightarrow> cstring \<Rightarrow> srv \<Rightarrow> int \<times> srv" where
  "nickwritemsg forWhom user message st =
     (if user = [] \<or> message = [] then
        (-1, sends_cmdout forWhom ''Usage: write nickname message text'' st)
      else if u_realname (usr st forWhom) = [] then
        (-1, senderror forWhom ''You must be registered to write a message.'' st)
      else let st = db_open st;
               (r, st) = db_get user ''nick'' st
        in if r = None then (-1, db_close (senderror forWhom (user @ '' is not registered'') st))
           else let (c, st) = db_get_int user ''nummsg'' st;
                    count = to_int32 ((case c of None \<Rightarrow> 0 | Some k \<Rightarrow> k) + 1)
             in if count > MAX_WRITES then (-1, db_close (senderror forWhom ''User mailbox full'' st))
                else let line = snprintf 255 (''Message left at '' @ timefmt st (now st) @ '':'');
                         msg = the (filtertext message 4095);
                         st = db_set user (''header'' @ dec_int count) (VStr line) st;
                         st = db_set user (''from'' @ dec_int count) (VStr (u_nickname (usr st forWhom))) st;
                         st = db_set user (''message'' @ dec_int count) (VStr msg) st;
                         st = db_set user ''nummsg'' (VInt count) st;
                         st = sendstatus forWhom ''Message'' ''Text saved to file'' st;
                         i = find_user user st;
                         st = (if i > 0 then
                                 sendstatus i ''Message''
                                   (''You have '' @ dec_int count @ '' message'' @ (if count > 1 then ''s'' else []))
                                   (sendstatus forWhom ''Warning'' (u_nickname (usr st i) @ '' is logged in now.'') st)
                               else st)
                  in (0, db_close st))"

definition nickckmsg :: "int \<Rightarrow> srv \<Rightarrow> int \<times> srv" where
  "nickckmsg forWhom st =
     (if u_realname (usr st forWhom) = [] then (-1, st)
      else let nick = u_nickname (usr st forWhom);
               (c, st) = db_get_int nick ''nummsg'' st
        in case c of
             Some k \<Rightarrow> (k, st)
           | None \<Rightarrow> (0, db_set nick ''nummsg'' (VInt 0) st))"

definition read_one :: "cmd_fun \<Rightarrow> int \<Rightarrow> cstring \<Rightarrow> int \<Rightarrow> srv \<Rightarrow> srv" where
  "read_one cmdmsg forWhom nick i st =
     (let (h, st) = db_get nick (''header'' @ dec_int i) st;
          st = (case h of None \<Rightarrow> st | Some s \<Rightarrow> sends_cmdout forWhom s st);
          st = db_delete nick (''header'' @ dec_int i) st;
          (f, st) = db_get nick (''from'' @ dec_int i) st;
          from = (case f of None \<Rightarrow> ''Server'' | Some s \<Rightarrow> take MAX_NICKLEN s);
          st = db_delete nick (''from'' @ dec_int i) st;
          (m, st) = db_get nick (''message'' @ dec_int i) st;
          st = (case m of
                  None \<Rightarrow> st
                | Some s \<Rightarrow> send_person_stored (autoBeep cmdmsg) cmdmsg forWhom from s st)
      in db_delete nick (''message'' @ dec_int i) st)"

definition nickreadmsg :: "cmd_fun \<Rightarrow> int \<Rightarrow> srv \<Rightarrow> int \<times> srv" where
  "nickreadmsg cmdmsg forWhom st =
     (if u_realname (usr st forWhom) = [] then
        (-1, senderror forWhom ''You must be registered to read any messages.'' st)
      else let nick = u_nickname (usr st forWhom);
               st = db_open st;
               (c, st) = db_get_int nick ''nummsg'' st;
               st = (case c of
                       None \<Rightarrow> senderror forWhom ''No messages'' st
                     | Some k \<Rightarrow>
                         if k = 0 then senderror forWhom ''No messages'' st
                         else fold (read_one cmdmsg forWhom nick) [1..k] st);
               st = db_set nick ''nummsg'' (VInt 0) st
        in (0, db_close st))"

section \<open>Authentication\<close>

text \<open>
  What happens once a nickname is authenticated, in \<open>nickwrite\<close>, \<open>s_name\<close> and \<open>loginmsg\<close>: the
  groups that wait for their moderator get it back, and the number of messages is reported.
\<close>

definition regain_mods :: "int \<Rightarrow> srv \<Rightarrow> srv" where
  "regain_mods n st =
     fold (\<lambda>i st.
       if g_modtimeout (grp st i) > 0 \<and> g_missingmod (grp st i) = u_nickname (usr st n) then
         (let st = upd_g i (\<lambda>g. g\<lparr>g_modtimeout := 0, g_mod := n, g_missingmod := []\<rparr>) st;
              msg = u_nickname (usr st n) @ '' is the active moderator again.'';
              st = fold (\<lambda>j st. if strcaseeq (u_group (usr st j)) (g_name (grp st i)) \<and> j \<noteq> n
                                then sendstatus j ''Mod'' msg st else st) [1..MAX_REAL_USERS st - 1] st
          in sendstatus n ''Mod'' (''You are the moderator of group '' @ g_name (grp st i)) st)
       else st) [1..MAX_GROUPS st - 1] st"

definition report_msgs :: "int \<Rightarrow> srv \<Rightarrow> srv" where
  "report_msgs n st =
     (let (i, st) = nickckmsg n st
      in if i > 0 then
           sendstatus n ''Message''
             (if i = 1 then ''You have 1 message'' else ''You have '' @ dec_int i @ '' messages'') st
         else st)"

definition set_registered :: "int \<Rightarrow> srv \<Rightarrow> srv" where
  "set_registered n st = upd_u n (\<lambda>u. u\<lparr>u_realname := ''registered''\<rparr>) st"

definition nickwrite :: "int \<Rightarrow> cstring \<Rightarrow> bool \<Rightarrow> srv \<Rightarrow> int \<times> srv" where
  "nickwrite forWhom password verifyOnly st =
     (if password = [] then (-1, senderror forWhom ''Password cannot be null'' st)
      else let password = take MAX_PASSWDLEN password;
               st = db_open (need_u forWhom st);
               nick = u_nickname (usr st forWhom);
               (r, st) = db_get nick ''password'' st
        in case r of
             None \<Rightarrow>
               (if verifyOnly then
                  (-1, db_close (senderror forWhom (''[ERROR] Nick '' @ nick @ '' not found'') st))
                else
                  (let st = db_set nick ''password'' (VStr password) st;
                       st = db_set nick ''nick'' (VStr nick) st;
                       st = db_set nick ''home'' (VStr (home_of st forWhom)) st;
                       st = sendstatus forWhom ''Register'' ''Nick registered'' st;
                       st = snd (nickwritetime forWhom 0 (set_registered forWhom st));
                       st = upd_u forWhom (\<lambda>u. u\<lparr>u_password := password\<rparr>) st
                   in (0, db_close st)))
           | Some stored \<Rightarrow>
               (if stored \<noteq> password then
                  (-1, db_close (upd_u forWhom (\<lambda>u. u\<lparr>u_realname := []\<rparr>)
                         (senderror forWhom ''Authorization failure'' st)))
                else
                  (let st = sendstatus forWhom ''Register'' ''Nick registered'' st;
                       st = snd (nickwritetime forWhom 0 (set_registered forWhom st));
                       st = upd_u forWhom (\<lambda>u. u\<lparr>u_password := password\<rparr>) st;
                       st = report_msgs forWhom (regain_mods forWhom st);
                       st = fold (talk_report forWhom) [1..MAX_GROUPS st - 1] st
                   in (0, db_close st))))"

section \<open>Looking up a nickname\<close>

text \<open>
  The lines of a record are built in a buffer of 255 bytes; a text that does not fit is a fault.
  The nickname is copied into \<open>nickstr\<close>, which is not terminated when it is 12 bytes long and
  not set at all when the record has no \<open>nick\<close>.
\<close>

definition put_line :: "int \<Rightarrow> cstring \<Rightarrow> srv \<Rightarrow> srv" where
  "put_line n line st = sends_cmdout n line (flag_fault (length line \<ge> 255) st)"

definition pad :: "nat \<Rightarrow> cstring \<Rightarrow> cstring" where
  "pad k s = s @ replicate (k - length s) CHR '' ''"

definition attr_or :: "cstring \<Rightarrow> cstring \<Rightarrow> cstring \<Rightarrow> srv \<Rightarrow> cstring \<times> srv" where
  "attr_or deflt nick attr st =
     (let (r, st) = db_get nick attr st in (case r of None \<Rightarrow> deflt | Some v \<Rightarrow> take 254 v, st))"

definition two_cols :: "int \<Rightarrow> cstring \<Rightarrow> cstring \<Rightarrow> cstring \<Rightarrow> cstring \<Rightarrow> cstring \<Rightarrow> cstring \<Rightarrow> srv \<Rightarrow> srv" where
  "two_cols n nick t1 a1 t2 a2 deflt st =
     (let (v1, st) = attr_or deflt nick a1 st;
          st = flag_fault (length (t1 @ v1) \<ge> 255) st;
          (v2, st) = attr_or deflt nick a2 st
      in put_line n (pad 36 (t1 @ v1) @ t2 @ v2) st)"

definition one_col :: "int \<Rightarrow> cstring \<Rightarrow> cstring \<Rightarrow> cstring \<Rightarrow> srv \<Rightarrow> srv" where
  "one_col n nick t a st =
     (let (r, st) = db_get nick a st
      in case r of None \<Rightarrow> st | Some v \<Rightarrow> put_line n (t @ take 254 v) st)"

text \<open>The address, one line per part between bars.\<close>

fun split_bars :: "cstring \<Rightarrow> cstring \<Rightarrow> cstring list" where
  "split_bars temp [] = [temp]"
| "split_bars temp (c # s) =
     (if c = CHR ''|'' then temp # split_bars ''  '' s else split_bars (temp @ [c]) s)"

text \<open>
  The text, broken into lines: the line begins at \<open>s\<close>, \<open>k\<close> characters of it are seen, and the
  last word break is at \<open>s + w\<close>. The result has the lines, and where the last one begins.
\<close>

function wrap :: "cstring \<Rightarrow> nat \<Rightarrow> nat \<Rightarrow> nat \<Rightarrow> cstring list \<times> nat" where
  "wrap line s k w =
     (if s + k \<ge> length line then ([], s)
      else let c = line ! (s + k);
               w = (if c = CHR '' '' then k else w);
               sub = (\<lambda>n. take n (drop s line))
        in if c = CHR 0x0A then apfst (Cons (sub k)) (wrap line (s + k + 1) 0 0)
           else if k = 62 then
             (if k - w > 40 then apfst (Cons (sub (k - 1) @ ''-'')) (wrap line (s + k - 1) 0 0)
              else apfst (Cons (sub w)) (wrap line (s + w + 1) 0 0))
           else wrap line s (k + 1) w)"
  by pat_completeness auto
termination
  by (relation "measures [\<lambda>(line, s, k, w). length line - s, \<lambda>(line, s, k, w). length line - (s + k)]") auto

declare wrap.simps [simp del]

definition show_text :: "int \<Rightarrow> cstring option \<Rightarrow> cstring \<Rightarrow> srv \<Rightarrow> srv" where
  "show_text n temp line st =
     (let (ls, s) = wrap line 0 0 0;
          st = fold (\<lambda>l. sends_cmdout n (''Text: '' @ l)) ls st;
          rest = drop s line;
          st = flag_fault (rest = [] \<and> ls = [] \<and> temp = None) st;
          prefix = (if rest \<noteq> [] then ''Text: ''
                    else if ls \<noteq> [] then ''Text: '' @ last ls
                    else case temp of None \<Rightarrow> [] | Some t \<Rightarrow> t)
      in put_line n (prefix @ rest) st)"

definition show_record :: "int \<Rightarrow> cstring \<Rightarrow> cstring option \<Rightarrow> cstring \<Rightarrow> srv \<Rightarrow> srv" where
  "show_record n nick nickstr home st =
     (let st = flag_fault (nickstr = None) st;
          nickstr = (case nickstr of None \<Rightarrow> [] | Some s \<Rightarrow> s);
          st = st\<lparr>overread := overread st \<or> length nickstr \<ge> MAX_NICKLEN\<rparr>;
          st = put_line n (pad 36 (snprintf 255 (''Nickname:     '' @ take MAX_NICKLEN nickstr))
                 @ ''Address:   '' @ take 254 home) st;
          st = two_cols n nick ''Phone Number: '' ''phone'' ''Real Name: '' ''realname'' ''(None)'' st;
          st = two_cols n nick ''Last signon:  '' ''signon'' ''Last signoff:  '' ''signoff'' ''(unknown)'' st;
          st = one_col n nick ''E-mail addr:  '' ''email'' st;
          st = one_col n nick ''WWW:  '' ''www'' st;
          (a, st) = db_get nick ''addr'' st;
          parts = (case a of None \<Rightarrow> [] | Some v \<Rightarrow> split_bars ''  '' (take 254 v));
          st = (if a = None then st
                else fold (put_line n) parts (sends_cmdout n ''Street Address:'' st));
          (t, st) = db_get nick ''text'' st
      in case t of
           None \<Rightarrow> st
         | Some v \<Rightarrow> show_text n (if a = None then None else Some (last parts)) (take 254 v) st)"

definition nicklookup :: "int \<Rightarrow> cstring \<Rightarrow> srv \<Rightarrow> int \<times> srv" where
  "nicklookup forWhom theNick st =
     (if theNick = [] then
        (-1, if 0 < forWhom \<and> forWhom < MAX_REAL_USERS st
             then sends_cmdout forWhom ''Usage: whois nickname'' st else st)
      else if length theNick > MAX_NICKLEN then (-1, senderror forWhom ''nickname too long'' st)
      else let st = db_open st;
               (nickstr, st) = db_get theNick ''nick'' st;
               (home, st) = db_get theNick ''home'' st
        in case home of
             None \<Rightarrow>
               (-1, db_close (if forWhom \<ge> 0
                              then senderror forWhom (theNick @ '' is not in the database.'') st else st))
           | Some value \<Rightarrow>
               if forWhom \<ge> 0 then (0, db_close (show_record forWhom theNick nickstr value st))
               else if \<not> strcaseeq value (u_loginid (usr st (- forWhom)) @ ''@'' @ u_nodeid (usr st (- forWhom)))
               then (-2, db_close st)
               else let (secure, st) = db_get theNick ''secure'' st
                 in (if secure \<noteq> None then -2 else 0, db_close st))"

section \<open>Commands to the server\<close>

text \<open>\<open>s_auto\<close>, which is only called for the fields of a command packet (\<open>f\<close> is 0).\<close>

definition auto_help :: "cstring list" where
  "auto_help =
    [''Command <argument(s)>           What it does'',
     ''---------------------           ------------'',
     ''whois <nick>                    returns info if available'',
     ''p <passwd>                      registers current user info'',
     ''delete <password>               deletes your info from the server db'',
     ''cp <oldpassword> <newpasswd>    changes password'',
     ''rname                           sets your real name'',
     ''phone                           sets your phone number'',
     ''addr                            sets your street address'',
     ''email                           sets your e-mail address'',
     ''text                            sets your text message'',
     ''www                             sets your WWW home page'',
     ''read                            reads your server messages'',
     ''write <nick>                    send someone a server message'',
     ''secure                          always requires a password to register'',
     ''nosecure                        auto-validates based on username/hostname'',
     ''info                            gives more info on Server'',
     ''help                            lists this table'',
     ''?                               shows usage'',
     ''See also /s_help'']"

definition auto_usage :: cstring where
  "auto_usage = ''usage: /m server {whois | p | cp | delete | rname | email | phone | addr | text | read | write | www | info | secure | nosecure | help | ?}''"

definition auto_info :: "int \<Rightarrow> cstring \<Rightarrow> cstring \<Rightarrow> nat \<Rightarrow> cstring \<Rightarrow> srv \<Rightarrow> int \<times> srv" where
  "auto_info n usage tag mx message st =
     (0, if field st 1 = [] then sends_cmdout n usage st
         else snd (nickchinfo n tag (field st 1) mx message st))"

definition auto_cmd :: "cmd_fun \<Rightarrow> int \<Rightarrow> int \<Rightarrow> srv \<Rightarrow> int \<times> srv" where
  "auto_cmd cmdmsg which n st =
     (let arg = getword (field st 1); tail = get_tail (field st 1)
      in if which = 0 then (0, snd (nickreadmsg cmdmsg n st))
         else if which = 1 then nicklookup n arg st
         else if which = 2 then nickwrite n arg False st
         else if which = 3 then auto_info n ''Usage: rname Real Name'' ''realname'' 25 ''Real Name'' st
         else if which = 4 then (0, snd (nickwritemsg n arg tail st))
         else if which = 5 then auto_info n ''Usage: text Message Text'' ''text'' 200 ''Message text'' st
         else if which = 6 then
           auto_info n ''Usage: addr Address Line 1 | Address Line 2 | Address Line 3'' ''addr'' 79 ''Address'' st
         else if which = 7 then auto_info n ''Usage: phone 1-800-555-1212'' ''phone'' 14 ''Phone Number'' st
         else if which = 8 then
           (0, if arg = [] then sends_cmdout n ''Usage: delete password'' st else snd (nickdelete n arg st))
         else if which = 9 then nicklookup n ''server'' st
         else if which = 10 then (0, fold (sends_cmdout n) auto_help st)
         else if which = 12 then (0, snd (nickchpass n arg (getword tail) st))
         else if which = 13 then auto_info n ''Usage: email e-mail address'' ''email'' 60 ''E-Mail'' st
         else if which = 14 then (0, snd (setsecure n 1 st))
         else if which = 15 then (0, snd (setsecure n 0 st))
         else if which = 16 then auto_info n ''Usage: www URL'' ''www'' 80 ''WWW'' st
         else (0, sendperson (autoBeep cmdmsg) cmdmsg (NICKSERV st) n auto_usage st))"

definition s_auto :: "cmd_fun \<Rightarrow> int \<Rightarrow> srv \<Rightarrow> int \<times> srv" where
  "s_auto cmdmsg n st =
     (let (r, st) = auto_cmd cmdmsg (lookup (getword (field st 0)) auto_table) n st
      in (r, upd_u (NICKSERV st) (\<lambda>u. u\<lparr>u_t_recv := now st\<rparr>) st))"

end
