(* ===== verification/UserCmds.thy ===== *)
theory UserCmds
  imports Access
begin

text \<open>
  The commands of a user about itself and to other users: \<open>server/s_user.c\<close> (without the
  command \<open>brick\<close>, which is not compiled in by default), \<open>server/s_person.c\<close> and
  \<open>server/s_beep.c\<close>. A private message to the server is a command, so \<open>s_personal\<close> and
  \<open>s_beep\<close> have the function that runs commands as an argument.
\<close>

section \<open>Text files\<close>

text \<open>The lines of a file as they are read into a buffer with room for \<open>cap\<close> characters.\<close>

fun text_lines :: "nat \<Rightarrow> cstring \<Rightarrow> string \<Rightarrow> cstring list" where
  "text_lines cap buf [] = []"
| "text_lines cap buf (c # cs) =
     (if c = CHR 0x0A then buf # text_lines cap [] cs
      else text_lines cap (if length buf < cap \<and> c \<noteq> CHR 0x00 then buf @ [c] else buf) cs)"

definition s_help :: "int \<Rightarrow> int \<Rightarrow> srv \<Rightarrow> int \<times> srv" where
  "s_help n argc st =
     (0, case read_file (world st) ''./icbd_help'' of
           None \<Rightarrow> senderror n ''No help file found.'' st
         | Some s \<Rightarrow> fold (sends_cmdout n) (text_lines 255 [] s) st)"

section \<open>Hushing and notification\<close>

text \<open>Options in words that begin with a dash; \<open>None\<close> when one is unknown or given twice.\<close>

function opts_loop :: "(char \<Rightarrow> 'f \<Rightarrow> 'f option) \<Rightarrow> cstring \<Rightarrow> 'f \<Rightarrow> (cstring \<times> 'f) option" where
  "opts_loop opt who f =
     (if take 1 who = ''-'' then
        Option.bind (fold (\<lambda>c r. Option.bind r (opt c)) (drop 1 (getword who)) (Some f))
          (opts_loop opt (get_tail who))
      else Some (who, f))"
  by pat_completeness auto
termination by (relation "measure (\<lambda>(opt, who, f). length who)") (auto simp: get_tail_shorter)

declare opts_loop.simps [simp del]

record hush_opts =
  h_quiet :: bool
  h_mode :: "bool option"
  h_personal :: bool
  h_public :: bool

definition no_hush_opts :: hush_opts where
  "no_hush_opts = \<lparr>h_quiet = False, h_mode = None, h_personal = False, h_public = False\<rparr>"

definition hush_opt :: "char \<Rightarrow> hush_opts \<Rightarrow> hush_opts option" where
  "hush_opt c f =
     (if c = CHR ''q'' then (if h_quiet f then None else Some (f\<lparr>h_quiet := True\<rparr>))
      else if c = CHR ''n'' then (if h_mode f \<noteq> None then None else Some (f\<lparr>h_mode := Some False\<rparr>))
      else if c = CHR ''s'' then (if h_mode f \<noteq> None then None else Some (f\<lparr>h_mode := Some True\<rparr>))
      else if c = CHR ''p'' then (if h_personal f then None else Some (f\<lparr>h_personal := True\<rparr>))
      else if c = CHR ''o'' then (if h_public f then None else Some (f\<lparr>h_public := True\<rparr>))
      else None)"

definition hush_usage :: cstring where
  "hush_usage = ''Usage: hush {-q} {-p} {-o} {-n nickname | -s address}''"

text \<open>
  The six lists of a user: how to read and write them, the word for a listing and the words of
  the messages.
\<close>

datatype ulist = PriN | PubN | PriS | PubS | NotN | NotS

fun get_ul :: "ulist \<Rightarrow> user_item \<Rightarrow> nlist" where
  "get_ul PriN u = pri_n_hushed u" | "get_ul PubN u = pub_n_hushed u"
| "get_ul PriS u = pri_s_hushed u" | "get_ul PubS u = pub_s_hushed u"
| "get_ul NotN u = n_notifies u" | "get_ul NotS u = s_notifies u"

fun set_ul :: "ulist \<Rightarrow> nlist \<Rightarrow> user_item \<Rightarrow> user_item" where
  "set_ul PriN l u = u\<lparr>pri_n_hushed := l\<rparr>" | "set_ul PubN l u = u\<lparr>pub_n_hushed := l\<rparr>"
| "set_ul PriS l u = u\<lparr>pri_s_hushed := l\<rparr>" | "set_ul PubS l u = u\<lparr>pub_s_hushed := l\<rparr>"
| "set_ul NotN l u = u\<lparr>n_notifies := l\<rparr>" | "set_ul NotS l u = u\<lparr>s_notifies := l\<rparr>"

fun ul_label :: "ulist \<Rightarrow> cstring" where
  "ul_label PriN = ''Personal-Nick-Hushed''" | "ul_label PubN = ''Open-Nick-Hushed''"
| "ul_label PriS = ''Personal-Site-Hushed''" | "ul_label PubS = ''Open-Site-Hushed''"
| "ul_label NotN = ''Notify-Nickname''" | "ul_label NotS = ''Notify-Site''"

fun ul_name :: "ulist \<Rightarrow> cstring" where
  "ul_name PriN = ''nickname personal hush''" | "ul_name PubN = ''nickname open hush''"
| "ul_name PriS = ''site personal hush''" | "ul_name PubS = ''site open hush''"
| "ul_name NotN = ''nickname notify''" | "ul_name NotS = ''site notify''"

fun ul_full :: "ulist \<Rightarrow> cstring" where
  "ul_full PriN = ''Max number of nickname personal hushes reached.''"
| "ul_full PubN = ''Max number of nickname open hushes reached.''"
| "ul_full PriS = ''Max number of site personal hushes reached.''"
| "ul_full PubS = ''Max number of site open hushes reached.''"
| "ul_full NotN = ''Max number of nickname notifies reached.''"
| "ul_full NotS = ''Max number of site notifies reached.''"

abbreviation (input) MAX_NOTIFIES :: int where "MAX_NOTIFIES \<equiv> 40"

fun ul_max :: "ulist \<Rightarrow> int" where
  "ul_max NotN = MAX_NOTIFIES" | "ul_max NotS = MAX_NOTIFIES" | "ul_max _ = MAX_HUSHED"

text \<open>Printing a list: as many calls of \<open>nlget\<close> as it has names.\<close>

fun show_ul :: "int \<Rightarrow> ulist \<Rightarrow> nat \<Rightarrow> srv \<Rightarrow> srv" where
  "show_ul n k 0 st = st"
| "show_ul n k (Suc i) st =
     (let (s, l) = nl_get (get_ul k (usr st n));
          st = upd_u n (set_ul k l) st
      in show_ul n k i (sendstatus n (ul_label k) s st))"

definition show_uls :: "int \<Rightarrow> ulist list \<Rightarrow> cstring \<Rightarrow> srv \<Rightarrow> srv" where
  "show_uls n ks title st =
     (if list_all (\<lambda>k. nl_count (get_ul k (usr st n)) = 0) ks then sendstatus n title ''Empty List'' st
      else fold (\<lambda>k st. show_ul n k (nat (nl_count (get_ul k (usr st n)))) st) ks st)"

text \<open>Adding a name, or removing it if it is there; whether the list was full.\<close>

definition toggle_ul :: "int \<Rightarrow> ulist \<Rightarrow> bool \<Rightarrow> cstring \<Rightarrow> srv \<Rightarrow> bool \<times> srv" where
  "toggle_ul n k quiet who st =
     (let l = get_ul k (usr st n);
          class = (if k = NotN \<or> k = NotS then ''Notify'' else ''Hush'')
      in if \<not> nl_present who l then
           (if nl_count l = ul_max k then (True, senderror n (ul_full k) st)
            else let st = upd_u n (set_ul k (nl_put who l)) st;
                     st = (if quiet then st
                           else sendstatus n class (who @ '' added to '' @ ul_name k @ '' list.'') st)
              in (False, if k = NotN \<and> \<not> quiet \<and> find_user who st > 0
                         then sendstatus n class (u_nickname (usr st (find_user who st)) @ '' is logged in now.'') st
                         else st))
         else let st = upd_u n (set_ul k (snd (nl_delete who l))) st
           in (False, if quiet then st
                      else sendstatus n class (who @ '' removed from '' @ ul_name k @ '' list.'') st))"

definition s_hush :: "int \<Rightarrow> int \<Rightarrow> srv \<Rightarrow> int \<times> srv" where
  "s_hush n argc st =
     (case (if argc \<ge> 2 then opts_loop hush_opt (field st 1) no_hush_opts else Some ([], no_hush_opts)) of
        None \<Rightarrow> (-1, senderror n hush_usage st)
      | Some (who, f) \<Rightarrow>
          if who = [] then (0, show_uls n [PriN, PubN, PriS, PubS] ''Hush-List'' st)
          else
            (let who = ucaseit who;
                 both = (\<not> h_personal f \<and> \<not> h_public f);
                 site = (h_mode f = Some True);
                 (full, st) = (if h_personal f \<or> both
                               then toggle_ul n (if site then PriS else PriN) (h_quiet f) who st
                               else (False, st))
             in if full then (-1, st)
                else let (full, st) = (if h_public f \<or> both
                                       then toggle_ul n (if site then PubS else PubN) (h_quiet f) who st
                                       else (False, st))
                  in (if full then -1 else 0, st)))"

definition notify_usage :: cstring where
  "notify_usage = ''Usage: notify {-q} {-n nickname | -s address}''"

definition s_notify :: "int \<Rightarrow> int \<Rightarrow> srv \<Rightarrow> int \<times> srv" where
  "s_notify n argc st =
     (case (if argc \<ge> 2 then flag_loop ''qns'' (field st 1) no_flags else Some ([], no_flags)) of
        None \<Rightarrow> (-1, senderror n notify_usage st)
      | Some (who, f) \<Rightarrow>
          if who = [] then (0, show_uls n [NotN, NotS] ''Notify-List'' st)
          else let (full, st) = toggle_ul n (if f_mode f = 1 then NotS else NotN) (f_quiet f = 1) (ucaseit who) st
            in (if full then -1 else 0, st))"

section \<open>Nicknames\<close>

definition report_missing :: "int \<Rightarrow> srv \<Rightarrow> srv" where
  "report_missing n st =
     (let gs = filter (\<lambda>i. strcaseeq (u_nickname (usr st n)) (g_missingmod (grp st i))) [0..MAX_GROUPS st - 1];
          st = fold (\<lambda>i st. sendstatus n ''Mod'' (''You are moderator of group '' @ g_name (grp st i)) st) gs st
      in if length gs = 1 then
           sendstatus n ''Mod'' ''You must register using /p <password> to regain mod of the above group.'' st
         else if length gs > 1 then
           sendstatus n ''Mod'' ''You must register using /p <password> to regain mod of the above groups.'' st
         else st)"

definition rename :: "int \<Rightarrow> cstring \<Rightarrow> srv \<Rightarrow> srv" where
  "rename n new_name st =
     (let msg = u_nickname (usr st n) @ '' changed nickname to '' @ new_name;
          st = s_status_group 1 False n ''Name'' msg st;
          st = snd (nickwritetime n 1 st);
          st = upd_u n (\<lambda>u. u\<lparr>u_nickname := new_name\<rparr>) st;
          st = sendstatus n ''Name'' msg st;
          st = upd_u n (\<lambda>u. u\<lparr>u_realname := []\<rparr>) st;
          (ret, st) = nicklookup (- n) (u_nickname (usr st n)) st;
          st = (if ret = 0 then
                  (let st = sendstatus n ''Register'' ''Nick registered'' (set_registered n st);
                       st = snd (nickwritetime n 0 st)
                   in report_msgs n (regain_mods n st))
                else if ret = -2 then
                  report_missing n (sendstatus n ''Register'' ''Send password to authenticate your nickname.'' st)
                else
                  sendstatus n ''No-Pass'' ''To register your nickname type /m server p mypassword''
                    (upd_u n (\<lambda>u. u\<lparr>u_realname := []\<rparr>) st))
      in fold (talk_report n) [0..MAX_GROUPS st - 1] st)"

definition s_name :: "int \<Rightarrow> int \<Rightarrow> srv \<Rightarrow> int \<times> srv" where
  "s_name n argc st =
     (if argc \<noteq> 2 then (0, st)
      else if field st 1 = [] then (-1, senderror n ''The nickname may not be null.'' st)
      else let st = need_u n st;
               new_name = filternickname (take MAX_NICKLEN (field st 1))
        in if find_user new_name st \<ge> 0 \<and> \<not> strcaseeq new_name (u_nickname (usr st n)) then
             (-1, senderror n ''Nickname already in use.'' st)
           else if strcaseeq new_name ''admin'' \<and> u_password (usr st n) \<noteq> admin_pwd st then
             (-1, senderror n ''Nickname already in use.'' st)
           else (0, rename n new_name st))"

section \<open>Switches\<close>

definition s_echoback :: "int \<Rightarrow> int \<Rightarrow> srv \<Rightarrow> int \<times> srv" where
  "s_echoback n argc st =
     (0, if argc \<noteq> 2 then st
         else if strcaseeq (field st 1) ''off'' then
           sendstatus n ''Echo'' ''Echoback off'' (upd_u n (\<lambda>u. u\<lparr>u_echoback := 0\<rparr>) st)
         else if strcaseeq (field st 1) ''on'' then
           sendstatus n ''Echo'' ''Echoback on'' (upd_u n (\<lambda>u. u\<lparr>u_echoback := 1\<rparr>) st)
         else if strcaseeq (field st 1) ''verbose'' then
           sendstatus n ''Echo'' ''Echoback on verbose'' (upd_u n (\<lambda>u. u\<lparr>u_echoback := 2\<rparr>) st)
         else senderror n ''Echoback: needs on/off/verbose'' st)"

definition s_nobeep :: "int \<Rightarrow> int \<Rightarrow> srv \<Rightarrow> int \<times> srv" where
  "s_nobeep n argc st =
     (0, if argc \<noteq> 2 then st
         else if strcaseeq (field st 1) ''off'' then
           sendstatus n ''No-Beep'' ''No-Beep off'' (upd_u n (\<lambda>u. u\<lparr>u_nobeep := 0\<rparr>) st)
         else if strcaseeq (field st 1) ''on'' then
           sendstatus n ''No-Beep'' ''No-Beep on'' (upd_u n (\<lambda>u. u\<lparr>u_nobeep := 1\<rparr>) st)
         else if strcaseeq (field st 1) ''verbose'' then
           sendstatus n ''No-Beep'' ''No-Beep on (verbose)'' (upd_u n (\<lambda>u. u\<lparr>u_nobeep := 2\<rparr>) st)
         else senderror n ''No-Beep: needs off/on/verbose'' st)"

section \<open>Ping\<close>

definition s_ping :: "int \<Rightarrow> int \<Rightarrow> srv \<Rightarrow> int \<times> srv" where
  "s_ping n argc st =
     (if argc \<noteq> 2 then (-1, st)
      else let p = getword (field st 1);
               dest = (if p = [] then n else find_user p st)
        in if p \<noteq> [] \<and> \<not> dest > 0 then
             (-1, senderror n (''Can'' @ [CHR 0x27] @ ''t locate user ('' @ p @ '')'') st)
           else let st = need_u dest st;
                    st = st\<lparr>ping_time := (ping_time st)[nat dest := tod (world st)],
                            pong_req := (pong_req st)[nat dest := n]\<rparr>
             in (0, sendping dest (u_nickname (usr st n)) st))"

section \<open>Away messages\<close>

definition pad2 :: "int \<Rightarrow> cstring" where
  "pad2 k = (if 0 \<le> k \<and> k < 10 then CHR ''0'' # dec_int k else dec_int k)"

text \<open>The time of day in the form \<open>1:05pm\<close>.\<close>

definition clock_text :: "srv \<Rightarrow> cstring" where
  "clock_text st =
     (let (h, m) = local_hm (world st) (now st)
      in dec_int (if h > 12 then h - 12 else if h = 0 then 12 else h) @ '':'' @ pad2 m
           @ (if h > 11 then ''pm'' else ''am''))"

definition s_noaway :: "int \<Rightarrow> int \<Rightarrow> srv \<Rightarrow> int \<times> srv" where
  "s_noaway n argc st =
     (if argc = 0 \<or> argc > 2 then (-1, st)
      else if u_awaymsg (usr st n) = [] then (0, sendstatus n ''Away'' ''Away not set!'' st)
      else (0, sendstatus n ''Away'' ''Away message unset.''
                 (upd_u n (\<lambda>u. u\<lparr>u_awaymsg := [], u_lastaway := 0, u_lastawaytime := 0\<rparr>) st)))"

definition s_away :: "int \<Rightarrow> int \<Rightarrow> srv \<Rightarrow> int \<times> srv" where
  "s_away n argc st =
     (if argc = 0 \<or> argc > 2 then (-1, st)
      else if field st 1 = [] then
        (0, if u_awaymsg (usr st n) \<noteq> [] then
              sendstatus n ''Away'' (''Away message is set to '' @ [CHR 0x22] @ u_awaymsg (usr st n) @ [CHR 0x22]) st
            else sendstatus n ''Away'' ''Away message is not set.'' st)
      else case fst (filterfmt (field st 1) 1) of
             Some retstr \<Rightarrow> (0, senderror n retstr st)
           | None \<Rightarrow>
               (let awaymsg = snprintf MAX_AWAY_LEN (''(%s@'' @ clock_text st @ '') '' @ field st 1);
                    st = upd_u n (\<lambda>u. u\<lparr>u_awaymsg := awaymsg, u_lastaway := 0, u_lastawaytime := 0\<rparr>) st
                in (0, sendstatus n ''Away'' (''Away message set to '' @ [CHR 0x22] @ awaymsg @ [CHR 0x22]) st)))"

abbreviation (input) AWAY_NOSEND_TIME :: int where "AWAY_NOSEND_TIME \<equiv> 10"

text \<open>
  The echo of an away message is built with the message itself as a part of a format; a format
  that \<open>snprintf\<close> cannot serve with its one argument is a fault.
\<close>

definition away_handle :: "int \<Rightarrow> int \<Rightarrow> srv \<Rightarrow> srv" where
  "away_handle src dest st =
     (let away = u_awaymsg (usr st dest)
      in if away \<noteq> [] \<and> (u_lastaway (usr st dest) \<noteq> src \<or>
            now st - u_lastawaytime (usr st dest) > AWAY_NOSEND_TIME)
         then
           (let st = upd_u dest (\<lambda>u. u\<lparr>u_lastaway := src, u_lastawaytime := now st\<rparr>) st;
                st = sendstatus src ''Away'' (snprintf MAX_PKT_DATA away) st
            in if u_echoback (usr st dest) = 2 then
                 (let tbuf = snprintf MAX_PKT_DATA (''<*to: '' @ u_nickname (usr st src) @ ''*> [=@'' @
                        clock_text st @ ''=] '' @ away)
                  in case fmt_apply tbuf [u_nickname (usr st dest)] of
                       None \<Rightarrow> flag_fault True st
                     | Some (s, _) \<Rightarrow> sends_cmdout dest (snprintf MAX_PKT_DATA s) st)
               else st)
         else st)"

section \<open>Private messages and beeps\<close>

definition s_personal :: "cmd_fun \<Rightarrow> int \<Rightarrow> int \<Rightarrow> srv \<Rightarrow> int \<times> srv" where
  "s_personal cmdmsg n argc st =
     (if argc \<noteq> 2 then (-1, st)
      else let who = getword (field st 1);
               dest = find_user who st
        in if dest < 0 then (0, senderror n (who @ '' not signed on.'') st)
           else
             (let st = (if u_awaymsg (usr st n) \<noteq> [] \<and> dest \<noteq> NICKSERV st
                        then sendstatus n ''Away'' ''Your away is still set...'' st else st);
                  tail = get_tail (field st 1);
                  st = sendperson (autoBeep cmdmsg) cmdmsg n dest tail st;
                  st = (if u_echoback (usr st n) = 2 then
                          sends_cmdout n (snprintf MAX_PKT_DATA
                            (''<*to: '' @ u_nickname (usr st dest) @ ''*> '' @ tail)) st
                        else st)
              in (0, away_handle n dest st)))"

definition s_beep :: "cmd_fun \<Rightarrow> int \<Rightarrow> int \<Rightarrow> srv \<Rightarrow> int \<times> srv" where
  "s_beep cmdmsg n argc st =
     (0, if argc \<noteq> 2 then st
         else let who = getword (field st 1)
           in if who = [] then st
              else let dest = find_user who st
                in if dest < 0 then senderror n (who @ '' not signed on.'') st
                   else
                     (let st = sendbeep cmdmsg n dest st;
                          st = (if u_echoback (usr st n) = 2 then
                                  sends_cmdout n (snprintf MAX_PKT_DATA
                                    (''<*to: '' @ u_nickname (usr st dest) @ ''*> [=Beep=]'')) st
                                else st)
                      in away_handle n dest st))"

end
