(* ===== verification/Who.thy ===== *)
theory Who
  imports UserCmds
begin

text \<open>
  The listings: \<open>server/s_who.c\<close> and \<open>server/s_info.c\<close>. Users of a group are listed in the
  order in which they entered it, groups in the order of their names; both are sorted by
  insertion into an array, and a write behind its end is a fault.
\<close>

section \<open>Sorted insertion\<close>

text \<open>
  The array of the listing: \<open>lt x y\<close> is the condition under which the search goes on. The loop
  that makes room writes one entry behind the new end, so that it needs two free entries.
\<close>

definition insert_at :: "('a \<Rightarrow> 'a \<Rightarrow> bool) \<Rightarrow> 'a \<Rightarrow> 'a list \<Rightarrow> 'a list" where
  "insert_at lt x xs = takeWhile (lt x) xs @ x # dropWhile (lt x) xs"

definition list_sorted :: "('a \<Rightarrow> 'a \<Rightarrow> bool) \<Rightarrow> nat \<Rightarrow> 'a list \<Rightarrow> 'a list \<times> bool" where
  "list_sorted lt room xs =
     fold (\<lambda>x (ys, bad). (insert_at lt x ys, bad \<or> (if ys = [] then room = 0 else length ys + 1 \<ge> room)))
       xs ([], False)"

section \<open>The members of a group\<close>

definition members :: "int \<Rightarrow> srv \<Rightarrow> int list" where
  "members which st = filter (\<lambda>i. which = find_group (u_group (usr st i)) st) [0..MAX_USERS st - 1]"

definition pgm_short :: "int \<Rightarrow> int \<Rightarrow> srv \<Rightarrow> srv" where
  "pgm_short n which st =
     (let num_users = count_users_in_group (g_name (grp st which)) st;
          (line, num, st) =
            fold (\<lambda>i (line, num, st).
              let (line, st) = add_item n (u_nickname (usr st i)) (line, st);
                  num = num - 1;
                  (line, st) = (if num \<noteq> 0 then add_item n '', '' (line, st) else (line, st))
              in (line, num, st)) (members which st)
              (let (line, st) = add_item n ''    Members: '' ([], st) in (line, num_users, st))
      in if line \<noteq> [] then sends_cmdout n line st else st)"

definition who_status :: "user_item \<Rightarrow> cstring" where
  "who_status u =
     (let nr = (u_realname u = []); aw = (u_awaymsg u \<noteq> []); sec = (u_secure u \<noteq> 0)
      in if nr \<or> aw \<or> sec then
           ''('' @ (if nr then ''nr'' else []) @ (if aw then (if nr then '','' else []) @ ''aw'' else [])
             @ (if sec then (if nr \<or> aw then '','' else []) @ ''ssl'' else []) @ '')''
         else [])"

text \<open>The buffer for the marks of a user has 8 bytes.\<close>

definition pgm_line :: "int \<Rightarrow> int \<Rightarrow> int \<Rightarrow> srv \<Rightarrow> srv" where
  "pgm_line n which i st =
     (let u = usr st i
      in user_wline n (if g_mod (grp st which) = i then ''m'' else '' '') (u_nickname u)
           (to_int32 (now st - u_t_recv u)) 0 (to_int32 (u_t_on u)) (u_loginid u) (u_nodeid u) (who_status u)
           (flag_fault (length (who_status u) \<ge> 8) st))"

definition pgm_long :: "int \<Rightarrow> int \<Rightarrow> srv \<Rightarrow> srv" where
  "pgm_long n which st =
     (let st = (if count_users_in_group (g_name (grp st which)) st \<ge> 2 then user_whead n st else st);
          (us, bad) = list_sorted (\<lambda>x y. u_t_group (usr st x) > u_t_group (usr st y))
                        (nat (MAX_REAL_USERS st)) (members which st)
      in fold (pgm_line n which) us (flag_fault bad st))"

abbreviation (input) DOGROUPONLY :: int where "DOGROUPONLY \<equiv> 1"
abbreviation (input) DOSHORT :: int where "DOSHORT \<equiv> 2"

definition print_group_members :: "int \<Rightarrow> int \<Rightarrow> int \<Rightarrow> srv \<Rightarrow> srv" where
  "print_group_members n which flags st =
     (if flags = DOGROUPONLY then st
      else if flags = DOSHORT then pgm_short n which st
      else pgm_long n which st)"

section \<open>The header of a group\<close>

text \<open>
  Whether the listing treats user \<open>n\<close> as invited. The fourth condition asks for the list of
  the third again, not for the list of invitations for registered users.
\<close>

definition who_invited :: "int \<Rightarrow> int \<Rightarrow> srv \<Rightarrow> bool" where
  "who_invited n gi st \<longleftrightarrow>
     (let nick = u_nickname (usr st n); one = addr_of st n; reg = (u_realname (usr st n) \<noteq> [])
      in nl_present nick (n_invites (grp st gi)) \<or> (nl_present nick (nr_invites (grp st gi)) \<and> reg) \<or>
         nl_match one (s_invites (grp st gi)) \<or> (nl_match one (s_invites (grp st gi)) \<and> reg) \<or>
         nick = ''ADMIN'')"

definition who_mod :: "int \<Rightarrow> srv \<Rightarrow> cstring" where
  "who_mod gi st =
     (let g = grp st gi
      in if g_mod g < 0 then
           (if g_modtimeout g = 0 then ''(None)''
            else g_missingmod g @ '' ('' @ dec_int (to_int32 (g_modtimeout g - now st)) @ '')'')
         else u_nickname (usr st (g_mod g)))"

definition who_name :: "int \<Rightarrow> int \<Rightarrow> srv \<Rightarrow> cstring" where
  "who_name n gi st =
     (if g_visibility (grp st gi) = SECRET \<or> g_visibility (grp st gi) = SUPERSECRET then
        (if find_group (u_group (usr st n)) st \<noteq> gi \<and> \<not> who_invited n gi st then ''-SECRET-''
         else ''*'' @ g_name (grp st gi) @ ''*'')
      else g_name (grp st gi))"

definition letter :: "cstring \<Rightarrow> int \<Rightarrow> cstring" where
  "letter s i = (if 0 \<le> i \<and> i < int (length s) then [s ! nat i] else [])"

definition print_group_header :: "int \<Rightarrow> int \<Rightarrow> srv \<Rightarrow> srv" where
  "print_group_header n gi st =
     (let g = grp st gi;
          st = (if g_mod g < 0 then st else need_u (g_mod g) st);
          st = flag_fault (length (who_mod gi st) \<ge> MAX_NICKLEN + 7 \<or> length (who_name n gi st) \<ge> MAX_GROUPLEN + 3
                 \<or> letter ''*pmrc'' (g_control g) = [] \<or> letter ''*vsi'' (g_visibility g) = []
                 \<or> letter ''*qnl'' (g_volume g) = []) st;
          opts = ''('' @ letter ''*pmrc'' (g_control g) @ letter ''*vsi'' (g_visibility g)
                   @ letter ''*qnl'' (g_volume g) @ '')'';
          topic = (if g_topic g = [] then ''(None)'' else g_topic g);
          msg = ''Group: '' @ pad 8 (who_name n gi st) @ '' '' @ opts @ '' Mod: '' @ pad 13 (who_mod gi st)
                  @ '' Topic: '' @ topic
      in sends_cmdout n msg (sends_cmdout n '' '' st))"

section \<open>\<open>s_who\<close>\<close>

definition doOne :: "int \<Rightarrow> int \<Rightarrow> cstring \<Rightarrow> srv \<Rightarrow> srv" where
  "doOne n flags tgrp st =
     (let which = find_group tgrp st
      in if which \<ge> 0 then print_group_members n which flags (print_group_header n which st)
         else senderror n (''The group '' @ tgrp @ '' doesn'' @ [CHR 0x27] @ ''t exist.'') st)"

definition listed_groups :: "int \<Rightarrow> srv \<Rightarrow> int list" where
  "listed_groups n st =
     filter (\<lambda>i. g_name (grp st i) \<noteq> [] \<and> (g_visibility (grp st i) \<noteq> SUPERSECRET \<or> who_invited n i st \<or>
               i = find_group (u_group (usr st n)) st)) [0..MAX_GROUPS st - 1]"

definition count_logins :: "srv \<Rightarrow> int" where
  "count_logins st = int (length (filter (\<lambda>i. u_login (usr st i) > LOGIN_FALSE) (real_users st)))"

definition count_groups :: "srv \<Rightarrow> int" where
  "count_groups st =
     int (length (filter (\<lambda>g. g_name g \<noteq> [] \<and> (g_name g \<noteq> ''ICB'' \<or> count_users_in_group ''ICB'' st > 1)) (g_tab st)))"

definition totals :: "srv \<Rightarrow> cstring" where
  "totals st =
     (let u = count_logins st; g = count_groups st
      in if u = 0 then ''No users found.''
         else ''Total: '' @ dec_int u @ (if u > 1 then '' users in '' else '' user in '') @ dec_int g
                @ (if g > 1 then '' groups'' else '' group''))"

definition doAll :: "int \<Rightarrow> int \<Rightarrow> srv \<Rightarrow> srv" where
  "doAll n flags st =
     (let (gs, bad) = list_sorted (\<lambda>x y. strcasecmp (g_name (grp st x)) (g_name (grp st y)) > 0)
                        (length (g_tab st)) (listed_groups n st);
          st = fold (\<lambda>i st. doOne n flags (g_name (grp st i)) st) gs (flag_fault bad st)
      in sends_cmdout n (totals st) st)"

definition s_who :: "int \<Rightarrow> int \<Rightarrow> srv \<Rightarrow> int \<times> srv" where
  "s_who n argc st =
     (if argc \<noteq> 2 then (0, st)
      else let cp = getword (field st 1)
        in if strcaseeq cp ''?'' then (0, sends_cmdout n ''Usage: /w {-g | -s} {groupname}'' st)
           else let flags = (if strcaseeq cp ''-g'' then DOGROUPONLY else if strcaseeq cp ''-s'' then DOSHORT else 0);
                    word = (if flags = 0 then cp else getword (get_tail (field st 1)))
             in if word = [] then (0, doAll n flags st)
                else if take 1 (field st 1) = ''@'' then
                  (let t = find_user (drop 1 (field st 1)) st
                   in if t < 0 then (-1, senderror n ''User not found.'' st)
                      else let gi = find_group (u_group (usr st t)) st;
                               st = need_g gi st
                        in if g_visibility (grp st gi) = SUPERSECRET \<and> u_nickname (usr st n) \<noteq> ''ADMIN''
                           then (-1, senderror n ''User not found.'' st)
                           else (0, doOne n flags (if u_group (usr st t) = ''.'' then u_group (usr st n)
                                                    else u_group (usr st t)) st))
                else (0, doOne n flags (if take MAX_GROUPLEN word = ''.'' then u_group (usr st n)
                                         else take MAX_GROUPLEN word) st))"

section \<open>\<open>s_info\<close>\<close>

definition idle_text :: "int \<Rightarrow> cstring" where
  "idle_text idle =
     (if idle < 60 then dec_int idle @ ''s'' else if idle < 3600 then dec_int (idle div 60) @ ''m''
      else if idle < 86400 then dec_int (idle div 3600) @ ''h'' else dec_int (idle div 86400) @ ''d'')"

definition s_info :: "int \<Rightarrow> int \<Rightarrow> srv \<Rightarrow> int \<times> srv" where
  "s_info n argc st =
     (0, if argc \<noteq> 2 then st
         else let name = take 19 (getword (field st 1));
                  i = (if name = [] then lpriv_id st ! nat n else find_user name st)
           in if i < 0 then sends_cmdout n ''Nickname not found.'' st
              else let st = need_u i st;
                       u = usr st i;
                       addr = (case numeric_host (world st) i of None \<Rightarrow> ''(unknown)'' | Some s \<Rightarrow> s)
                in sends_cmdout n (pad 14 (u_nickname u) @ '' '' @ u_loginid u @ ''@'' @ u_nodeid u @ '' ('' @ addr
                     @ '') '' @ idle_text (to_int32 (now st - u_t_recv u))
                     @ (if u_awaymsg u \<noteq> [] then '' (aw)'' else [])) st)"

end
