(* ===== verification/Admin.thy ===== *)
theory Admin
  imports Who
begin

text \<open>
  The commands of the administrator and the ones that print files and counters:
  \<open>server/s_admin.c\<close>, \<open>server/s_motd.c\<close>, \<open>server/s_news.c\<close>, \<open>server/s_stats.c\<close>,
  \<open>server/s_shuttime.c\<close> and \<open>server/s_version.c\<close>. Opening and closing the log file is not
  modelled; a successful restart ends the process, and what it saves for the next one is in theory
  \<open>Dump\<close>.
\<close>

section \<open>Administration\<close>

definition not_authorized :: cstring where
  "not_authorized = ''You are not authorized to do this.''"

definition s_log :: "int \<Rightarrow> int \<Rightarrow> srv \<Rightarrow> int \<times> srv" where
  "s_log n argc st =
     (if argc < 2 then (0, sends_cmdout n ''wrong number of parz'' st)
      else if \<not> check_auth n st then (-1, senderror n not_authorized st)
      else let st = (if field st 1 \<noteq> [] then st\<lparr>log_level := max 0 (atoi (getword (field st 1)))\<rparr> else st)
        in (0, sends_cmdout n (''The log level is '' @ dec_int (log_level st)) st))"

definition s_drop :: "int \<Rightarrow> int \<Rightarrow> srv \<Rightarrow> int \<times> srv" where
  "s_drop n argc st =
     (0, if argc \<noteq> 2 then st
         else let victim = find_user (getword (field st 1)) st
           in if victim < 0 then senderror n ''User not found.'' st
              else if check_auth n st then disconnect victim st
              else let (r, st) = valuser (u_nickname (usr st victim)) (getword (get_tail (field st 1))) st
                in if r = 0 then
                     (let st = sendstatus victim ''Drop'' (''You have been disconnected by '' @ u_nickname (usr st n)) st
                      in st\<lparr>S_kill := (S_kill st)[nat victim := S_kill st ! nat victim + 1]\<rparr>)
                   else senderror n ''Authentication failure.'' st)"

definition tell_all :: "cstring \<Rightarrow> cstring \<Rightarrow> srv \<Rightarrow> srv" where
  "tell_all status msg st =
     fold (\<lambda>i st. if u_login (usr st i) > LOGIN_FALSE then sendimport i status msg st else st) (real_users st) st"

definition s_shutdown :: "int \<Rightarrow> int \<Rightarrow> srv \<Rightarrow> int \<times> srv" where
  "s_shutdown n argc st =
     (if \<not> check_auth n st then (-1, senderror n not_authorized st)
      else if argc \<noteq> 2 then (0, st)
      else let k = strtol (field st 1);
               st = tell_all ''Shutdown'' (''Server going down in '' @ dec_int k @ '' minute(s)!'') st
        in (0, st\<lparr>TimeToDie := now st + 60 * k, ShutdownNotify := (if k < 300 then 1 else 0)\<rparr>))"

definition restart_say :: "bool \<Rightarrow> int \<Rightarrow> cstring \<Rightarrow> srv \<Rightarrow> srv" where
  "restart_say quiet n msg st =
     (if quiet then sendimport n ''Quiet-Restart'' msg st else tell_all ''Restart'' msg st)"

definition s_restart :: "int \<Rightarrow> int \<Rightarrow> srv \<Rightarrow> int \<times> srv" where
  "s_restart n argc st =
     (if \<not> check_auth n st then (-1, senderror n not_authorized st)
      else let quiet = (argc = 2 \<and> strcaseeq (field st 1) ''quiet'');
               st = restart_say quiet n ''Server restarting...please be patient.'' st
        in if exec_ok (world st) then (0, st\<lparr>halted := True\<rparr>)
           else (-1, restart_say quiet n ''Restart not done.'' st))"

definition s_wall :: "int \<Rightarrow> int \<Rightarrow> srv \<Rightarrow> int \<times> srv" where
  "s_wall n argc st =
     (if \<not> check_auth n st then (-1, senderror n not_authorized st)
      else (0, if argc = 2 then tell_all ''WALL'' (field st 1) st else st))"

section \<open>Message of the day and news\<close>

text \<open>The buffer has 256 bytes; what does not fit is dropped.\<close>

definition motd_add :: "cstring \<Rightarrow> cstring \<Rightarrow> cstring" where
  "motd_add temp s = take 255 (temp @ s)"

fun motd_loop :: "int \<Rightarrow> cstring \<Rightarrow> string \<Rightarrow> srv \<Rightarrow> srv" where
  "motd_loop n temp [] st = st"
| "motd_loop n temp (c # cs) st =
     (if c = CHR ''%'' then
        (case cs of
           [] \<Rightarrow> st
         | d # ds \<Rightarrow>
             if d = CHR ''U'' then
               (let (r, st) = db_get ''server'' ''signon'' st
                in motd_loop n (case r of None \<Rightarrow> temp | Some v \<Rightarrow> motd_add temp v) ds st)
             else motd_loop n (motd_add temp [d]) ds st)
      else if c = CHR 0x0A then motd_loop n [] cs (sends_cmdout n (c_str temp) st)
      else motd_loop n (motd_add temp [c]) cs st)"

definition s_motd :: "int \<Rightarrow> int \<Rightarrow> srv \<Rightarrow> int \<times> srv" where
  "s_motd n argc st =
     (0, case read_file (world st) ''./motd'' of
           None \<Rightarrow> senderror n ''No MOTD file found.'' st
         | Some s \<Rightarrow> motd_loop n [] s st)"

definition news_line :: cstring where
  "news_line = replicate 38 CHR ''-''"

definition all_news :: "int \<Rightarrow> srv \<Rightarrow> srv" where
  "all_news n st =
     (let (found, st) =
        fold (\<lambda>i (found, st).
          case read_file (world st) (''news.'' @ dec_int i) of
            None \<Rightarrow> (found, st)
          | Some s \<Rightarrow>
              (let st = (if found then st else sends_cmdout n news_line st);
                   st = fold (sends_cmdout n) (text_lines 254 [] s) st
               in (True, sends_cmdout n news_line st))) [1..9] (False, st)
      in if found then st else sendstatus n ''News'' ''No news.'' st)"

text \<open>The name of the file is printed into a buffer of 80 bytes.\<close>

definition s_news :: "int \<Rightarrow> int \<Rightarrow> srv \<Rightarrow> int \<times> srv" where
  "s_news n argc st =
     (0, if field st 1 = [] \<or> field st 1 = ''(null)'' then all_news n st
         else let fname = ''news.'' @ field st 1;
                  st = flag_fault (length fname \<ge> 80) st
           in case read_file (world st) fname of
                None \<Rightarrow> senderror n ''Entry not found.'' st
              | Some s \<Rightarrow>
                  (let st = sends_cmdout n news_line st;
                       st = fold (sends_cmdout n) (text_lines 254 [] s) st
                   in sends_cmdout n news_line st))"

section \<open>Counters\<close>

definition s_of :: "int \<Rightarrow> cstring" where
  "s_of k = (if k \<noteq> 1 then ''s'' else [])"

definition count_away :: "srv \<Rightarrow> int" where
  "count_away st = int (length (filter (\<lambda>i. u_login (usr st i) > LOGIN_FALSE \<and> u_awaymsg (usr st i) \<noteq> []) (real_users st)))"

definition show_stats :: "int \<Rightarrow> srv \<Rightarrow> srv" where
  "show_stats who st =
     (let s = stats st
      in fold (sends_cmdout who)
           [''Server Settings:'',
            ''  '' @ VERSION @ '', Protocol Level '' @ dec_int PROTO_LEVEL,
            ''  Max Users: '' @ dec_int (MAX_REAL_USERS st) @ '' Max Groups: '' @ dec_int (MAX_GROUPS st),
            ''Server Stats:'',
            butlast (''  Started: '' @ ctime_text (world st) (st_start_time s)),
            ''  '' @ dec_int (st_signons s) @ '' signon'' @ s_of (st_signons s) @ '', '' @ dec_int (st_boots s) @ '' boot''
              @ s_of (st_boots s) @ '', '' @ dec_int (st_drops s) @ '' drop'' @ s_of (st_drops s),
            ''  '' @ dec_int (st_idleboots s) @ '' idleboot'' @ s_of (st_idleboots s) @ '', '' @ dec_int (st_idlemods s)
              @ '' idlemod pass'' @ (if st_idlemods s \<noteq> 1 then ''es'' else []),
            ''  '' @ dec_int (count_logins st) @ '' user'' @ s_of (count_logins st) @ '' in '' @ dec_int (count_groups st)
              @ '' group'' @ s_of (count_groups st) @ '' ('' @ dec_int (count_away st) @ '' away user''
              @ s_of (count_away st) @ '')''] st)"

definition s_server_stats :: "int \<Rightarrow> int \<Rightarrow> srv \<Rightarrow> int \<times> srv" where
  "s_server_stats who argc st =
     (if argc = 2 \<and> field st 1 = ''reset'' then
        (if \<not> check_auth who st then (-1, senderror who not_authorized st)
         else (0, sendstatus who ''Stats'' ''Stats have been reset.''
                    (st\<lparr>stats := \<lparr>st_start_time = now st, st_signons = 0, st_boots = 0, st_idleboots = 0,
                       st_idlemods = 0, st_drops = 0\<rparr>\<rparr>)))
      else (0, show_stats who st))"

definition s_shuttime :: "int \<Rightarrow> int \<Rightarrow> srv \<Rightarrow> int \<times> srv" where
  "s_shuttime n argc st =
     (0, if argc \<noteq> 2 then st
         else if TimeToDie st < 0 then sendstatus n ''Shutdown'' ''No shutdown time scheduled.'' st
         else let t = TimeToDie st - now st
           in sendstatus n ''Shutdown''
                (if t \<ge> 3600 then dec_int (t div 3600) @ '' hour(s), '' @ dec_int (t mod 3600 div 60)
                    @ '' minute(s) left until scheduled shutdown.''
                 else if t > 60 then dec_int (t div 60) @ '' minute(s) left until scheduled shutdown.''
                 else dec_int t @ '' second(s) left until scheduled shutdown!'') st)"

definition s_version :: "int \<Rightarrow> int \<Rightarrow> srv \<Rightarrow> int \<times> srv" where
  "s_version n argc st =
     (0, if argc \<noteq> 2 then st
         else sends_cmdout n (''Proto Level: '' @ dec_int PROTO_LEVEL @ '' Max Users: '' @ dec_int (MAX_REAL_USERS st)
                @ '' Max Groups: '' @ dec_int (MAX_GROUPS st)) (sends_cmdout n VERSION st))"

end
