(* ===== verification/Events.thy ===== *)
theory Events
  imports Commands
begin

text \<open>
  \<open>server/ipcf.c\<close> (with \<open>ok2read\<close> of \<open>server/msgs.c\<close>): what the server does when a client is
  lost and when the event loop is idle.
\<close>

section \<open>Choosing a moderator\<close>

text \<open>
  The loops that look for the least idle user among those who qualify: the first one with the
  latest \<open>t_recv\<close>, or -1.
\<close>

definition all_users :: "srv \<Rightarrow> int list" where
  "all_users st = [0..MAX_USERS st - 1]"

definition least_idle :: "(int \<Rightarrow> bool) \<Rightarrow> srv \<Rightarrow> int" where
  "least_idle ok st =
     fold (\<lambda>i best. if ok i then
                       (if best = -1 then i
                        else if u_t_recv (usr st i) - u_t_recv (usr st best) > 0 then i else best)
                     else best) (all_users st) (-1)"

definition member_of :: "int \<Rightarrow> srv \<Rightarrow> int \<Rightarrow> bool" where
  "member_of gi st i \<longleftrightarrow> u_login (usr st i) \<ge> LOGIN_COMPLETE \<and> strcaseeq (u_group (usr st i)) (g_name (grp st gi))"

section \<open>A lost client\<close>

definition MOD_TIMEOUT :: int where "MOD_TIMEOUT = 300"

text \<open>The users who asked to be notified are told, unless the group is supersecret.\<close>

definition notify_off :: "int \<Rightarrow> srv \<Rightarrow> srv" where
  "notify_off n st =
     (let one = addr_of st n;
          three = ucaseit (u_nickname (usr st n));
          msg = snprintf 255 (u_nickname (usr st n) @ '' ('' @ one @ '') has just signed off'')
      in fold (\<lambda>j st.
           if n \<noteq> j \<and> u_login (usr st j) > LOGIN_FALSE \<and>
              (nl_match three (n_notifies (usr st j)) \<or> nl_match one (s_notifies (usr st j)))
           then let gi = find_group (u_group (usr st n)) st;
                    st = need_g gi st
             in if g_visibility (grp st gi) \<noteq> SUPERSECRET then sendstatus j ''Notify-Off'' msg st else st
           else st) (all_users st) st)"

text \<open>
  The loop over the groups of which the lost user was the moderator. It does nothing for a
  group without users, and so would never end; hence the fuel.
\<close>

fun lost_mods :: "nat \<Rightarrow> int \<Rightarrow> bool \<Rightarrow> cstring \<Rightarrow> srv \<Rightarrow> srv option" where
  "lost_mods 0 n was_registered t_name st = None"
| "lost_mods (Suc k) n was_registered t_name st =
     (let was_mod = check_mods n st
      in if was_mod = -1 then Some st
         else if count_users_in_group (g_name (grp st was_mod)) st > 0 then
           (if \<not> was_registered then
              (let st = (if g_volume (grp st was_mod) \<noteq> QUIET
                         then s_status_group 2 False was_mod ''Sign-off''
                                ''Your group moderator signed off. (No timeout)'' st else st);
                   newmod = least_idle (member_of was_mod st) st;
                   st = upd_g was_mod (\<lambda>g. g\<lparr>g_mod := newmod\<rparr>) st
               in lost_mods k n was_registered t_name
                    (if newmod \<ge> 0
                     then s_status_group 2 False was_mod ''Pass''
                            (u_nickname (usr st newmod) @ '' is now mod.'') st
                     else st))
            else
              (let st = s_status_group 2 False was_mod ''Mod''
                          (''Your group moderator signed off. ('' @ dec_int MOD_TIMEOUT @ '' second timeout)'') st
               in lost_mods k n was_registered t_name
                    (upd_g was_mod (\<lambda>g. g\<lparr>g_mod := -1, g_missingmod := t_name,
                       g_modtimeout := now st + MOD_TIMEOUT\<rparr>) st)))
         else lost_mods k n was_registered t_name st)"

definition s_lost_user :: "nat \<Rightarrow> int \<Rightarrow> srv \<Rightarrow> (int \<times> srv) option" where
  "s_lost_user fuel n st =
     (if n \<ge> MAX_REAL_USERS st then Some (0, st)
      else if u_login (usr st n) = LOGIN_FALSE then Some (0, clear_user_item n st)
      else
        (let was_registered = (u_realname (usr st n) \<noteq> []);
             is_killed = S_kill st ! nat n;
             t_grp = take MAX_GROUPLEN (u_group (usr st n));
             t_name = take MAX_NICKLEN (u_nickname (usr st n));
             t_fid = u_nickname (usr st n) @ '' ('' @ u_loginid (usr st n) @ ''@'' @ u_nodeid (usr st n) @ '')'';
             st = notify_off n (need_u n st);
             st = clear_user_item n st;
             ogi = find_group t_grp st
         in if ogi < 0 then Some (-1, st)
            else
              (let st = (if count_users_in_group t_grp st > 0 then
                           (if g_volume (grp st ogi) \<noteq> QUIET then
                              s_status_group 2 False ogi ''Sign-off''
                                (t_fid @ (if is_killed > 0 then '' has been disconnected.''
                                          else '' has signed off.'')) st
                            else st)
                         else clear_group_item ogi st)
               in map_option (Pair 0) (lost_mods fuel n was_registered t_name st))))"

section \<open>Idle time\<close>

text \<open>The two warnings before a shutdown.\<close>

definition warn_all :: "cstring \<Rightarrow> srv \<Rightarrow> srv" where
  "warn_all msg st =
     fold (\<lambda>i st. if u_login (usr st i) > LOGIN_FALSE then sendimport i ''Shutdown'' msg st else st)
       (real_users st) st"

definition shutdown_warnings :: "srv \<Rightarrow> srv" where
  "shutdown_warnings st =
     (let st = (if now st \<ge> TimeToDie st - 300 \<and> TimeToDie st > 0 \<and> ShutdownNotify st = 0
                then (let st = warn_all ''Server shutting down in 5 minutes!'' st
                      in st\<lparr>ShutdownNotify := ShutdownNotify st + 1\<rparr>)
                else st)
      in if now st \<ge> TimeToDie st - 60 \<and> TimeToDie st > 0 \<and> ShutdownNotify st = 1
         then (let st = warn_all ''Server shutting down in 1 minute!'' st
               in st\<lparr>ShutdownNotify := ShutdownNotify st + 1\<rparr>)
         else st)"

text \<open>\<open>pktserv_disconnect\<close> for the users marked as killed.\<close>

definition drop_killed :: "srv \<Rightarrow> srv" where
  "drop_killed st =
     fold (\<lambda>i st. if u_login (usr st i) > LOGIN_FALSE \<and> S_kill st ! nat i > 0
                  then disconnect i (st\<lparr>stats := (stats st)\<lparr>st_drops := st_drops (stats st) + 1\<rparr>\<rparr>)
                  else st) (real_users st) st"

definition IDLE_MOD_MSG :: "cstring \<Rightarrow> cstring \<Rightarrow> cstring" where
  "IDLE_MOD_MSG who grpname =
     ''A piano suddenly falls on '' @ who @ '', dislodging moderatorship of '' @ grpname @ ''.''"

text \<open>A moderator who is more idle than the group allows, and than some other member.\<close>

definition mod_too_idle :: "int \<Rightarrow> srv \<Rightarrow> bool" where
  "mod_too_idle i st \<longleftrightarrow>
     (let md = g_mod (grp st i);
          mod_idle = now st - u_t_recv (usr st md)
      in g_control (grp st i) \<noteq> PUBLIC \<and> md \<ge> 0 \<and> mod_idle > g_idlemod (grp st i) \<and>
         list_ex (\<lambda>ui. ui \<noteq> md \<and> u_login (usr st ui) \<ge> LOGIN_COMPLETE \<and> u_awaymsg (usr st ui) = [] \<and>
                    find_group (u_group (usr st ui)) st = i \<and> now st - u_t_recv (usr st ui) < mod_idle)
           (real_users st))"

definition idle_mod :: "int \<Rightarrow> srv \<Rightarrow> srv" where
  "idle_mod i st =
     (let st = (if g_control (grp st i) \<noteq> PUBLIC \<and> g_mod (grp st i) \<ge> 0 then need_u (g_mod (grp st i)) st else st)
      in if mod_too_idle i st then
        (let md = g_mod (grp st i);
             st = sendstatus md ''Idle-Mod'' (IDLE_MOD_MSG ''you'' (g_name (grp st i))) st;
             st = (if g_volume (grp st i) \<noteq> QUIET then
                     (let msg = IDLE_MOD_MSG (u_nickname (usr st md)) (g_name (grp st i))
                      in if find_group (u_group (usr st md)) st = i
                         then s_status_group 1 False md ''Idle-Mod'' msg st
                         else s_status_group 2 False i ''Idle-Mod'' msg st)
                   else st);
             st = upd_g i (\<lambda>g. g\<lparr>g_modtimeout := 1\<rparr>) st
         in st\<lparr>stats := (stats st)\<lparr>st_idlemods := st_idlemods (stats st) + 1\<rparr>\<rparr>)
      else st)"

definition mod_timeout :: "int \<Rightarrow> srv \<Rightarrow> srv" where
  "mod_timeout i st =
     (if g_modtimeout (grp st i) > 0 \<and> g_modtimeout (grp st i) < now st then
        (let newmod = least_idle (\<lambda>j. member_of i st j \<and> u_awaymsg (usr st j) = []) st
         in if newmod \<noteq> -1 then
              s_status_group 2 False i ''Timeout'' (u_nickname (usr st newmod) @ '' is now mod.'')
                (upd_g i (\<lambda>g. g\<lparr>g_mod := newmod, g_modtimeout := 0, g_missingmod := []\<rparr>) st)
            else st)
      else st)"

definition IDLE_BOOT_MSG :: cstring where
  "IDLE_BOOT_MSG = ''A swarm of bats swoops down and carries %s away.''"

text \<open>\<open>sprintf\<close> of a message that a moderator has set.\<close>

definition fmt1 :: "cstring \<Rightarrow> cstring \<Rightarrow> srv \<Rightarrow> cstring \<times> srv" where
  "fmt1 fmt arg st =
     (case fmt_apply fmt [arg] of Some (s, _) \<Rightarrow> (s, st) | None \<Rightarrow> ([], flag_fault True st))"

text \<open>The idle user hands on the groups of which it is the moderator.\<close>

definition hand_on :: "int \<Rightarrow> srv \<Rightarrow> srv" where
  "hand_on i st =
     fold (\<lambda>j st.
       if g_mod (grp st j) = i then
         (let newmod = least_idle (member_of j st) st;
              st = upd_g j (\<lambda>g. g\<lparr>g_mod := newmod\<rparr>) st
          in if newmod \<ge> 0 then
               (let msg = u_nickname (usr st newmod) @ '' is now mod.''
                in if g_name (grp st j) = u_group (usr st i)
                   then s_status_group 1 False i ''Pass'' msg st
                   else s_status_group 2 False j ''Pass'' msg st)
             else st)
       else st) [0..MAX_GROUPS st - 1] st"

definition boot_idle :: "int \<Rightarrow> int \<Rightarrow> srv \<Rightarrow> srv" where
  "boot_idle i gi st =
     (let bootmsg = (if g_idleboot_msg (grp st gi) \<noteq> [] then g_idleboot_msg (grp st gi) else IDLE_BOOT_MSG);
          (m, st) = fmt1 bootmsg ''you'' st;
          st = sendstatus i ''Idle-Boot'' m st;
          st = (if g_volume (grp st gi) \<noteq> QUIET then
                  (let (m, st) = fmt1 bootmsg (u_nickname (usr st i)) st
                   in s_status_group 1 False i ''Idle-Boot'' m st)
                else st);
          st = hand_on i st;
          st = st\<lparr>pfields := (pfields st)[1 := IDLE_GROUP], is_booting := True\<rparr>;
          st = snd (s_change i 2 st);
          st = st\<lparr>is_booting := False\<rparr>
      in st\<lparr>stats := (stats st)\<lparr>st_idleboots := st_idleboots (stats st) + 1\<rparr>\<rparr>)"

definition idle_user :: "int \<Rightarrow> srv \<Rightarrow> srv" where
  "idle_user i st =
     (if u_login (usr st i) < LOGIN_COMPLETE then st
      else let gi = find_group (u_group (usr st i)) st
        in if gi < 0 then st
           else if \<not> strcaseeq (u_group (usr st i)) IDLE_GROUP \<and> g_idleboot (grp st gi) > 0 \<and>
                   now st - u_t_recv (usr st i) > g_idleboot (grp st gi)
           then boot_idle i gi st else st)"

text \<open>\<open>icbexit\<close> of \<open>server/icbutil.c\<close>: all users are disconnected and the process ends.\<close>

definition icbexit :: "srv \<Rightarrow> srv" where
  "icbexit st =
     (fold disconnect (filter (\<lambda>i. u_login (usr st i) > LOGIN_FALSE) (real_users st)) st)\<lparr>halted := True\<rparr>"

definition s_didpoll :: "int \<Rightarrow> srv \<Rightarrow> srv" where
  "s_didpoll n st =
     (if n = 1 then st
      else if now st \<ge> TimeToDie st \<and> TimeToDie st > 0 then icbexit st
      else let st = shutdown_warnings st;
               st = drop_killed st;
               st = fold (\<lambda>i st. mod_timeout i (idle_mod i st)) [0..MAX_GROUPS st - 1] st
        in fold idle_user (real_users st) st)"

section \<open>Slow readers\<close>

abbreviation (input) PERM_SLOWMSGS :: int where "PERM_SLOWMSGS \<equiv> 2"

definition ok2read :: "int \<Rightarrow> srv \<Rightarrow> int" where
  "ok2read n st =
     (if (u_perms (usr st n) div PERM_SLOWMSGS) mod 2 = 1 then
        (if now st - u_t_recv (usr st n) < 1 then 0 else 1)
      else 1)"

section \<open>The least idle user\<close>

lemma least_idle_fold:
  fixes t :: "int \<Rightarrow> int"
  assumes "\<forall>i \<in> set xs. 0 \<le> i" "best = -1 \<or> ok best"
  defines "r \<equiv> fold (\<lambda>i best. if ok i then (if best = -1 then i else if t i - t best > 0 then i else best)
    else best) xs best"
  shows "(r = -1 \<longleftrightarrow> best = -1 \<and> (\<forall>i \<in> set xs. \<not> ok i)) \<and>
    (r \<noteq> -1 \<longrightarrow> ok r \<and> (r = best \<or> r \<in> set xs) \<and> (best \<noteq> -1 \<longrightarrow> t best \<le> t r) \<and> (\<forall>i \<in> set xs. ok i \<longrightarrow> t i \<le> t r))"
  using assms(1,2) unfolding r_def
proof (induction xs arbitrary: best)
  case (Cons x xs)
  let ?b = "if ok x then (if best = -1 then x else if t x - t best > 0 then x else best) else best"
  have "\<forall>i \<in> set xs. 0 \<le> i" "?b = -1 \<or> ok ?b" using Cons.prems by auto
  note IH = Cons.IH [OF this]
  have "x \<noteq> -1" using Cons.prems(1) by auto
  then show ?case using IH Cons.prems(2) by (fastforce split: if_splits)
qed auto

lemma all_users_tab: "i \<in> set (all_users st) \<longleftrightarrow> in_tab i (u_tab st)"
  by (auto simp: all_users_def in_tab_def)

lemma least_idle_spec:
  "if \<exists>i. in_tab i (u_tab st) \<and> ok i
   then in_tab (least_idle ok st) (u_tab st) \<and> ok (least_idle ok st) \<and>
     (\<forall>i. in_tab i (u_tab st) \<and> ok i \<longrightarrow> u_t_recv (usr st i) \<le> u_t_recv (usr st (least_idle ok st)))
   else least_idle ok st = -1"
  using least_idle_fold [of "all_users st" "-1" ok "\<lambda>i. u_t_recv (usr st i)"]
  by (auto simp: least_idle_def all_users_tab in_tab_def)

lemma least_idle_cases:
  "least_idle ok st = -1 \<or> in_tab (least_idle ok st) (u_tab st) \<and> ok (least_idle ok st)"
  using least_idle_spec [of st ok] by (auto split: if_splits)

section \<open>Clearing a user\<close>

lemma nickwritetime_db: "\<exists>db. snd (nickwritetime n c st) = st\<lparr>userdb := db\<rparr>"
proof (cases "u_realname (usr st n) = []")
  case True
  then show ?thesis by (intro exI [of _ "userdb st"]) (simp add: nickwritetime_def)
next
  case False
  let ?db = "snd (icbdb_open (userdb st))"
  obtain r db where r: "(if c \<noteq> 0 then icbdb_get (Some (u_nickname (usr st n))) ''nick'' ICBDB_STRING ?db
      else (Some (VStr []), ?db)) = (r, db)" by fastforce
  have "snd (nickwritetime n c st) = st\<lparr>userdb := userdb (snd (nickwritetime n c st))\<rparr>"
    using False r by (simp add: nickwritetime_def Let_def)
  then show ?thesis by blast
qed

lemma in_tab_list_update [simp]: "in_tab i (xs[k := v]) = in_tab i xs"
  by (simp add: in_tab_def)

lemma userdb_simps [simp]:
  "usr (st\<lparr>userdb := db\<rparr>) i = usr st i" "grp (st\<lparr>userdb := db\<rparr>) j = grp st j"
  "net_ok (st\<lparr>userdb := db\<rparr>) = net_ok st" "srv_ok (st\<lparr>userdb := db\<rparr>) = srv_ok st"
  by (simp_all add: usr_def grp_def net_ok_def) (rule srv_ok_cong; simp)

lemma clear_user_item_tabs:
  assumes "in_tab n (u_tab st)"
  shows "u_tab (clear_user_item n st) = (u_tab st)[nat n := cleared_user (usr st n)]"
    and "g_tab (clear_user_item n st) = g_tab st" and "fault (clear_user_item n st) = fault st"
    and "net_ok (clear_user_item n st) = net_ok st" and "out (clear_user_item n st) = out st"
    and "now (clear_user_item n st) = now st"
    and "length (S_kill (clear_user_item n st)) = length (S_kill st)"
    and "length (lpriv_id (clear_user_item n st)) = length (lpriv_id st)"
proof -
  obtain db where db: "(if u_login (usr st n) > LOGIN_FALSE then snd (nickwritetime n 1 st) else st) = st\<lparr>userdb := db\<rparr>"
    using nickwritetime_db [of n 1 st] by (metis (no_types) srv.surjective srv.update_convs(10))
  let ?s = "upd_u n cleared_user (st\<lparr>userdb := db\<rparr>)"
  have eq: "clear_user_item n st = ?s\<lparr>S_kill := (S_kill ?s)[nat n := 0],
      lpriv_id := map (\<lambda>i. if i = n then -1 else i) ((lpriv_id ?s)[nat n := -1]),
      pong_req := map (\<lambda>i. if i = n then -1 else i) ((pong_req ?s)[nat n := -1]),
      ping_time := (ping_time ?s)[nat n := 0]\<rparr>"
    using assms db by (simp add: clear_user_item_def Let_def)
  have [simp]: "u_tab ?s = (u_tab st)[nat n := cleared_user (usr st n)]"
    using assms by (simp add: u_tab_upd_u)
  show "u_tab (clear_user_item n st) = (u_tab st)[nat n := cleared_user (usr st n)]"
    and "g_tab (clear_user_item n st) = g_tab st" and "fault (clear_user_item n st) = fault st"
    and "net_ok (clear_user_item n st) = net_ok st" and "out (clear_user_item n st) = out st"
    and "now (clear_user_item n st) = now st"
    and "length (S_kill (clear_user_item n st)) = length (S_kill st)"
    and "length (lpriv_id (clear_user_item n st)) = length (lpriv_id st)"
    using assms by (simp_all add: eq net_ok_def upd_u_def need_u_def flag_fault_def)
qed

lemma clear_user_item_usr:
  assumes "in_tab n (u_tab st)"
  shows "usr (clear_user_item n st) k = (if k = n then cleared_user (usr st n) else usr st k)"
    and "grp (clear_user_item n st) j = grp st j"
  using assms clear_user_item_tabs(1,2) [OF assms]
  by (auto simp: usr_def grp_def in_tab_def nth_list_update nat_eq_iff)

lemma safe_clear_user_item:
  assumes "safe s0 st" "in_tab n (u_tab s0)"
  shows "safe s0 (clear_user_item n st)"
proof -
  let ?s = "upd_u n cleared_user st"
  have n: "in_tab n (u_tab st)" using assms safe_tab by simp
  have ok: "srv_ok st" using assms(1) safeD by blast
  have uok: "user_ok (usr st n)" using srv_ok_usr [OF ok n] .
  have "\<forall>u \<in> set (u_tab ?s). user_ok u"
    using srv_okD(2) [OF ok] uok set_update_subset_insert [of "u_tab st" "nat n" "cleared_user (usr st n)"]
    by (auto simp: u_tab_upd_u [OF n] user_ok_def cleared_user_def user_lists_def nl_ok_clear)
  moreover have "find_group nm ?s = find_group nm st" for nm by (simp add: find_group_def)
  ultimately have "srv_ok ?s"
    using ok n u_tab_upd_u [OF n, of cleared_user]
    by (auto simp: srv_ok_def groups_distinct_def users_housed_def cleared_user_def)
  moreover have "srv_ok (clear_user_item n st) = srv_ok ?s"
    using clear_user_item_tabs [OF n] n by (intro srv_ok_cong) (simp_all add: u_tab_upd_u)
  ultimately show ?thesis
    using assms(1) clear_user_item_tabs [OF n] by (simp add: safe_def)
qed

section \<open>Losing a client\<close>

lemma calm_notify_off:
  assumes "srv_ok st" "net_ok st" "in_group n st"
  shows "calm st (notify_off n st)" "u_tab (notify_off n st) = u_tab st" "g_tab (notify_off n st) = g_tab st"
proof -
  note t = in_groupD [OF assms(1,3)]
  let ?f = "\<lambda>j s. if n \<noteq> j \<and> u_login (usr s j) > LOGIN_FALSE \<and>
      (nl_match (ucaseit (u_nickname (usr st n))) (n_notifies (usr s j)) \<or> nl_match (addr_of st n) (s_notifies (usr s j)))
    then let gi = find_group (u_group (usr s n)) s; s = need_g gi s
      in if g_visibility (grp s gi) \<noteq> SUPERSECRET
         then sendstatus j ''Notify-Off''
                (snprintf 255 (u_nickname (usr st n) @ '' ('' @ addr_of st n @ '') has just signed off'')) s
         else s
    else s"
  have "\<exists>ps r. fold ?f xs (emits qs q st) = emits ps r st" for xs qs q
  proof (induction xs arbitrary: qs q)
    case Nil
    then show ?case by auto
  next
    case (Cons j xs)
    have "\<exists>ps r. ?f j (emits qs q st) = emits ps r st"
      using t(2) assms(2) by (auto simp: Let_def sender_rules)
    then obtain ps r where "?f j (emits qs q st) = emits ps r st" by blast
    then show ?case using Cons.IH [of ps r] by (simp only: fold.simps comp_def)
  qed
  moreover have "notify_off n st = fold ?f (all_users st) (emits [] False st)"
    by (simp only: notify_off_def Let_def emits_Nil)
  ultimately obtain ps r where "notify_off n st = emits ps r st" by metis
  then show "calm st (notify_off n st)" "u_tab (notify_off n st) = u_tab st" "g_tab (notify_off n st) = g_tab st"
    using assms by (simp_all add: emits_calm)
qed

text \<open>A group has a moderator only if it is in use.\<close>

definition named_mods :: "srv \<Rightarrow> bool" where
  "named_mods st \<longleftrightarrow> (\<forall>j. in_tab j (g_tab st) \<and> g_name (grp st j) = [] \<longrightarrow> g_mod (grp st j) = -1)"

text \<open>The groups that user \<open>n\<close> moderates.\<close>

definition modded :: "int \<Rightarrow> srv \<Rightarrow> nat list" where
  "modded n st = filter (\<lambda>k. g_mod (g_tab st ! k) = n) [0..<length (g_tab st)]"

lemma check_mods_modded: "check_mods n st = -1 \<longleftrightarrow> modded n st = []"
proof -
  have "check_mods n st = -1 \<longleftrightarrow> \<not> (\<exists>g \<in> set (g_tab st). g_mod g = n)"
    using find_index_nonneg [of "\<lambda>g. g_mod g = n" "g_tab st"] find_index_lower [of "\<lambda>g. g_mod g = n" "g_tab st"]
    unfolding check_mods_def by linarith
  also have "\<dots> \<longleftrightarrow> modded n st = []"
    by (simp add: modded_def filter_empty_conv Ball_def all_set_conv_all_nth [of "g_tab st", unfolded Ball_def])
  finally show ?thesis .
qed

lemma modded_upd:
  assumes "in_tab i (g_tab st)" "g_mod (grp st i) = n" "g_mod (f (grp st i)) \<noteq> n"
  shows "length (modded n (upd_g i f st)) < length (modded n st)"
proof -
  let ?k = "nat i"
  have k: "?k < length (g_tab st)" "grp st i = g_tab st ! ?k" using assms(1) by (auto simp: in_tab_def grp_def)
  have "set (modded n (upd_g i f st)) \<subset> set (modded n st)"
    using assms k by (auto simp: modded_def g_tab_upd_g nth_list_update split: if_splits)
  moreover have "distinct (modded n (upd_g i f st))" "distinct (modded n st)" by (simp_all add: modded_def)
  ultimately show ?thesis by (metis distinct_card psubset_card_mono finite_set)
qed

lemma group_emits:
  assumes "net_ok st" "in_tab j (g_tab st)"
  shows "\<exists>ps r. s_status_group 2 t j c m st = emits ps r st"
  using s_status_group_emits [of st 2 j t c m] assms by auto

text \<open>One turn of the loop of \<open>s_lost_user\<close> over the groups without a moderator.\<close>

lemma lost_mods_step:
  assumes "net_ok st" "0 \<le> check_mods n st"
    and "0 < count_users_in_group (g_name (grp st (check_mods n st))) st"
    and "u_login (usr st n) < LOGIN_COMPLETE"
  shows "\<exists>ps r f. lost_mods (Suc k) n reg nm st =
      lost_mods k n reg nm (emits ps r (upd_g (check_mods n st) f st)) \<and>
    (\<forall>g. g_name (f g) = g_name g) \<and> (\<forall>g. g_mod (f g) \<noteq> n \<or> n < 0) \<and>
    (\<forall>s g. length (u_tab s) = length (u_tab st) \<longrightarrow> group_ok s g \<longrightarrow> group_ok s (f g))"
proof -
  let ?i = "check_mods n st"
  note i = check_mods_found [OF assms(2)]
  show ?thesis
  proof (cases reg)
    case True
    obtain ps r where s: "s_status_group 2 False ?i ''Mod''
        (''Your group moderator signed off. ('' @ dec_int MOD_TIMEOUT @ '' second timeout)'') st = emits ps r st"
      using group_emits [OF assms(1) i(1)] by blast
    let ?f = "\<lambda>g. g\<lparr>g_mod := -1, g_missingmod := nm, g_modtimeout := now st + MOD_TIMEOUT\<rparr>"
    have "lost_mods (Suc k) n reg nm st = lost_mods k n reg nm (emits ps r (upd_g ?i ?f st))"
      using assms(2,3) True s by (simp add: Let_def)
    then show ?thesis
      by (intro exI [of _ ps] exI [of _ r] exI [of _ ?f]) (auto simp: group_ok_def group_lists_def)
  next
    case False
    obtain ps r where s: "(if g_volume (grp st ?i) \<noteq> QUIET then s_status_group 2 False ?i ''Sign-off''
        ''Your group moderator signed off. (No timeout)'' st else st) = emits ps r st"
      using group_emits [OF assms(1) i(1)] emits_Nil [of st] by metis
    let ?nm = "least_idle (member_of ?i (emits ps r st)) (emits ps r st)"
    let ?f = "\<lambda>g. g\<lparr>g_mod := ?nm\<rparr>"
    let ?s = "upd_g ?i ?f (emits ps r st)"
    have nm: "?nm = -1 \<or> in_tab ?nm (u_tab st) \<and> ?nm \<noteq> n"
      using least_idle_cases [of "member_of ?i (emits ps r st)" "emits ps r st"] assms(4)
      by (auto simp: member_of_def)
    obtain ps' r' where s': "(if ?nm \<ge> 0 then s_status_group 2 False ?i ''Pass''
        (u_nickname (usr ?s ?nm) @ '' is now mod.'') ?s else ?s) = emits ps' r' ?s"
      using group_emits [of ?s ?i] assms(1) i(1) emits_Nil [of ?s] by (metis emits_simps(16) emits_simps(2) in_tab_upd(2) net_ok_simps(2))
    have "lost_mods (Suc k) n reg nm st = lost_mods k n reg nm (emits ps' r' ?s)"
      using assms(2,3) False s s' by (simp add: Let_def)
    moreover have "emits ps' r' ?s = emits (ps @ ps') (r \<or> r') (upd_g ?i ?f st)" by simp
    ultimately show ?thesis
      using nm by (intro exI [of _ "ps @ ps'"] exI [of _ "r \<or> r'"] exI [of _ ?f])
        (auto simp: group_ok_def group_lists_def in_tab_def)
  qed
qed

text \<open>The loop ends: every turn takes one group from the list, and nobody is given it to.\<close>

lemma lost_mods_ends:
  assumes "safe s0 st" "u_login (usr st n) < LOGIN_COMPLETE" "0 \<le> n"
    and "\<And>j. in_tab j (g_tab st) \<Longrightarrow> g_mod (grp st j) = n \<Longrightarrow> 0 < count_users_in_group (g_name (grp st j)) st"
    and "length (modded n st) < k"
  shows "\<exists>st'. lost_mods k n reg nm st = Some st' \<and> calm st st' \<and> u_tab st' = u_tab st \<and>
    modded n st' = [] \<and> (\<forall>j. g_name (grp st j) = [] \<longrightarrow> grp st' j = grp st j)"
  using assms
proof (induction k arbitrary: st)
  case 0
  then show ?case by simp
next
  case (Suc k)
  note ok = safeD [OF Suc.prems(1)]
  show ?case
  proof (cases "check_mods n st = -1")
    case True
    then show ?thesis using calm_refl [OF ok] check_mods_modded by simp
  next
    case False
    let ?i = "check_mods n st"
    have pos: "0 \<le> ?i" using False find_index_lower [of "\<lambda>g. g_mod g = n" "g_tab st"] by (simp add: check_mods_def)
    note i = check_mods_found [OF pos]
    have cnt: "0 < count_users_in_group (g_name (grp st ?i)) st" using Suc.prems(4) [OF i] .
    then have ne: "g_name (grp st ?i) \<noteq> []" by (auto simp: count_users_in_group_def)
    obtain ps r f where step: "lost_mods (Suc k) n reg nm st = lost_mods k n reg nm (emits ps r (upd_g ?i f st))"
      and f: "\<And>g. g_name (f g) = g_name g" "\<And>g. g_mod (f g) \<noteq> n" "\<And>g. group_ok st g \<Longrightarrow> group_ok st (f g)"
      using lost_mods_step [OF ok(2) pos cnt Suc.prems(2)] Suc.prems(3) by (metis not_le)
    let ?s = "emits ps r (upd_g ?i f st)"
    have c: "calm st ?s" using calm_refl [OF ok] i(1) f by (intro calm_emits calm_upd_g) auto
    have s: "safe s0 ?s" using safe_trans [OF Suc.prems(1) calm_safe [OF c]] .
    have cg: "count_users_in_group x ?s = count_users_in_group x st" for x by (simp add: count_users_in_group_def)
    have "length (modded n (upd_g ?i f st)) < length (modded n st)" using modded_upd [OF i] f(2) by blast
    then have l: "length (modded n ?s) < k" using Suc.prems(5) by (simp add: modded_def)
    have m: "0 < count_users_in_group (g_name (grp ?s j)) ?s" if "in_tab j (g_tab ?s)" "g_mod (grp ?s j) = n" for j
      using that Suc.prems(4) [of j] f cg by (auto split: if_splits)
    obtain st' where st': "lost_mods k n reg nm ?s = Some st'" "calm ?s st'" "u_tab st' = u_tab ?s" "modded n st' = []"
        "\<And>j. g_name (grp ?s j) = [] \<Longrightarrow> grp st' j = grp ?s j"
      using Suc.IH [OF s _ Suc.prems(3) m l] Suc.prems(2) by auto
    have "calm st st'"
      using c st'(2) safe_trans [OF calm_safe [OF c] calm_safe [OF st'(2)]] by (auto simp: calm_def)
    moreover have "grp st' j = grp st j" if "g_name (grp st j) = []" for j
      using st'(5) [of j] that ne f(1) i(1) by auto
    ultimately show ?thesis using step st' by auto
  qed
qed

text \<open>After the user's entry is cleared and, if it was the last one in its group, the group's.\<close>

lemma left_group:
  assumes s: "safe s0 st" "in_tab n (u_tab st)" and g: "u_group (usr st n) \<noteq> []"
    and inh: "inhabited st" and nm: "named_mods st"
  defines "ogi \<equiv> find_group (u_group (usr st n)) st"
  defines "s1 \<equiv> clear_user_item n st"
  defines "s2 \<equiv> (if 0 < count_users_in_group (u_group (usr st n)) s1 then s1 else clear_group_item ogi s1)"
  shows "safe s0 s2" "inhabited s2" "named_mods s2" "u_tab s2 = (u_tab st)[nat n := cleared_user (usr st n)]"
proof -
  have ok: "srv_ok st" using s(1) safeD by blast
  have n0: "in_tab n (u_tab s0)" using s safe_tab by simp
  note tabs = clear_user_item_tabs [OF s(2)]
  have pos: "0 \<le> ogi" using srv_okD(5) [OF ok] s(2) g by (simp add: ogi_def users_housed_def)
  have ogi: "in_tab ogi (g_tab st)" "strcaseeq (g_name (grp st ogi)) (u_group (usr st n))"
    using find_group_found [of "u_group (usr st n)" st] pos by (simp_all add: ogi_def)
  have s1: "safe s0 s1" unfolding s1_def by (rule safe_clear_user_item [OF s(1) n0])
  have cnt: "count_users_in_group (u_group (usr st n)) s1 = count_users_in_group (g_name (grp s1 ogi)) s1"
    using ogi(2) g strcaseeq_trans' [of "g_name (grp st ogi)" "u_group (usr st n)"]
    by (auto simp: s1_def count_users_in_group_def clear_user_item_usr(2) [OF s(2)] strcaseeq_def)
  show safe2: "safe s0 s2"
    using s1 safe_clear_group_item [OF s1, of ogi] ogi(1) cnt s(1) safe_tab(2) [OF s(1)] by (auto simp: s2_def)
  show u2: "u_tab s2 = (u_tab st)[nat n := cleared_user (usr st n)]"
    using tabs(1) by (simp add: s2_def s1_def clear_group_item_def)
  have usr2: "usr s2 k = (if k = n then cleared_user (usr st n) else usr st k)" for k
    using clear_user_item_usr(1) [OF s(2)] by (simp add: s2_def s1_def clear_group_item_def)
  have grp2: "grp s2 j = grp st j \<or> j = ogi \<and> grp s2 j = cleared_group (grp st j) \<and>
      \<not> 0 < count_users_in_group (u_group (usr st n)) s1" for j
    using clear_user_item_usr(2) [OF s(2)] tabs(2) ogi(1) by (auto simp: s2_def s1_def clear_group_item_def)
  have len2: "in_tab j (g_tab s2) = in_tab j (g_tab st)" "in_tab j (u_tab s2) = in_tab j (u_tab st)" for j
    using safe2 safe_tab [OF s(1)] safe_tab [OF safe2] by auto
  have c0: "g_name (cleared_group x) = [] \<and> g_mod (cleared_group x) = -1" for x by (simp add: cleared_group_def)
  show "inhabited s2"
    unfolding inhabited_def
  proof (intro allI impI, elim conjE)
    fix j assume j: "in_tab j (g_tab s2)" "g_name (grp s2 j) \<noteq> []"
    then have gj: "grp s2 j = grp st j" using grp2 [of j] c0 by auto
    then obtain k where k: "in_tab k (u_tab st)" "strcaseeq (u_group (usr st k)) (g_name (grp st j))"
      using inh j len2 by (auto simp: inhabited_def count_users_tab)
    show "0 < count_users_in_group (g_name (grp s2 j)) s2"
    proof (cases "k = n")
      case False
      then show ?thesis using k j gj usr2 len2 by (auto simp: count_users_tab)
    next
      case True
      then have "j = ogi" using find_group_unique [OF srv_okD(4) [OF ok], of j "u_group (usr st n)"] k(2) g j(1) len2
        by (auto simp: ogi_def strcaseeq_sym)
      have "grp s2 ogi = cleared_group (grp st ogi)" if "\<not> 0 < count_users_in_group (u_group (usr st n)) s1"
        using that ogi(1) tabs(2) clear_user_item_usr(2) [OF s(2)] by (simp add: s2_def s1_def clear_group_item_def)
      then have "0 < count_users_in_group (u_group (usr st n)) s1" using j(2) c0 \<open>j = ogi\<close> by metis
      then show ?thesis using cnt \<open>j = ogi\<close> by (simp add: s2_def)
    qed
  qed
  show "named_mods s2"
    using nm grp2 c0 len2 unfolding named_mods_def by metis
qed

text \<open>The group is told that the user left, if it is still in use and not quiet.\<close>

lemma sign_off_emits:
  assumes "net_ok s" "in_tab gi (g_tab s)"
  shows "\<exists>ps r. (if busy then (if loud then s_status_group 2 False gi ''Sign-off'' m s else s) else s') =
    emits ps r (if busy then s else s')"
  using group_emits [OF assms, of False "''Sign-off''" m] emits_Nil [of s] emits_Nil [of s']
  by (cases busy; cases loud) metis+

lemma modded_length: "length (modded n st) \<le> length (g_tab st)"
  using length_filter_le [of "\<lambda>k. g_mod (g_tab st ! k) = n" "[0..<length (g_tab st)]"] by (simp add: modded_def)

text \<open>
  Everything before the loop over the groups without a moderator: the user's entry is blank, the
  group left behind is in use only if somebody is in it, and the sign-off message has been sent.\<close>

lemma s_lost_user_signoff:
  assumes "srv_ok st" "net_ok st" "inhabited st" "named_mods st"
    and "n < MAX_REAL_USERS st" "in_group n st" "u_login (usr st n) \<noteq> LOGIN_FALSE"
  obtains s reg nm where "\<And>fuel. s_lost_user fuel n st = map_option (Pair 0) (lost_mods fuel n reg nm s)"
    and "safe st s" "inhabited s" "named_mods s"
    and "\<And>k. usr s k = (if k = n then cleared_user (usr st n) else usr st k)"
proof -
  note t = in_groupD [OF assms(1,6)]
  have g: "u_group (usr st n) \<noteq> []" using assms(6) by (simp add: in_group_def)
  have ln: "length (u_group (usr st n)) \<le> MAX_GROUPLEN"
    using srv_ok_usr [OF assms(1) t(1)] by (simp add: user_ok_def)
  let ?s0 = "notify_off n st"
  note no = calm_notify_off [OF assms(1,2,6)]
  have s0: "safe st ?s0" using calm_safe [OF no(1)] .
  have tab0: "in_tab n (u_tab ?s0)" using t(1) no(2) by simp
  have u0: "usr ?s0 k = usr st k" "grp ?s0 j = grp st j" for k j
    using no(2,3) by (simp_all add: usr_def grp_def)
  have inh0: "inhabited ?s0" using inhabited_calm [OF no(1) assms(3)] .
  have nm0: "named_mods ?s0" using assms(4) no(3) u0 by (simp add: named_mods_def)
  let ?ogi = "find_group (u_group (usr st n)) st"
  have og: "find_group (u_group (usr st n)) x = ?ogi" if "g_tab x = g_tab st" for x
    using that by (simp add: find_group_def)
  let ?s1 = "clear_user_item n ?s0"
  let ?s2 = "if 0 < count_users_in_group (u_group (usr st n)) ?s1 then ?s1 else clear_group_item ?ogi ?s1"
  note L = left_group [OF s0 tab0 _ inh0 nm0, unfolded u0 og [OF no(3)], OF g]
  note t1 = clear_user_item_tabs [OF tab0]
  have tg1: "g_tab ?s1 = g_tab st" using t1(2) no(3) by simp
  have "net_ok ?s1" "in_tab ?ogi (g_tab ?s1)" using t1(4) safeD(2) [OF s0] t(2) tg1 by simp_all
  from sign_off_emits [OF this] obtain ps r where em: "(if count_users_in_group (u_group (usr st n)) ?s1 > 0 then
        (if g_volume (grp ?s1 ?ogi) \<noteq> QUIET then
           s_status_group 2 False ?ogi ''Sign-off''
             ((u_nickname (usr st n) @ '' ('' @ u_loginid (usr st n) @ ''@'' @ u_nodeid (usr st n) @ '')'') @
              (if S_kill st ! nat n > 0 then '' has been disconnected.'' else '' has signed off.'')) ?s1
         else ?s1)
       else clear_group_item ?ogi ?s1) = emits ps r ?s2"
    by blast
  have u2: "usr ?s2 k = (if k = n then cleared_user (usr st n) else usr st k)" for k
    using L(4) no(2) t(1) by (auto simp: usr_def in_tab_def nth_list_update nat_eq_iff)
  show thesis
  proof (rule that)
    show "s_lost_user fuel n st = map_option (Pair 0)
        (lost_mods fuel n (u_realname (usr st n) \<noteq> []) (take MAX_NICKLEN (u_nickname (usr st n))) (emits ps r ?s2))" for fuel
      unfolding em [symmetric] using assms(5,7) t ln og [OF tg1] in_tab_nonneg [OF t(2)]
      by (simp add: s_lost_user_def Let_def cong: if_cong split del: if_split)
    show "safe st (emits ps r ?s2)" using safe_emits [OF L(1)] .
    show "inhabited (emits ps r ?s2)" using L(2) inhabited_cong [of "emits ps r ?s2" ?s2] by simp
    show "named_mods (emits ps r ?s2)" using L(3) by (simp add: named_mods_def)
    show "usr (emits ps r ?s2) k = (if k = n then cleared_user (usr st n) else usr st k)" for k
      using u2 by simp
  qed
qed

text \<open>
  C40 (losing a client ends and cleans up): when the connection of a user who is in a group is
  lost, the loop that looks for groups without a moderator ends (as many turns as there are
  groups suffice, provided only groups in use have moderators and no group in use is empty);
  afterwards the user's entry is blank, no other user's entry has changed, the user moderates no
  group, the tables are well-formed, every group in use has a user, and nothing was accessed out
  of range.\<close>

theorem s_lost_user_ends:
  assumes "srv_ok st" "net_ok st" "inhabited st" "named_mods st"
    and "0 \<le> n" "n < MAX_REAL_USERS st" "in_group n st" "u_login (usr st n) \<noteq> LOGIN_FALSE"
    and "length (g_tab st) < fuel"
  shows "\<exists>st'. s_lost_user fuel n st = Some (0, st') \<and> srv_ok st' \<and> inhabited st' \<and> named_mods st' \<and>
    fault st' = fault st \<and> u_login (usr st' n) = LOGIN_FALSE \<and> u_group (usr st' n) = [] \<and>
    u_nickname (usr st' n) = [] \<and> (\<forall>k. k \<noteq> n \<longrightarrow> usr st' k = usr st k) \<and>
    \<not> list_ex (\<lambda>g. g_mod g = n) (g_tab st')"
proof -
  obtain s reg nm where e: "\<And>fuel. s_lost_user fuel n st = map_option (Pair 0) (lost_mods fuel n reg nm s)"
    and s: "safe st s" "inhabited s" "named_mods s"
    and u: "\<And>k. usr s k = (if k = n then cleared_user (usr st n) else usr st k)"
    using s_lost_user_signoff [OF assms(1-4,6-8)] by metis
  have "length (modded n s) < fuel" using assms(9) s(1) modded_length [of n s] by (simp add: safe_def)
  moreover have "0 < count_users_in_group (g_name (grp s j)) s" if "in_tab j (g_tab s)" "g_mod (grp s j) = n" for j
    using s(2,3) that assms(5) unfolding inhabited_def named_mods_def by force
  moreover have "u_login (usr s n) < LOGIN_COMPLETE" using u by (simp add: cleared_user_def)
  ultimately obtain x where x: "lost_mods fuel n reg nm s = Some x" "calm s x" "u_tab x = u_tab s" "modded n x = []"
      "\<And>j. g_name (grp s j) = [] \<Longrightarrow> grp x j = grp s j"
    using lost_mods_ends [OF s(1) _ assms(5), of fuel reg nm] by blast
  have "s_lost_user fuel n st = Some (0, x)" using e x(1) by simp
  moreover have "safe st x" using safe_trans [OF s(1) calm_safe [OF x(2)]] .
  moreover have "inhabited x" using inhabited_calm [OF x(2) s(2)] .
  moreover have "named_mods x"
    using s(3) x(5) calm_tab(2) [OF x(2)] x(2) unfolding named_mods_def calm_def by metis
  moreover have "usr x k = usr s k" for k using x(3) by (simp add: usr_def)
  moreover have "\<not> list_ex (\<lambda>g. g_mod g = n) (g_tab x)"
    using x(4) by (fastforce simp: modded_def filter_empty_conv list_ex_iff in_set_conv_nth)
  ultimately show ?thesis using u by (auto simp: safe_def cleared_user_def)
qed

text \<open>Witness: \<open>ann\<close>, who moderates \<open>cafe\<close>, is lost; five turns are enough.\<close>

theorem s_lost_user_ends_witness:
  "\<exists>st'. s_lost_user 5 0 demo = Some (0, st') \<and> u_nickname (usr st' 0) = [] \<and> usr st' 1 = usr demo 1 \<and>
     \<not> list_ex (\<lambda>g. g_mod g = 0) (g_tab st')"
proof -
  have "in_group 0 demo" by (simp add: in_group_def in_tab_def demo_user_def)
  moreover have "named_mods demo" unfolding named_mods_def demo_cases by (auto simp: blank_group_def)
  moreover have "u_login (usr demo 0) \<noteq> LOGIN_FALSE" "0 < MAX_REAL_USERS demo" "length (g_tab demo) < 5"
    by (simp_all add: demo_user_def)
  ultimately show ?thesis
    using s_lost_user_ends [of demo 0 5] demo_ok demo_inhabited by fastforce
qed

end
