(* ===== verification/Msgs.thy ===== *)
theory Msgs
  imports Admin Events
begin

text \<open>
  \<open>server/msgs.c\<close> and \<open>server/dispatch.c\<close>: what the server does with the packets of a client.
  A command to the server user is a command of its own, so running a command can run another
  one; the recursion has fuel, and running out of it is a fault.
\<close>

unbundle bit_operations_syntax

section \<open>Permissions\<close>

text \<open>\<open>strtok\<close>: the next token and what follows it.\<close>

definition strtok :: "cstring \<Rightarrow> cstring \<Rightarrow> (cstring \<times> cstring) option" where
  "strtok delims s =
     (let s = dropWhile (\<lambda>c. c \<in> set delims) s
      in if s = [] then None
         else Some (takeWhile (\<lambda>c. c \<notin> set delims) s, drop 1 (dropWhile (\<lambda>c. c \<notin> set delims) s)))"

lemma strtok_shorter: "strtok d s = Some (t, r) \<Longrightarrow> length r < length s"
proof -
  assume a: "strtok d s = Some (t, r)"
  let ?s = "dropWhile (\<lambda>c. c \<in> set d) s"
  have s: "?s \<noteq> []" "r = drop 1 (dropWhile (\<lambda>c. c \<notin> set d) ?s)"
    using a by (auto simp: strtok_def Let_def split: if_splits)
  have "length (dropWhile (\<lambda>c. c \<notin> set d) ?s) \<le> length ?s" "length ?s \<le> length s"
    by (simp_all add: length_dropWhile_le)
  moreover have "length ?s > 0" using s(1) by simp
  ultimately show ?thesis unfolding s(2) length_drop by linarith
qed

function tokens_of :: "cstring \<Rightarrow> cstring \<Rightarrow> cstring list" where
  "tokens_of d s = (case strtok d s of None \<Rightarrow> [] | Some (t, r) \<Rightarrow> t # tokens_of d r)"
  by pat_completeness auto
termination by (relation "measure (\<lambda>(d, s). length s)") (auto simp: strtok_shorter)

declare tokens_of.simps [simp del]

abbreviation (input) PERM_NULL :: int where "PERM_NULL \<equiv> 0"
abbreviation (input) PERM_DENY :: int where "PERM_DENY \<equiv> 1"

text \<open>The value of a list of permissions; an empty list makes the function read a null pointer.\<close>

definition perm2val :: "cstring \<Rightarrow> int option" where
  "perm2val str =
     (let ts = tokens_of ''|'' str
      in if ts = [] then None
         else Some (fold (\<lambda>t perm. if strcaseeq t ''perm_null'' then perm OR PERM_NULL
                                   else if strcaseeq t ''perm_deny'' then perm OR PERM_DENY
                                   else if strcaseeq t ''perm_slowmsgs'' then perm OR PERM_SLOWMSGS
                                   else perm) ts PERM_NULL))"

definition BUFSIZ :: nat where "BUFSIZ = 8192"

text \<open>The lines that \<open>fgets\<close> reads into a buffer of \<open>BUFSIZ\<close> bytes.\<close>

function fgets_lines :: "string \<Rightarrow> cstring list" where
  "fgets_lines s =
     (if s = [] then []
      else let k = min (length (takeWhile (\<lambda>c. c \<noteq> CHR 0x0A) s) + 1) (BUFSIZ - 1)
        in c_str (take k s) # fgets_lines (drop k s))"
  by pat_completeness auto
termination by (relation "measure length") (auto simp: BUFSIZ_def)

declare fgets_lines.simps [simp del]

text \<open>One line of the file: the permission if the line applies to this user.\<close>

definition perm_line :: "int \<Rightarrow> cstring \<Rightarrow> srv \<Rightarrow> cstring \<Rightarrow> (int option) option" where
  "perm_line n login st line =
     (if line = [] \<or> hd line \<in> set [CHR 0x0A, CHR 0x09, CHR ''#''] then None
      else case strtok [CHR '' '', CHR 0x09] line of None \<Rightarrow> None
      | Some (type, r1) \<Rightarrow> (case strtok [CHR '' '', CHR 0x09] r1 of None \<Rightarrow> None
      | Some (arg1, r2) \<Rightarrow> (case strtok [CHR '' '', CHR 0x09] r2 of None \<Rightarrow> None
      | Some (arg2, r3) \<Rightarrow> (case strtok [CHR '' '', CHR 0x09, CHR 0x0A] r3 of None \<Rightarrow> None
      | Some (perms, _) \<Rightarrow>
          if strcaseeq type ''user'' then
            (if strcaseeq arg1 login \<and> strcaseeq arg2 (u_nodeid (usr st n)) then Some (perm2val perms) else None)
          else if strcaseeq type ''mask'' then
            (case peer_v4 (world st) n of
               Some (Some client) \<Rightarrow>
                 (if client AND inet_addr (world st) arg2 = inet_addr (world st) arg1
                  then Some (perm2val perms) else None)
             | _ \<Rightarrow> None)
          else None))))"

fun first_some :: "('a \<Rightarrow> 'b option) \<Rightarrow> 'a list \<Rightarrow> 'b option" where
  "first_some f [] = None"
| "first_some f (x # xs) = (case f x of None \<Rightarrow> first_some f xs | Some y \<Rightarrow> Some y)"

definition get_perms :: "int \<Rightarrow> cstring \<Rightarrow> srv \<Rightarrow> int \<times> srv" where
  "get_perms n login st =
     (if peer_v4 (world st) n = None then
        (-1, senderror n (''getpeername() failed: '' @ errno_text (world st)) st)
      else case read_file (world st) ''./icbd.perms'' of
             None \<Rightarrow> (PERM_NULL, st)
           | Some s \<Rightarrow>
               (case first_some (perm_line n login st) (fgets_lines s) of
                  None \<Rightarrow> (PERM_NULL, st)
                | Some None \<Rightarrow> (PERM_NULL, flag_fault True st)
                | Some (Some p) \<Rightarrow> (p, st)))"

section \<open>Open messages\<close>

definition spam_check :: "int \<Rightarrow> srv \<Rightarrow> srv" where
  "spam_check n st =
     (if u_group (usr st n) = ''1'' then
        (let st = st\<lparr>u_recv_count := (u_recv_count st)[nat n := u_recv_count st ! nat n + 1]\<rparr>
         in if u_t_recv (usr st n) = now st then
              (if u_recv_count st ! nat n > 2 then
                 (let st = sendstatus n ''Boot'' ''No spamming in group 1.'' st;
                      st = s_status_group 1 True n ''Boot''
                             (u_nickname (usr st n) @ '' was auto-booted for spamming.'') st;
                      st = st\<lparr>pfields := (pfields st)[1 := ''ICB''], is_booting := True\<rparr>;
                      st = snd (s_change n 2 st)
                  in st\<lparr>is_booting := False\<rparr>)
               else st)
            else st\<lparr>u_recv_count := (u_recv_count st)[nat n := 0]\<rparr>)
      else st)"

definition may_talk :: "int \<Rightarrow> int \<Rightarrow> srv \<Rightarrow> bool" where
  "may_talk n gi st \<longleftrightarrow>
     \<not> (g_control (grp st gi) = CONTROLLED \<and> g_mod (grp st gi) \<noteq> n \<and>
        \<not> nl_present (u_nickname (usr st n)) (n_talk (grp st gi)) \<and>
        (u_realname (usr st n) = [] \<or> \<not> nl_present (u_nickname (usr st n)) (nr_talk (grp st gi))))"

definition split_packet :: "cstring \<Rightarrow> srv \<Rightarrow> int \<times> srv" where
  "split_packet pkt st =
     (let (fs, k) = split pkt
      in (int k, flag_fault (length fs > MAX_FIELDS) (st\<lparr>pfields := store_fields (pfields st) fs\<rparr>)))"

definition openmsg :: "int \<Rightarrow> cstring \<Rightarrow> srv \<Rightarrow> srv" where
  "openmsg n pkt st =
     (let st = need_u n st
      in if u_login (usr st n) < LOGIN_COMPLETE then st
         else let st = (if u_awaymsg (usr st n) \<noteq> []
                        then sendstatus n ''Away'' ''Your away is still set...'' st else st);
                  st = spam_check n st;
                  st = upd_u n (\<lambda>u. u\<lparr>u_t_recv := now st\<rparr>) st;
                  (k, st) = split_packet pkt st
           in if k \<noteq> 1 then st
              else let gi = find_group (u_group (usr st n)) st;
                       st = need_g gi st
                in if g_volume (grp st gi) = QUIET then
                     senderror n ''Open messages not permitted in quiet groups.'' st
                   else if \<not> may_talk n gi st then
                     (let st = senderror n ''You do not have permission to send open messages in this group.'' st;
                          st = need_u (g_mod (grp st gi)) st
                      in sendstatus n ''INFO'' (''Use '' @ [CHR 0x22] @ ''/m '' @ u_nickname (usr st (g_mod (grp st gi)))
                           @ '' may i talk?'' @ [CHR 0x22] @ '' to request permission.'') st)
                   else if count_users_in_group (g_name (grp st gi)) st < 2 then
                     senderror n ''No one else in group!'' st
                   else snd (s_send_group n st))"

section \<open>Logging in\<close>

definition is_space :: "char \<Rightarrow> bool" where
  "is_space c \<longleftrightarrow> c = CHR '' '' \<or> 9 \<le> byte_of c \<and> byte_of c \<le> 13"

definition buf_add :: "nat \<Rightarrow> cstring \<Rightarrow> char \<Rightarrow> cstring" where
  "buf_add cap buf c = (if length buf < cap \<and> c \<noteq> CHR 0x00 then buf @ [c] else buf)"

text \<open>
  The file of refused addresses: every word is a pattern. What follows the first one that
  matches, up to the end of the line, is the reason.
\<close>

fun deny_scan :: "cstring \<Rightarrow> cstring \<Rightarrow> string \<Rightarrow> string option" where
  "deny_scan one three [] = None"
| "deny_scan one three (c # cs) =
     (if is_space c then (if wild one (ucaseit three) then Some cs else deny_scan one [] cs)
      else deny_scan one (buf_add 254 three c) cs)"

definition deny_reason :: "string \<Rightarrow> cstring" where
  "deny_reason s = fold (\<lambda>c buf. buf_add 254 buf c) (takeWhile (\<lambda>c. c \<noteq> CHR 0x0A) s) []"

text \<open>A login that only asks for a listing. \<open>sprintf\<close> must not copy between overlapping fields.\<close>

definition who_login :: "bool \<Rightarrow> int \<Rightarrow> srv \<Rightarrow> srv" where
  "who_login with_group n st =
     (let f2 = field st 2;
          overlap = (with_group \<and> f2 \<noteq> [] \<and> length (field st 1) \<le> length f2);
          fs = (pfields st)[0 := ''w'', 1 := (if with_group then f2 else [])]
      in snd (s_who n 2 (flag_fault overlap (st\<lparr>pfields := fs\<rparr>))))"

definition init_lists :: "user_item \<Rightarrow> user_item" where
  "init_lists u = u\<lparr>pri_n_hushed := nl_init MAX_HUSHED, pub_n_hushed := nl_init MAX_HUSHED,
     pri_s_hushed := nl_init MAX_HUSHED, pub_s_hushed := nl_init MAX_HUSHED,
     n_notifies := nl_init MAX_NOTIFIES, s_notifies := nl_init MAX_NOTIFIES\<rparr>"

text \<open>The group of the login packet; a user's name after an at sign stands for its group.\<close>

definition login_group :: "int \<Rightarrow> cstring \<Rightarrow> srv \<Rightarrow> cstring option \<times> srv" where
  "login_group n which_group st =
     (if take 1 which_group = ''@'' then
        (let target = find_user (drop 1 which_group) st;
             refuse = senderror n ''User not found or is in a secret or invisible group.''
         in if target < 0 then (None, refuse st)
            else let g = find_group (u_group (usr st target)) st;
                     st = need_g g st
              in if (g_visibility (grp st g) = SUPERSECRET \<or> g_visibility (grp st g) = SECRET)
                    \<and> u_nickname (usr st n) \<noteq> ''ADMIN''
                 then (None, refuse st)
                 else (Some (u_group (usr st target)), st))
      else (Some which_group, st))"

definition login_register :: "int \<Rightarrow> srv \<Rightarrow> srv" where
  "login_register n st =
     (let (ret, st) = nicklookup (- n) (u_nickname (usr st n)) st;
          (ret, st) =
            (if ret = -2 then
               (let (ret, st) = (if u_password (usr st n) \<noteq> [] then
                                   (let (r, st) = nickwrite n (u_password (usr st n)) True st
                                    in (if r = 0 then 0 else ret, st))
                                 else (ret, st))
                in (ret, if ret \<noteq> 0
                         then report_missing n (sendstatus n ''Register''
                                ''Send password to authenticate your nickname.'' st)
                         else st))
             else (ret, st))
      in if ret = 0 then
           (if u_realname (usr st n) \<noteq> ''registered'' then
              (let st = sendstatus n ''Register'' ''Nick registered'' (set_registered n st);
                   st = snd (nickwritetime n 0 st)
               in report_msgs n (regain_mods n st))
            else st)
         else if ret \<noteq> -2 then
           sendstatus n ''No-Pass'' ''For help type /m server ?''
             (sendstatus n ''No-Pass'' ''Your nickname does not have a password.'' st)
         else st)"

definition login_invites :: "int \<Rightarrow> srv \<Rightarrow> srv" where
  "login_invites n st =
     (let nick = u_nickname (usr st n); one = addr_of st n; reg = (u_realname (usr st n) \<noteq> [])
      in fold (\<lambda>i st.
           if nl_present nick (n_invites (grp st i)) \<or> nl_match one (s_invites (grp st i)) \<or>
              nl_present nick (nr_invites (grp st i)) \<and> reg \<or> nl_match one (sr_invites (grp st i)) \<and> reg
           then sends_cmdout n (''Invited to: '' @ g_name (grp st i)) st else st) [0..MAX_GROUPS st - 1] st)"

definition notify_on :: "int \<Rightarrow> srv \<Rightarrow> srv" where
  "notify_on n st =
     (let one = addr_of st n;
          three = ucaseit (u_nickname (usr st n));
          msg = snprintf 255 (u_nickname (usr st n) @ '' ('' @ one @ '') has just signed on'')
      in fold (\<lambda>j st.
           if n \<noteq> j \<and> u_login (usr st j) \<ge> LOGIN_COMPLETE \<and>
              (nl_match three (n_notifies (usr st j)) \<or> nl_match one (s_notifies (usr st j)))
           then let gi = find_group (u_group (usr st n)) st;
                    st = need_g gi st
             in if g_visibility (grp st gi) \<noteq> SUPERSECRET then sendstatus j ''Notify-On'' msg st else st
           else st) [0..MAX_USERS st - 1] st)"

text \<open>From the acceptance of the login to the entry into the group.\<close>

definition login_enter :: "int \<Rightarrow> cstring \<Rightarrow> srv \<Rightarrow> int \<times> srv" where
  "login_enter n which_group st =
     (let st = snd (s_motd n 2 (send_loginok n st));
          (g, st) = login_group n which_group st
      in case g of
           None \<Rightarrow> (-1, st)
         | Some which_group \<Rightarrow>
             (let st = upd_u n (\<lambda>u. init_lists (u\<lparr>u_login := LOGIN_PENDING, u_t_on := now st,
                         u_t_recv := now st, u_t_sent := now st\<rparr>)) st;
                  st = sends_cmdout n (''Welcome to ICB '' @ u_nickname (usr st n)) st;
                  st = login_invites n (login_register n st);
                  st = (if u_realname (usr st n) \<noteq> ''registered''
                        then fold (talk_report n) [0..MAX_GROUPS st - 1] st else st);
                  (r, st) = s_change n 3 (st\<lparr>pfields := (pfields st)[1 := which_group]\<rparr>)
              in if r < 0 then (-1, st)
                 else let st = upd_u n (\<lambda>u. u\<lparr>u_login := LOGIN_COMPLETE\<rparr>) st;
                          st = st\<lparr>stats := (stats st)\<lparr>st_signons := st_signons (stats st) + 1\<rparr>\<rparr>
                   in (0, notify_on n st)))"

definition login_user :: "int \<Rightarrow> cstring \<Rightarrow> srv \<Rightarrow> int \<times> srv" where
  "login_user n which_group st =
     (let id = field st 0; nick = field st 1
      in if find_user nick st \<ge> 0 then (-1, senderror n ''Nickname already in use.'' st)
         else if nick = [] \<or> length nick > MAX_NICKLEN then
           (-1, senderror n (''Nickname must be between 1 and '' @ dec_nat MAX_NICKLEN @ '' characters.'') st)
         else if id = [] \<or> length id > MAX_IDLEN then
           (-1, senderror n (''Login id must be between 1 and '' @ dec_nat MAX_IDLEN @ '' characters.'') st)
         else if \<not> list_all is_alnum id then
           (-1, senderror n ''Login id must contain only alphanumeric characters.'' st)
         else let (perms, st) = get_perms n id st
           in if perms < 0 then (perms, st)
              else if perms AND PERM_DENY \<noteq> 0 then (-1, senderror n ''Login denied.'' st)
              else let st = (if perms \<noteq> PERM_NULL then
                               sendstatus n ''Permissions'' (if perms AND PERM_SLOWMSGS \<noteq> 0 then ''slowmsgs'' else []) st
                             else st);
                       cp = u_nodeid (usr st n);
                       one = ucaseit (id @ ''@'' @ cp);
                       denied = (case read_file (world st) ''./icbd.deny'' of
                                   None \<Rightarrow> None | Some s \<Rightarrow> deny_scan one [] s)
                in case denied of
                     Some rest \<Rightarrow>
                       (-1, senderror n (''Reason: '' @ deny_reason rest) (senderror n (''Login refused for '' @ one) st))
                   | None \<Rightarrow>
                       (let nick = filternickname nick;
                            st = st\<lparr>pfields := (pfields st)[1 := nick]\<rparr>;
                            st = fill_user_entry n (Some id) (Some cp) (Some nick) (Some (field st 4))
                                   (Some []) (Some []) LOGIN_FALSE 0 0 perms st
                        in if strcaseeq nick ''admin'' \<and> \<not> check_auth n st
                           then (-1, senderror n ''Nickname already in use.'' st)
                           else login_enter n which_group st))"

definition loginmsg :: "int \<Rightarrow> cstring \<Rightarrow> srv \<Rightarrow> int \<times> srv" where
  "loginmsg n pkt st =
     (let st = need_u n st
      in if u_login (usr st n) > LOGIN_FALSE then (1, senderror n ''Already logged in.'' st)
         else let st = upd_u n (\<lambda>u. u\<lparr>u_login := LOGIN_FALSE\<rparr>) st;
                  (k, st) = split_packet pkt st
           in if k < 4 then (-1, st)
              else let which_group = (if field st 2 = [] then ''1'' else take (MAX_NICKLEN + 3) (field st 2))
                in if strcaseeq (field st 3) ''w'' then (-1, who_login False n st)
                   else if strcaseeq (field st 3) ''wg'' then (-1, who_login True n st)
                   else if strcaseeq (field st 3) ''login'' then login_user n which_group st
                   else (-1, senderror n (''Unknown login type '' @ [CHR 0x22] @ field st 3 @ [CHR 0x22]) st))"

section \<open>Commands\<close>

definition run_command :: "cmd_fun \<Rightarrow> int \<Rightarrow> int \<Rightarrow> int \<Rightarrow> srv \<Rightarrow> srv" where
  "run_command cmdmsg which n argc st =
     (if which = 0 then snd (s_drop n argc st)
      else if which = 1 then snd (s_shutdown n argc st)
      else if which = 2 then snd (s_wall n argc st)
      else if which = 3 then snd (s_beep cmdmsg n argc st)
      else if which = 4 then snd (s_cancel n argc st)
      else if which = 5 then snd (s_change n argc st)
      else if which = 6 then snd (s_invite n argc st)
      else if which = 7 then snd (s_pass n argc st)
      else if which = 8 then snd (s_boot n argc st)
      else if which = 9 then snd (s_status n argc st)
      else if which = 10 then snd (s_topic n argc st)
      else if which = 11 then snd (s_motd n argc st)
      else if which = 12 then snd (s_personal cmdmsg n argc st)
      else if which = 13 then snd (s_echoback n argc st)
      else if which = 14 then snd (s_name n argc st)
      else if which = 15 then snd (s_version n argc st)
      else if which = 16 then snd (s_who n argc st)
      else if which = 17 then snd (s_info n argc st)
      else if which = 18 then snd (s_restart n argc st)
      else if which = 19 then snd (s_news n argc st)
      else if which = 20 \<or> which = 21 then snd (s_hush n argc st)
      else if which = 22 then snd (s_help n argc st)
      else if which = 23 then snd (s_exclude n argc st)
      else if which = 24 then snd (s_shuttime n argc st)
      else if which = 25 then snd (s_notify n argc st)
      else if which = 26 then snd (s_talk n argc st)
      else if which = 27 then snd (s_ping n argc st)
      else if which = 28 then snd (s_nobeep n argc st)
      else if which = 29 then snd (s_away n argc st)
      else if which = 30 then snd (s_noaway n argc st)
      else if which = 31 then snd (s_log n argc st)
      else if which = 32 then snd (s_server_stats n argc st)
      else if lookup (field st 0) auto_table \<ge> 0 then snd (s_auto cmdmsg n st)
      else sendstatus n ''Server'' ''Unknown command'' st)"

definition cmd_step :: "cmd_fun \<Rightarrow> int \<Rightarrow> cstring \<Rightarrow> srv \<Rightarrow> srv" where
  "cmd_step cmdmsg n pkt st =
     (let st = need_u n st
      in if u_login (usr st n) < LOGIN_COMPLETE then st
         else let st = upd_u n (\<lambda>u. u\<lparr>u_t_recv := now st\<rparr>) st;
                  (argc, st) = split_packet pkt st
           in run_command cmdmsg (lookup (field st 0) command_table) n argc st)"

fun cmdmsg :: "nat \<Rightarrow> int \<Rightarrow> cstring \<Rightarrow> srv \<Rightarrow> srv" where
  "cmdmsg 0 n pkt st = flag_fault True st"
| "cmdmsg (Suc k) n pkt st = cmd_step (cmdmsg k) n pkt st"

section \<open>Pong\<close>

definition pong :: "int \<Rightarrow> cstring \<Rightarrow> srv \<Rightarrow> srv" where
  "pong n pkt st =
     (let st = need_u n st
      in if u_login (usr st n) < LOGIN_COMPLETE then st
         else if pong_req st ! nat n \<noteq> -1 then
           (let d = tod (world st) - ping_time st ! nat n;
                st = sendstatus (pong_req st ! nat n) ''PONG''
                       (u_nickname (usr st n) @ '' client responded in '' @ dec_int (d div 1000000) @ ''.''
                          @ pad2 (d mod 1000000 div 10000) @ '' seconds.'') st
            in st\<lparr>pong_req := (pong_req st)[nat n := -1], ping_time := (ping_time st)[nat n := 0]\<rparr>)
         else sendstatus n ''PONG'' (''You were pinged, but they aren'' @ [CHR 0x27] @ ''t there to receive your pong.'') st)"

section \<open>Dispatch\<close>

definition unhandled :: "(char \<times> cstring) list" where
  "unhandled = [(CHR ''c'', ''PERSONAL''), (CHR ''d'', ''STATUS''), (CHR ''e'', ''ERROR''), (CHR ''f'', ''IMPORTANT''),
     (CHR ''g'', ''EXIT''), (CHR ''i'', ''CMDOUT''), (CHR ''j'', ''PROTO''), (CHR ''k'', ''BEEP''), (CHR ''l'', ''PING'')]"

definition dispatch :: "nat \<Rightarrow> int \<Rightarrow> cstring \<Rightarrow> srv \<Rightarrow> srv" where
  "dispatch fuel n pkt st =
     (case pkt of
        [] \<Rightarrow> senderror n (dec_int n @ '': Invalid packet type '' @ [CHR 0x22]) st
      | c # rest \<Rightarrow>
          if c = CHR ''a'' then
            (if n \<ge> MAX_REAL_USERS st then
               disconnect n (sendexit n (senderror n ''ICB is full.'' st))
             else let (r, st) = loginmsg n rest st
               in if r < 0 then
                    (let st = sendexit n st
                     in st\<lparr>S_kill := (S_kill st)[nat n := S_kill st ! nat n + 1]\<rparr>)
                  else st)
          else if c = CHR ''b'' then openmsg n rest st
          else if c = CHR ''h'' then cmdmsg fuel n rest st
          else if c = CHR ''m'' then pong n pkt st
          else if c = CHR ''n'' then st
          else case map_of unhandled c of
                 Some name \<Rightarrow>
                   senderror n (''Server doesn'' @ [CHR 0x27] @ ''t handle ICB_M_'' @ name @ '' packets'') st
               | None \<Rightarrow>
                   senderror n (dec_int n @ '': Invalid packet type '' @ [CHR 0x22, c, CHR 0x22] @ '' ('' @ pkt @ '')'') st)"

text \<open>\<open>s_packet\<close> of \<open>server/ipcf.c\<close>: the dispatch callback skips the length byte.\<close>

definition s_packet :: "nat \<Rightarrow> int \<Rightarrow> string \<Rightarrow> srv \<Rightarrow> srv" where
  "s_packet fuel n data st = dispatch fuel n (c_str (drop 1 data)) st"

end
