(* ===== verification/Frame.thy ===== *)
theory Frame
  imports Msgs
begin

text \<open>
  What no handler of the server touches. A property of the server's state that every elementary change keeps is
  kept by every operation, which is shown handler by handler in four locales:
  \<open>threaded\<close> has the rules that follow the structure of a handler; \<open>naming\<close> the operations that leave
  all nicknames alone and disconnect nobody (the group, user and most administration commands, the single idle checks);
  \<open>serving\<close> adds the ones that disconnect, clear an entry or change a nickname to a free one (up to \<open>cmdmsg\<close> and
  \<open>s_lost_user\<close>); \<open>frame\<close> adds the login (up to \<open>s_packet\<close>). A property that does not depend on the users'
  entries at all (locale \<open>free\<close>) is a frame. Each interpretation gives the whole server a theorem at once: here that
  the tables keep their sizes, that an access out of range is never forgotten, and that only well-formed
  packets for existing connections are sent; in theory \<open>NickProps\<close> that nicknames are unique.
\<close>

named_theorems framed

lemma refused_tab: "n \<ge> MAX_REAL_USERS st \<Longrightarrow> u_tab (sendexit n (senderror n m st)) = u_tab st"
  by (auto simp: sendexit_def senderror_def doSend0_def doSend_def ftext_def packet_text_def Let_def)

text \<open>A property of the state that is threaded through an operation.\<close>

locale threaded =
  fixes P :: "srv \<Rightarrow> bool"
begin

section \<open>The structure of a handler\<close>

text \<open>The rules follow the term: a state that is bound has the property where it is used.\<close>

lemma P_let: "P a \<Longrightarrow> (\<And>x. P x \<Longrightarrow> P (f x)) \<Longrightarrow> P (Let a f)"
  by (simp add: Let_def)

lemma P_let_pair: "P (snd a) \<Longrightarrow> (\<And>r x. P x \<Longrightarrow> P (f r x)) \<Longrightarrow> P (Let a (case_prod f))"
  by (cases a) simp

lemma P_let_val: "(\<And>x. P (f x)) \<Longrightarrow> P (Let (a :: 'z) f)"
  by (simp add: Let_def)

lemma P_if: "(c \<Longrightarrow> P a) \<Longrightarrow> (\<not> c \<Longrightarrow> P b) \<Longrightarrow> P (if c then a else b)"
  by simp

lemma P_option: "P a \<Longrightarrow> (\<And>x. P (f x)) \<Longrightarrow> P (case v of None \<Rightarrow> a | Some x \<Rightarrow> f x)"
  by (simp split: option.split)

lemma P_prod: "(\<And>x y. P (f x y)) \<Longrightarrow> P (case p of (x, y) \<Rightarrow> f x y)"
  by (simp split: prod.split)

lemma P_list: "P a \<Longrightarrow> (\<And>x xs. P (f x xs)) \<Longrightarrow> P (case v of [] \<Rightarrow> a | x # xs \<Rightarrow> f x xs)"
  by (simp split: list.split)

lemma P_snd: "P b \<Longrightarrow> P (snd (a, b))"
  by simp

lemma P_snd_let: "P a \<Longrightarrow> (\<And>x. P x \<Longrightarrow> P (snd (f x))) \<Longrightarrow> P (snd (Let a f))"
  by (simp add: Let_def)

lemma P_snd_let_pair: "P (snd a) \<Longrightarrow> (\<And>r x. P x \<Longrightarrow> P (snd (f r x))) \<Longrightarrow> P (snd (Let a (case_prod f)))"
  by (cases a) simp

lemma P_snd_let_val: "(\<And>x. P (snd (f x))) \<Longrightarrow> P (snd (Let (a :: 'z) f))"
  by (simp add: Let_def)

lemma P_snd_if: "(c \<Longrightarrow> P (snd a)) \<Longrightarrow> (\<not> c \<Longrightarrow> P (snd b)) \<Longrightarrow> P (snd (if c then a else b))"
  by simp

lemma P_snd_option: "P (snd a) \<Longrightarrow> (\<And>x. P (snd (f x))) \<Longrightarrow> P (snd (case v of None \<Rightarrow> a | Some x \<Rightarrow> f x))"
  by (simp split: option.split)

lemma P_snd_prod: "(\<And>x y. P (snd (f x y))) \<Longrightarrow> P (snd (case p of (x, y) \<Rightarrow> f x y))"
  by (simp split: prod.split)

lemma P_snd_pair: "P (snd (f x y)) \<Longrightarrow> P (snd (case (x, y) of (x, y) \<Rightarrow> f x y))"
  by simp

lemma P_fold: "(\<And>x s. P s \<Longrightarrow> P (f x s)) \<Longrightarrow> P st \<Longrightarrow> P (fold f xs st)"
  by (induction xs arbitrary: st) auto

lemma P_snd_fold: "(\<And>x r s. P s \<Longrightarrow> P (snd (f x (r, s)))) \<Longrightarrow> P (snd p) \<Longrightarrow> P (snd (fold f xs p))"
  by (induction xs arbitrary: p) (auto split: prod.splits, metis prod.collapse)

lemma P_let_pair_val: "(\<And>r x. P (f r x)) \<Longrightarrow> P (Let (a :: 'y \<times> 'z) (case_prod f))"
  by (cases a) simp

lemma P_snd_let_pair_val: "(\<And>r x. P (snd (f r x))) \<Longrightarrow> P (snd (Let (a :: 'y \<times> 'z) (case_prod f)))"
  by (cases a) simp

lemmas P_vals =
  P_prod [where 'b = cflags] P_snd_prod [where 'b = cflags] P_snd_prod [where 'b = hush_opts]
  P_let_pair_val [where 'z = nlist] P_let_pair_val [where 'z = bool] P_let_pair_val [where 'z = nat]
  P_let_pair_val [where 'z = "string list"] P_snd_let_pair_val [where 'z = nlist]
  P_snd_let_pair_val [where 'z = nat] P_snd_let_pair_val [where 'z = int] P_snd_prod [where 'b = int]
  P_snd_let_pair_val [where 'z = icbdb] P_snd_prod [where 'b = "string list"]
  P_prod [where 'b = "string list"]
 
  P_let_val [where 'z = int] P_let_val [where 'z = nat] P_let_val [where 'z = bool]
  P_let_val [where 'z = string] P_let_val [where 'z = "string list"] P_let_val [where 'z = user_item]
  P_let_val [where 'z = group_item] P_let_val [where 'z = nlist] P_let_val [where 'z = "int list"]
  P_let_val [where 'z = server_stats] P_let_val [where 'z = "string option"]
  P_let_val [where 'z = "srv \<Rightarrow> srv"] P_let_val [where 'z = cflags]
  P_snd_let_val [where 'z = int] P_snd_let_val [where 'z = nat] P_snd_let_val [where 'z = bool]
  P_snd_let_val [where 'z = string] P_snd_let_val [where 'z = "string list"] P_snd_let_val [where 'z = user_item]
  P_snd_let_val [where 'z = group_item] P_snd_let_val [where 'z = nlist] P_snd_let_val [where 'z = "int list"]
  P_snd_let_val [where 'z = server_stats] P_snd_let_val [where 'z = "string option"]
  P_snd_let_val [where 'z = "srv \<Rightarrow> srv"] P_snd_let_val [where 'z = cflags]

lemmas threads = P_let P_let_pair P_if P_option P_list P_snd P_snd_let P_snd_let_pair P_snd_if P_snd_option
  P_snd_pair P_fold P_snd_fold P_vals

end

text \<open>
  Changes of a user's entry that leave its nickname alone. All changes are of this kind but
  those of \<open>clear_user_item\<close>, \<open>rename\<close> and \<open>fill_user_entry\<close>.
\<close>

definition keeps_nick :: "(user_item \<Rightarrow> user_item) \<Rightarrow> bool" where
  "keeps_nick f \<longleftrightarrow> (\<forall>u. u_nickname (f u) = u_nickname u)"

lemma keeps_nick_fields [framed]:
  "keeps_nick (\<lambda>u. u)"
  "keeps_nick g \<Longrightarrow> keeps_nick (\<lambda>u. u_loginid_update (h0 u) (g u))"
  "keeps_nick g \<Longrightarrow> keeps_nick (\<lambda>u. u_nodeid_update (h1 u) (g u))"
  "keeps_nick g \<Longrightarrow> keeps_nick (\<lambda>u. u_password_update (h2 u) (g u))"
  "keeps_nick g \<Longrightarrow> keeps_nick (\<lambda>u. u_realname_update (h3 u) (g u))"
  "keeps_nick g \<Longrightarrow> keeps_nick (\<lambda>u. u_group_update (h4 u) (g u))"
  "keeps_nick g \<Longrightarrow> keeps_nick (\<lambda>u. u_awaymsg_update (h5 u) (g u))"
  "keeps_nick g \<Longrightarrow> keeps_nick (\<lambda>u. u_lastaway_update (h6 u) (g u))"
  "keeps_nick g \<Longrightarrow> keeps_nick (\<lambda>u. u_lastawaytime_update (h7 u) (g u))"
  "keeps_nick g \<Longrightarrow> keeps_nick (\<lambda>u. u_login_update (h8 u) (g u))"
  "keeps_nick g \<Longrightarrow> keeps_nick (\<lambda>u. u_echoback_update (h9 u) (g u))"
  "keeps_nick g \<Longrightarrow> keeps_nick (\<lambda>u. u_nobeep_update (h10 u) (g u))"
  "keeps_nick g \<Longrightarrow> keeps_nick (\<lambda>u. u_perms_update (h11 u) (g u))"
  "keeps_nick g \<Longrightarrow> keeps_nick (\<lambda>u. u_t_notify_update (h12 u) (g u))"
  "keeps_nick g \<Longrightarrow> keeps_nick (\<lambda>u. u_t_on_update (h13 u) (g u))"
  "keeps_nick g \<Longrightarrow> keeps_nick (\<lambda>u. u_t_sent_update (h14 u) (g u))"
  "keeps_nick g \<Longrightarrow> keeps_nick (\<lambda>u. u_t_recv_update (h15 u) (g u))"
  "keeps_nick g \<Longrightarrow> keeps_nick (\<lambda>u. u_t_group_update (h16 u) (g u))"
  "keeps_nick g \<Longrightarrow> keeps_nick (\<lambda>u. u_secure_update (h17 u) (g u))"
  "keeps_nick g \<Longrightarrow> keeps_nick (\<lambda>u. pri_n_hushed_update (h18 u) (g u))"
  "keeps_nick g \<Longrightarrow> keeps_nick (\<lambda>u. pub_n_hushed_update (h19 u) (g u))"
  "keeps_nick g \<Longrightarrow> keeps_nick (\<lambda>u. pri_s_hushed_update (h20 u) (g u))"
  "keeps_nick g \<Longrightarrow> keeps_nick (\<lambda>u. pub_s_hushed_update (h21 u) (g u))"
  "keeps_nick g \<Longrightarrow> keeps_nick (\<lambda>u. n_notifies_update (h22 u) (g u))"
  "keeps_nick g \<Longrightarrow> keeps_nick (\<lambda>u. s_notifies_update (h23 u) (g u))"
  by (simp_all add: keeps_nick_def)

lemma keeps_nick_lists [framed]: "keeps_nick (set_ul k l)" "keeps_nick g \<Longrightarrow> keeps_nick (\<lambda>u. init_lists (g u))"
  by (cases k) (simp_all add: keeps_nick_def init_lists_def)

text \<open>The elementary changes of the state, and every operation that leaves the nicknames alone.\<close>

locale naming = threaded +
  assumes P_upd_u: "P st \<Longrightarrow> keeps_nick f \<Longrightarrow> P (upd_u i f st)"
    and P_upd_g: "P st \<Longrightarrow> P (upd_g i g st)"
    and P_flag: "P st \<Longrightarrow> P (flag_fault b st)"
    and P_overread: "P st \<Longrightarrow> P (st\<lparr>overread := overread st \<or> b\<rparr>)"
    and P_send: "P st \<Longrightarrow> 0 \<le> d \<Longrightarrow> d < MAX_REAL_USERS st \<Longrightarrow> length body \<le> 254 \<Longrightarrow>
      P (st\<lparr>out := out st @ [(d, frame_packet body)]\<rparr>)"
    and P_kill: "P st \<Longrightarrow> length ks = length (S_kill st) \<Longrightarrow> P (st\<lparr>S_kill := ks\<rparr>)"
    and P_lpriv: "P st \<Longrightarrow> length ks = length (lpriv_id st) \<Longrightarrow> P (st\<lparr>lpriv_id := ks\<rparr>)"
    and P_pong: "P st \<Longrightarrow> length ks = length (pong_req st) \<Longrightarrow> P (st\<lparr>pong_req := ks\<rparr>)"
    and P_ping: "P st \<Longrightarrow> length ks = length (ping_time st) \<Longrightarrow> P (st\<lparr>ping_time := ks\<rparr>)"
    and P_recv: "P st \<Longrightarrow> length ks = length (u_recv_count st) \<Longrightarrow> P (st\<lparr>u_recv_count := ks\<rparr>)"
    and P_fields: "P st \<Longrightarrow> P (st\<lparr>pfields := fs\<rparr>)"
    and P_booting: "P st \<Longrightarrow> P (st\<lparr>is_booting := b\<rparr>)"
    and P_stats: "P st \<Longrightarrow> P (st\<lparr>stats := s\<rparr>)"
    and P_db: "P st \<Longrightarrow> P (st\<lparr>userdb := db\<rparr>)"
    and P_die: "P st \<Longrightarrow> P (st\<lparr>TimeToDie := t\<rparr>)"
    and P_notify: "P st \<Longrightarrow> P (st\<lparr>ShutdownNotify := t\<rparr>)"
    and P_log: "P st \<Longrightarrow> P (st\<lparr>log_level := t\<rparr>)"
    and P_halt: "P st \<Longrightarrow> P (st\<lparr>halted := b\<rparr>)"
begin

lemmas [framed] = P_upd_u P_upd_g P_flag P_overread P_fields P_booting P_stats P_db P_die P_notify P_log P_halt
  threads

lemma P_need [framed]: "P st \<Longrightarrow> P (need_u i st)" "P st \<Longrightarrow> P (need_g i st)"
  by (simp_all add: need_u_def need_g_def P_flag)

lemma P_cells [framed]:
  "P st \<Longrightarrow> P (st\<lparr>S_kill := (S_kill st)[k := v]\<rparr>)" "P st \<Longrightarrow> P (st\<lparr>lpriv_id := (lpriv_id st)[k := v]\<rparr>)"
  "P st \<Longrightarrow> P (st\<lparr>u_recv_count := (u_recv_count st)[k := v]\<rparr>)"
  "P st \<Longrightarrow> P (st\<lparr>ping_time := (ping_time st)[k := v], pong_req := (pong_req st)[k := w]\<rparr>)"
  "P st \<Longrightarrow> P (st\<lparr>pong_req := (pong_req st)[k := v], ping_time := (ping_time st)[k := w]\<rparr>)"
  by (simp_all add: P_kill P_lpriv P_recv P_ping P_pong)

lemma P_clear_group_item [framed]: "P st \<Longrightarrow> P (clear_group_item i st)"
  unfolding clear_group_item_def by (intro framed)

lemma P_nickwritetime [framed]: "P st \<Longrightarrow> P (snd (nickwritetime n c st))"
  using nickwritetime_db [of n c st] P_db by fastforce

section \<open>The senders\<close>

lemma P_ftext [framed]: "P st \<Longrightarrow> P (snd (ftext k s st))"
  unfolding ftext_def by (intro framed)

lemma P_transmit:
  assumes "P st" "0 \<le> d" "d < MAX_REAL_USERS st" "length body \<le> 254"
  shows "P (transmit d body st)"
  unfolding transmit_def by (intro framed assms P_kill P_send) simp_all

lemma P_doSend [framed]:
  assumes "\<And>d s. P s \<Longrightarrow> P (ab d s)" "\<And>d l s. P s \<Longrightarrow> P (cmd d l s)" "P st"
  shows "P (doSend ab cmd from dest body st)"
proof -
  have "length (packet_text ICB_M_ERROR ''Cannot transmit packet: too large'') \<le> 254"
    by (simp add: packet_text_def snprintf_def)
  then show ?thesis
    unfolding doSend_def Let_def by (intro framed P_transmit assms) auto
qed

lemma P_doSend0 [framed]: "P st \<Longrightarrow> P (doSend0 dest body st)"
  unfolding doSend0_def by (intro framed)

lemma P_senders [framed]:
  "P st \<Longrightarrow> P (senderror d m st)" "P st \<Longrightarrow> P (sendstatus d s m st)" "P st \<Longrightarrow> P (sendexit d st)"
  "P st \<Longrightarrow> P (sendping d m st)" "P st \<Longrightarrow> P (send_cmdend d m st)" "P st \<Longrightarrow> P (sends_cmdout d m st)"
  "P st \<Longrightarrow> P (send_loginok d st)" "P st \<Longrightarrow> P (sendimport d s m st)" "P st \<Longrightarrow> P (user_whead d st)"
  "P st \<Longrightarrow> P (user_wline d md nk i r l u h nm st)" "P st \<Longrightarrow> P (sendopen from d m st)"
  unfolding senderror_def sendstatus_def sendexit_def sendping_def send_cmdend_def sends_cmdout_def
    send_loginok_def sendimport_def user_whead_def user_wline_def sendopen_def
  by (intro framed; assumption)+


section \<open>Private messages and beeps\<close>

lemma P_sendperson [framed]: "(\<And>d s. P s \<Longrightarrow> P (ab d s)) \<Longrightarrow> (\<And>d l s. P s \<Longrightarrow> P (cmd d l s)) \<Longrightarrow> P st \<Longrightarrow> P (sendperson ab cmd from dest message st)"
  unfolding sendperson_def by (intro framed)

lemma P_send_person_stored [framed]: "(\<And>d s. P s \<Longrightarrow> P (ab d s)) \<Longrightarrow> (\<And>d l s. P s \<Longrightarrow> P (cmd d l s)) \<Longrightarrow> P st \<Longrightarrow> P (send_person_stored ab cmd dest fromNick message st)"
  unfolding send_person_stored_def by (intro framed)

lemma P_autoBeep [framed]: "(\<And>d l s. P s \<Longrightarrow> P (cmd d l s)) \<Longrightarrow> P st \<Longrightarrow> P (autoBeep cmd dest st)"
  unfolding autoBeep_def by (intro framed)

lemma P_sendbeep [framed]: "(\<And>d l s. P s \<Longrightarrow> P (cmd d l s)) \<Longrightarrow> P st \<Longrightarrow> P (sendbeep cmd from dest st)"
  unfolding sendbeep_def by (intro framed)

lemma P_s_new_user: "P st \<Longrightarrow> in_tab n (u_tab st) \<Longrightarrow> P (s_new_user n secure st)"
  unfolding s_new_user_def by (simp add: in_tab_def) (intro framed)


section \<open>Group commands\<close>

lemma P_s_status_group [framed]: "P st \<Longrightarrow> P (s_status_group k tellme n class_string message_string st)"
  unfolding s_status_group_def by (intro framed)

lemma P_s_send_group [framed]: "P st \<Longrightarrow> P (snd (s_send_group n st))"
  unfolding s_send_group_def by (intro framed)

lemma P_s_exclude [framed]: "P st \<Longrightarrow> P (snd (s_exclude n argc st))"
  unfolding s_exclude_def by (intro framed)

lemma P_s_cancel [framed]: "P st \<Longrightarrow> P (snd (s_cancel n argc st))"
  unfolding s_cancel_def by (intro framed)

lemma P_probe [framed]: "P st \<Longrightarrow> P (probe n ngi message st)"
  unfolding probe_def by (intro framed)

lemma P_leave_group [framed]: "P st \<Longrightarrow> P (leave_group n ogi st)"
  unfolding leave_group_def by (intro framed)

lemma P_enter_group [framed]: "P st \<Longrightarrow> P (enter_group n login_status ngi ogi st)"
  unfolding enter_group_def by (intro framed)

lemma P_join_group [framed]: "P st \<Longrightarrow> P (snd (join_group n login_status ngi n_g_n st))"
  unfolding join_group_def by (intro framed)

lemma P_change_to [framed]: "P st \<Longrightarrow> P (snd (change_to n login_status st))"
  unfolding change_to_def by (intro framed)

lemma P_s_change_n [framed]: "P st \<Longrightarrow> P (snd (s_change_n k n ls st))"
proof (induction k arbitrary: ls st)
  case (Suc k)
  show ?case unfolding s_change_n.simps by (intro framed Suc)
qed (simp add: P_flag)
lemma P_s_change [framed]: "P st \<Longrightarrow> P (snd (s_change n argc st))"
  unfolding s_change_def by (intro framed)

lemma P_add_item: "P (snd b) \<Longrightarrow> P (snd (add_item n item b))"
  by (cases b) (auto simp: add_item_def intro: P_senders)

lemma P_add_item' [framed]: "P st \<Longrightarrow> P (snd (add_item n item (l, st)))"
  by (simp add: P_add_item)
lemma P_add_names [framed]: "P (snd b) \<Longrightarrow> P (snd (add_names n t bi mk fi ss b))"
  by (induction n t bi mk fi ss b rule: add_names.induct) (simp_all add: Let_def P_add_item)
lemma P_list_lines [framed]: "P st \<Longrightarrow> P (list_lines n t l lr st)"
  unfolding list_lines_def Let_def [of "add_names n t True False True (read_list l) ([], st)"] by (intro framed)
lemma P_list_invites [framed]: "P st \<Longrightarrow> P (snd (list_invites n gi st))"
  unfolding list_invites_def by (intro framed)
lemma P_s_invite [framed]: "P st \<Longrightarrow> P (snd (s_invite n argc st))"
  unfolding s_invite_def by (intro framed)

lemma P_relinquish [framed]: "P st \<Longrightarrow> P (relinquish n gi st)"
  unfolding relinquish_def by (intro framed)

lemma P_s_pass [framed]: "P st \<Longrightarrow> P (snd (s_pass n argc st))"
  unfolding s_pass_def by (intro framed)

lemma P_do_boot [framed]: "P st \<Longrightarrow> P (do_boot n dest destgi msg st)"
  unfolding do_boot_def by (intro framed)

lemma P_s_boot [framed]: "P st \<Longrightarrow> P (snd (s_boot n argc st))"
  unfolding s_boot_def by (intro framed)

lemma P_s_topic [framed]: "P st \<Longrightarrow> P (snd (s_topic n argc st))"
  unfolding s_topic_def by (intro framed)

lemma P_talk_delete [framed]: "P st \<Longrightarrow> P (snd (talk_delete who gi st))"
  unfolding talk_delete_def by (intro framed)

lemma P_talk_report [framed]: "P st \<Longrightarrow> P (talk_report n gi st)"
  unfolding talk_report_def by (intro framed)

lemma P_talk_clear [framed]: "P st \<Longrightarrow> P (talk_clear k reg sfx n gi q st)"
proof (induction k arbitrary: st)
  case (Suc k)
  show ?case unfolding talk_clear.simps by (intro framed Suc)
qed simp
lemma P_talk_add [framed]: "P st \<Longrightarrow> P (talk_add n gi who r quiet st)"
  unfolding talk_add_def by (intro framed)

lemma P_s_talk [framed]: "P st \<Longrightarrow> P (snd (s_talk n argc st))"
  unfolding s_talk_def by (intro framed)


section \<open>Settings of a group\<close>

lemma P_dump_table [framed]: "P st \<Longrightarrow> P (dump_table n st)"
  unfolding dump_table_def by (intro framed)

lemma P_show_status [framed]: "P st \<Longrightarrow> P (show_status n gi st)"
  unfolding show_status_def by (intro framed)

lemma P_set_name [framed]: "P st \<Longrightarrow> P (snd (set_name n gi name st))"
  unfolding set_name_def by (intro framed)

lemma P_restrict_user [framed]: "P st \<Longrightarrow> P (restrict_user gi i st)"
  unfolding restrict_user_def by (intro framed)

lemma P_set_restrict [framed]: "P st \<Longrightarrow> P (set_restrict gi st)"
  unfolding set_restrict_def by (intro framed)

lemma P_set_size [framed]: "P st \<Longrightarrow> P (snd (set_size n gi p2 st))"
  unfolding set_size_def by (intro framed)

lemma P_set_idleboot [framed]: "P st \<Longrightarrow> P (snd (set_idleboot n gi p2 st))"
  unfolding set_idleboot_def by (intro framed)

lemma P_set_idlemod [framed]: "P st \<Longrightarrow> P (snd (set_idlemod n gi p2 st))"
  unfolding set_idlemod_def by (intro framed)

lemma P_set_idleboot_msg [framed]: "P st \<Longrightarrow> P (set_idleboot_msg n gi p1 st)"
  unfolding set_idleboot_msg_def by (intro framed)

lemma P_set_flag [framed]: "P st \<Longrightarrow> P (snd (set_flag n gi f note st))"
  unfolding set_flag_def by (intro framed)

lemma P_set_option: "P st \<Longrightarrow> P (snd (snd (set_option n gi lu p1 p2 st)))"
proof -
  assume st: "P st"
  obtain r s where e: "set_name n gi (filtergroupname (getword (get_tail p1))) st = (r, s)" by fastforce
  then have "P s" using P_set_name [OF st, of n gi "filtergroupname (getword (get_tail p1))"] by simp
  then show ?thesis by (simp add: set_option_def Let_def e framed st)
qed

lemma P_set_option' [framed]: "P st \<Longrightarrow> (\<And>a b x. P x \<Longrightarrow> P (snd (f a b x))) \<Longrightarrow>
    P (snd (let (a, b, x) = set_option n gi lu p1 p2 st in f a b x))"
  using P_set_option [of st n gi lu p1 p2] by (cases "set_option n gi lu p1 p2 st") simp
lemma P_status_option [framed]: "P st \<Longrightarrow> P (snd (status_option n gi has_mod p1 st))"
  unfolding status_option_def by (intro framed)

lemma P_status_loop [framed]: "P st \<Longrightarrow> P (status_loop n gi hm p1 st)"
proof (induction n gi hm p1 st rule: status_loop.induct)
  case (1 n gi hm p1 st)
  then show ?case using P_status_option [of st n gi hm p1]
    by (subst status_loop.simps) (auto split: prod.split)
qed
lemma P_s_status [framed]: "P st \<Longrightarrow> P (snd (s_status n argc st))"
  unfolding s_status_def by (intro framed)


section \<open>Idle checks\<close>

lemma P_notify_off [framed]: "P st \<Longrightarrow> P (notify_off n st)"
  unfolding notify_off_def by (intro framed)

lemma P_warn_all [framed]: "P st \<Longrightarrow> P (warn_all msg st)"
  unfolding warn_all_def by (intro framed)

lemma P_shutdown_warnings [framed]: "P st \<Longrightarrow> P (shutdown_warnings st)"
  unfolding shutdown_warnings_def by (intro framed)

lemma u_tab_disconnect [simp]: "u_tab (disconnect i st) = u_tab st"
  by (simp add: disconnect_def)

lemma real_users_range: "list_all (\<lambda>i. in_tab i (u_tab st)) (real_users st)"
  by (auto simp: list_all_iff real_users_def in_tab_def)

lemma P_idle_mod [framed]: "P st \<Longrightarrow> P (idle_mod i st)"
  unfolding idle_mod_def by (intro framed)

lemma P_mod_timeout [framed]: "P st \<Longrightarrow> P (mod_timeout i st)"
  unfolding mod_timeout_def by (intro framed)

lemma P_fmt1 [framed]: "P st \<Longrightarrow> P (snd (fmt1 fmt arg st))"
  unfolding fmt1_def by (intro framed)

lemma P_hand_on [framed]: "P st \<Longrightarrow> P (hand_on i st)"
  unfolding hand_on_def by (intro framed)

lemma P_boot_idle [framed]: "P st \<Longrightarrow> P (boot_idle i gi st)"
  unfolding boot_idle_def by (intro framed)

lemma P_idle_user [framed]: "P st \<Longrightarrow> P (idle_user i st)"
  unfolding idle_user_def by (intro framed)

section \<open>Registration\<close>

lemma P_db_open [framed]: "P st \<Longrightarrow> P (db_open st)"
  unfolding db_open_def by (intro framed)

lemma P_db_close [framed]: "P st \<Longrightarrow> P (db_close st)"
  unfolding db_close_def by (intro framed)

lemma P_db_get [framed]: "P st \<Longrightarrow> P (snd (db_get nick attr st))"
  unfolding db_get_def by (intro framed)

lemma P_db_get_int [framed]: "P st \<Longrightarrow> P (snd (db_get_int nick attr st))"
  unfolding db_get_int_def by (intro framed)

lemma P_db_set [framed]: "P st \<Longrightarrow> P (db_set nick attr v st)"
  unfolding db_set_def by (intro framed)

lemma P_db_delete [framed]: "P st \<Longrightarrow> P (db_delete nick attr st)"
  unfolding db_delete_def by (intro framed)

lemma P_setsecure [framed]: "P st \<Longrightarrow> P (snd (setsecure forWhom secure st))"
  unfolding setsecure_def by (intro framed)

lemma P_valuser [framed]: "P st \<Longrightarrow> P (snd (valuser user password st))"
  unfolding valuser_def by (intro framed)

lemma P_nickdelete [framed]: "P st \<Longrightarrow> P (snd (nickdelete forWhom password st))"
  unfolding nickdelete_def by (intro framed)

lemma P_nickchinfo [framed]: "P st \<Longrightarrow> P (snd (nickchinfo forWhom tag data mx message st))"
  unfolding nickchinfo_def by (intro framed)

lemma P_nickchpass [framed]: "P st \<Longrightarrow> P (snd (nickchpass forWhom oldpw newpw st))"
  unfolding nickchpass_def by (intro framed)

lemma P_nickwritemsg [framed]: "P st \<Longrightarrow> P (snd (nickwritemsg forWhom user message st))"
  unfolding nickwritemsg_def by (intro framed)

lemma P_nickckmsg [framed]: "P st \<Longrightarrow> P (snd (nickckmsg forWhom st))"
  unfolding nickckmsg_def by (intro framed)

lemma P_read_one [framed]: "(\<And>d l s. P s \<Longrightarrow> P (cmd d l s)) \<Longrightarrow> P st \<Longrightarrow> P (read_one cmd forWhom nick i st)"
  unfolding read_one_def by (intro framed)

lemma P_nickreadmsg [framed]: "(\<And>d l s. P s \<Longrightarrow> P (cmd d l s)) \<Longrightarrow> P st \<Longrightarrow> P (snd (nickreadmsg cmd forWhom st))"
  unfolding nickreadmsg_def by (intro framed)

lemma P_regain_mods [framed]: "P st \<Longrightarrow> P (regain_mods n st)"
  unfolding regain_mods_def by (intro framed)

lemma P_report_msgs [framed]: "P st \<Longrightarrow> P (report_msgs n st)"
  unfolding report_msgs_def by (intro framed)

lemma P_set_registered [framed]: "P st \<Longrightarrow> P (set_registered n st)"
  unfolding set_registered_def by (intro framed)

lemma P_nickwrite [framed]: "P st \<Longrightarrow> P (snd (nickwrite forWhom password verifyOnly st))"
  unfolding nickwrite_def by (intro framed)

lemma P_put_line [framed]: "P st \<Longrightarrow> P (put_line n line st)"
  unfolding put_line_def by (intro framed)

lemma P_attr_or [framed]: "P st \<Longrightarrow> P (snd (attr_or deflt nick attr st))"
  unfolding attr_or_def by (intro framed)

lemma P_two_cols [framed]: "P st \<Longrightarrow> P (two_cols n nick t1 a1 t2 a2 deflt st)"
  unfolding two_cols_def by (intro framed)

lemma P_one_col [framed]: "P st \<Longrightarrow> P (one_col n nick t a st)"
  unfolding one_col_def by (intro framed)

lemma P_show_text [framed]: "P st \<Longrightarrow> P (show_text n temp line st)"
  unfolding show_text_def by (intro framed)

lemma P_show_record [framed]: "P st \<Longrightarrow> P (show_record n nick nickstr home st)"
  unfolding show_record_def by (intro framed)

lemma P_nicklookup [framed]: "P st \<Longrightarrow> P (snd (nicklookup forWhom theNick st))"
  unfolding nicklookup_def by (intro framed)

lemma P_auto_info [framed]: "P st \<Longrightarrow> P (snd (auto_info n usage tag mx message st))"
  unfolding auto_info_def by (intro framed)

lemma P_auto_cmd [framed]: "(\<And>d l s. P s \<Longrightarrow> P (cmd d l s)) \<Longrightarrow> P st \<Longrightarrow> P (snd (auto_cmd cmd which n st))"
  unfolding auto_cmd_def by (intro framed)

lemma P_s_auto [framed]: "(\<And>d l s. P s \<Longrightarrow> P (cmd d l s)) \<Longrightarrow> P st \<Longrightarrow> P (snd (s_auto cmd n st))"
  unfolding s_auto_def by (intro framed)


section \<open>User commands\<close>

lemma P_s_help [framed]: "P st \<Longrightarrow> P (snd (s_help n argc st))"
  unfolding s_help_def by (intro framed)

lemma P_show_ul [framed]: "P st \<Longrightarrow> P (show_ul n k i st)"
proof (induction i arbitrary: st)
  case (Suc i)
  show ?case unfolding show_ul.simps by (intro framed Suc)
qed simp
lemma P_show_uls [framed]: "P st \<Longrightarrow> P (show_uls n ks title st)"
  unfolding show_uls_def by (intro framed)

lemma P_toggle_ul [framed]: "P st \<Longrightarrow> P (snd (toggle_ul n k quiet who st))"
  unfolding toggle_ul_def by (intro framed)

lemma P_s_hush [framed]: "P st \<Longrightarrow> P (snd (s_hush n argc st))"
  unfolding s_hush_def by (intro framed)

lemma P_s_notify [framed]: "P st \<Longrightarrow> P (snd (s_notify n argc st))"
  unfolding s_notify_def by (intro framed)

lemma P_report_missing [framed]: "P st \<Longrightarrow> P (report_missing n st)"
  unfolding report_missing_def by (intro framed)

lemma P_s_echoback [framed]: "P st \<Longrightarrow> P (snd (s_echoback n argc st))"
  unfolding s_echoback_def by (intro framed)

lemma P_s_nobeep [framed]: "P st \<Longrightarrow> P (snd (s_nobeep n argc st))"
  unfolding s_nobeep_def by (intro framed)

lemma P_s_ping [framed]: "P st \<Longrightarrow> P (snd (s_ping n argc st))"
  unfolding s_ping_def by (intro framed)

lemma P_s_noaway [framed]: "P st \<Longrightarrow> P (snd (s_noaway n argc st))"
  unfolding s_noaway_def by (intro framed)

lemma P_s_away [framed]: "P st \<Longrightarrow> P (snd (s_away n argc st))"
  unfolding s_away_def by (intro framed)

lemma P_away_handle [framed]: "P st \<Longrightarrow> P (away_handle src dest st)"
  unfolding away_handle_def by (intro framed)

lemma P_s_personal [framed]: "(\<And>d l s. P s \<Longrightarrow> P (cmd d l s)) \<Longrightarrow> P st \<Longrightarrow> P (snd (s_personal cmd n argc st))"
  unfolding s_personal_def by (intro framed)

lemma P_s_beep [framed]: "(\<And>d l s. P s \<Longrightarrow> P (cmd d l s)) \<Longrightarrow> P st \<Longrightarrow> P (snd (s_beep cmd n argc st))"
  unfolding s_beep_def by (intro framed)


section \<open>Listings\<close>

lemma P_snd2_fold: "(\<And>x p. P (snd (snd p)) \<Longrightarrow> P (snd (snd (f x p)))) \<Longrightarrow> P (snd (snd q)) \<Longrightarrow> P (snd (snd (fold f xs q)))"
  by (induction xs arbitrary: q) auto

lemma P_pgm_short [framed]: "P st \<Longrightarrow> P (pgm_short n which st)"
proof -
  assume st: "P st"
  let ?f = "\<lambda>i (line, num, st). let (line, st) = add_item n (u_nickname (usr st i)) (line, st); num = num - 1;
      (line, st) = (if num \<noteq> (0::int) then add_item n '', '' (line, st) else (line, st)) in (line, num, st)"
  let ?q = "let (line, s) = add_item n ''    Members: '' ([], st) in
      (line, count_users_in_group (g_name (grp st which)) st, s)"
  have "P (snd (snd (?f i p)))" if "P (snd (snd p))" for i p
  proof -
    obtain line num s where p: "p = (line, num, s)" by (cases p)
    have a: "P (snd (add_item n (u_nickname (usr s i)) (line, s)))" using that p by (simp add: P_add_item')
    then show ?thesis using P_add_item [OF a, of n "'', ''"] p by (auto simp: Let_def split: prod.splits)
  qed
  moreover have "P (snd (snd ?q))" using P_add_item' [OF st, of n "''    Members: ''" "[]"]
    by (cases "add_item n ''    Members: '' ([], st)") simp
  ultimately have "P (snd (snd (fold ?f (members which st) ?q)))" by (rule P_snd2_fold)
  then show ?thesis
    unfolding pgm_short_def Let_def [of "count_users_in_group (g_name (grp st which)) st"]
    by (cases "fold ?f (members which st) ?q") (simp add: P_senders)
qed

lemma P_pgm_line [framed]: "P st \<Longrightarrow> P (pgm_line n which i st)"
  unfolding pgm_line_def by (intro framed)

lemma P_pgm_long [framed]: "P st \<Longrightarrow> P (pgm_long n which st)"
  unfolding pgm_long_def by (intro framed)

lemma P_print_group_members [framed]: "P st \<Longrightarrow> P (print_group_members n which flags st)"
  unfolding print_group_members_def by (intro framed)

lemma P_print_group_header [framed]: "P st \<Longrightarrow> P (print_group_header n gi st)"
  unfolding print_group_header_def by (intro framed)

lemma P_doOne [framed]: "P st \<Longrightarrow> P (doOne n flags tgrp st)"
  unfolding doOne_def by (intro framed)

lemma P_doAll [framed]: "P st \<Longrightarrow> P (doAll n flags st)"
  unfolding doAll_def by (intro framed)

lemma P_s_who [framed]: "P st \<Longrightarrow> P (snd (s_who n argc st))"
  unfolding s_who_def by (intro framed)

lemma P_s_info [framed]: "P st \<Longrightarrow> P (snd (s_info n argc st))"
  unfolding s_info_def by (intro framed)


section \<open>Administration\<close>

lemma P_s_log [framed]: "P st \<Longrightarrow> P (snd (s_log n argc st))"
  unfolding s_log_def by (intro framed)

lemma P_tell_all [framed]: "P st \<Longrightarrow> P (tell_all status msg st)"
  unfolding tell_all_def by (intro framed)

lemma P_s_shutdown [framed]: "P st \<Longrightarrow> P (snd (s_shutdown n argc st))"
  unfolding s_shutdown_def by (intro framed)

lemma P_restart_say [framed]: "P st \<Longrightarrow> P (restart_say quiet n msg st)"
  unfolding restart_say_def by (intro framed)

lemma P_s_restart [framed]: "P st \<Longrightarrow> P (snd (s_restart n argc st))"
  unfolding s_restart_def by (intro framed)

lemma P_s_wall [framed]: "P st \<Longrightarrow> P (snd (s_wall n argc st))"
  unfolding s_wall_def by (intro framed)

lemma P_motd_loop [framed]: "P st \<Longrightarrow> P (motd_loop n temp s st)"
proof (induction s arbitrary: temp st rule: length_induct)
  case (1 s)
  have IH: "P (motd_loop n t r x)" if "length r < length s" "P x" for t r x using 1 that by blast
  show ?case
  proof (cases s rule: remdups_adj.cases)
    case (3 c d ds)
    show ?thesis unfolding 3 by (subst motd_loop.simps(2), simp only: list.case, intro framed IH)
      (simp_all add: 3 1 P_senders)
  qed (use 1 in \<open>auto intro: P_senders\<close>)
qed

lemma P_s_motd [framed]: "P st \<Longrightarrow> P (snd (s_motd n argc st))"
  unfolding s_motd_def by (intro framed)

lemma P_all_news [framed]: "P st \<Longrightarrow> P (all_news n st)"
  unfolding all_news_def by (intro framed)

lemma P_s_news [framed]: "P st \<Longrightarrow> P (snd (s_news n argc st))"
  unfolding s_news_def by (intro framed)

lemma P_show_stats [framed]: "P st \<Longrightarrow> P (show_stats who st)"
  unfolding show_stats_def by (intro framed)

lemma P_s_server_stats [framed]: "P st \<Longrightarrow> P (snd (s_server_stats who argc st))"
  unfolding s_server_stats_def by (intro framed)

lemma P_s_shuttime [framed]: "P st \<Longrightarrow> P (snd (s_shuttime n argc st))"
  unfolding s_shuttime_def by (intro framed)

lemma P_s_version [framed]: "P st \<Longrightarrow> P (snd (s_version n argc st))"
  unfolding s_version_def by (intro framed)


section \<open>Packets of a client\<close>

lemma P_get_perms [framed]: "P st \<Longrightarrow> P (snd (get_perms n login st))"
  unfolding get_perms_def by (intro framed)

lemma P_spam_check [framed]: "P st \<Longrightarrow> P (spam_check n st)"
  unfolding spam_check_def by (intro framed)

lemma P_split_packet [framed]: "P st \<Longrightarrow> P (snd (split_packet pkt st))"
  unfolding split_packet_def by (intro framed)

lemma P_openmsg [framed]: "P st \<Longrightarrow> P (openmsg n pkt st)"
  unfolding openmsg_def by (intro framed)

lemma P_who_login [framed]: "P st \<Longrightarrow> P (who_login with_group n st)"
  unfolding who_login_def by (intro framed)

lemma P_login_group [framed]: "P st \<Longrightarrow> P (snd (login_group n which_group st))"
  unfolding login_group_def Let_def by (intro framed)

lemma P_login_register [framed]: "P st \<Longrightarrow> P (login_register n st)"
  unfolding login_register_def by (intro framed)

lemma P_login_invites [framed]: "P st \<Longrightarrow> P (login_invites n st)"
  unfolding login_invites_def by (intro framed)

lemma P_notify_on [framed]: "P st \<Longrightarrow> P (notify_on n st)"
  unfolding notify_on_def by (intro framed)

lemma P_login_enter [framed]: "P st \<Longrightarrow> P (snd (login_enter n which_group st))"
  unfolding login_enter_def by (intro framed)

lemma P_pong_msg [framed]: "P st \<Longrightarrow> P (pong n pkt st)"
  unfolding pong_def by (intro framed)

section \<open>A lost and a new connection\<close>

text \<open>Where the loop may not end the results are optional.\<close>

lemma P_opt_let: "P a \<Longrightarrow> (\<And>x. P x \<Longrightarrow> pred_option Q (f x)) \<Longrightarrow> pred_option Q (Let a f)"
  by (simp add: Let_def)

lemma P_opt_let_val: "(\<And>x. pred_option Q (f x)) \<Longrightarrow> pred_option Q (Let (a :: 'z) f)"
  by (simp add: Let_def)

lemma P_opt_if: "(c \<Longrightarrow> pred_option Q a) \<Longrightarrow> (\<not> c \<Longrightarrow> pred_option Q b) \<Longrightarrow> pred_option Q (if c then a else b)"
  by simp

lemma P_opt_Some: "Q a \<Longrightarrow> pred_option Q (Some a)"
  by simp

lemma P_opt_pair: "pred_option P m \<Longrightarrow> pred_option (\<lambda>r. P (snd r)) (map_option (Pair r) m)"
  by (cases m) simp_all

lemmas P_opt = P_opt_let P_opt_let_val [where 'z = int] P_opt_let_val [where 'z = bool]
  P_opt_let_val [where 'z = string] P_opt_if P_opt_Some P_opt_pair

lemma P_lost_mods: "P st \<Longrightarrow> pred_option P (lost_mods fuel n reg nm st)"
proof (induction fuel arbitrary: st)
  case (Suc k)
  show ?case unfolding lost_mods.simps by (intro P_opt Suc.IH framed Suc.prems)
qed simp

text \<open>A login leaves the nicknames alone up to the moment in which it takes its own.\<close>

lemma login_user_steps:
  assumes "P st" and quiet: "\<And>s. P s \<Longrightarrow> Q s"
    and fill: "\<And>s i h pw gn aw lg eb nb pm. P s \<Longrightarrow> find_user (field st 1) st < 0 \<Longrightarrow>
      length (field st 1) \<le> MAX_NICKLEN \<Longrightarrow>
      Q (fill_user_entry n i h (Some (filternickname (field st 1))) pw gn aw lg eb nb pm s)"
    and refuse: "\<And>m s. Q s \<Longrightarrow> Q (senderror n m s)" and enter: "\<And>s. Q s \<Longrightarrow> Q (snd (login_enter n wg s))"
  shows "Q (snd (login_user n wg st))"
proof -
  obtain perms s where g: "get_perms n (field st 0) st = (perms, s)" by fastforce
  then have s: "P s" using P_get_perms [OF assms(1), of n "field st 0"] by simp
  define s' where "s' = (if perms \<noteq> PERM_NULL then
    sendstatus n ''Permissions'' (if perms AND PERM_SLOWMSGS \<noteq> 0 then ''slowmsgs'' else []) s else s)"
  have s': "P s'" using s by (simp add: s'_def P_senders)
  define nick where "nick = field st 1"
  define f where "f = fill_user_entry n (Some (field st 0)) (Some (u_nodeid (usr s' n))) (Some (filternickname nick))
    (Some (field (s'\<lparr>pfields := (pfields s')[1 := filternickname nick]\<rparr>) 4)) (Some []) (Some []) LOGIN_FALSE 0 0 perms
    (s'\<lparr>pfields := (pfields s')[1 := filternickname nick]\<rparr>)"
  have f: "Q f" if "\<not> find_user nick st \<ge> 0" "length nick \<le> MAX_NICKLEN"
    using fill [of "s'\<lparr>pfields := (pfields s')[1 := filternickname nick]\<rparr>"] that s' by (simp add: f_def nick_def P_fields)
  have err: "Q (senderror n m st)" "Q (senderror n m s)" "Q (senderror n m (senderror n m' s'))" "Q s" for m m'
    using assms(1) s s' by (auto intro: quiet P_senders)
  show ?thesis
    unfolding login_user_def Let_def g case_prod_conv s'_def [symmetric] nick_def [symmetric] f_def [symmetric]
    using err f refuse [OF f] enter [OF f] by (auto split: option.split)
qed

end

section \<open>The operations that disconnect and that change nicknames\<close>

text \<open>
  A user of the table may be disconnected. A nickname is given up when the entry is cleared, and changed to
  one that no other user has.
\<close>

locale serving = naming +
  assumes P_drop: "P st \<Longrightarrow> in_tab i (u_tab st) \<Longrightarrow> P (disconnect i st)"
    and P_clear_user_item [framed]: "P st \<Longrightarrow> P (clear_user_item i st)"
    and P_rename: "P st \<Longrightarrow> find_user name st < 0 \<or> strcaseeq name (u_nickname (usr st n)) \<Longrightarrow> P (rename n name st)"
begin

lemma P_drops:
  assumes "P st" "list_all (\<lambda>i. in_tab i (u_tab st)) is" "\<And>s. P s \<Longrightarrow> P (f s)" "\<And>s. u_tab (f s) = u_tab s"
  shows "P (fold (\<lambda>i s. if c i s then disconnect i (f s) else s) is st)"
  using assms(1,2)
proof (induction "is" arbitrary: st)
  case (Cons i "is")
  then show ?case using Cons.IH [of "disconnect i (f st)"] Cons.IH [of st] by (simp add: P_drop assms(3,4))
qed simp

lemma P_drop_killed [framed]: "P st \<Longrightarrow> P (drop_killed st)"
  using P_drops [of st "real_users st" "\<lambda>s. s\<lparr>stats := (stats s)\<lparr>st_drops := st_drops (stats s) + 1\<rparr>\<rparr>"
      "\<lambda>i s. u_login (usr s i) > LOGIN_FALSE \<and> S_kill s ! nat i > 0"] real_users_range
  by (simp add: drop_killed_def P_stats)

lemma P_icbexit [framed]: "P st \<Longrightarrow> P (icbexit st)"
  unfolding icbexit_def
  using P_drops [of st "filter (\<lambda>i. u_login (usr st i) > LOGIN_FALSE) (real_users st)" "\<lambda>s. s" "\<lambda>i s. True"]
    real_users_range [of st]
  by (auto simp: list_all_iff intro: P_halt)

lemma P_s_didpoll [framed]: "P st \<Longrightarrow> P (s_didpoll n st)"
  unfolding s_didpoll_def by (intro framed)

lemma P_s_drop [framed]: "P st \<Longrightarrow> P (snd (s_drop n argc st))"
  unfolding s_drop_def Let_def [of "find_user x y" for x y]
  by (intro framed P_drop) (simp_all add: find_user_found)

lemma P_s_name [framed]: "P st \<Longrightarrow> P (snd (s_name n argc st))"
  unfolding s_name_def Let_def [of "filternickname x" for x] by (intro framed P_rename) auto

lemma P_run_command [framed]: "(\<And>d l s. P s \<Longrightarrow> P (cmd d l s)) \<Longrightarrow> P st \<Longrightarrow> P (run_command cmd which n argc st)"
  unfolding run_command_def by (intro framed)

lemma P_cmd_step [framed]: "(\<And>d l s. P s \<Longrightarrow> P (cmd d l s)) \<Longrightarrow> P st \<Longrightarrow> P (cmd_step cmd n pkt st)"
  unfolding cmd_step_def by (intro framed)

lemma P_cmdmsg [framed]: "P st \<Longrightarrow> P (cmdmsg k n pkt st)"
proof (induction k arbitrary: n pkt st)
  case (Suc k)
  show ?case unfolding cmdmsg.simps by (intro framed Suc)
qed (simp add: P_flag)

lemma P_s_lost_user: "P st \<Longrightarrow> pred_option (\<lambda>r. P (snd r)) (s_lost_user fuel n st)"
  unfolding s_lost_user_def by (intro P_opt framed P_lost_mods)

end

text \<open>A login takes any nickname.\<close>

locale frame = serving +
  assumes P_fill_user_entry [framed]: "P st \<Longrightarrow> P (fill_user_entry n i h nk pw gn aw lg eb nb pm st)"
begin

lemma P_login_any [framed]: "P st \<Longrightarrow> P (snd (login_user n which_group st))"
  unfolding login_user_def by (intro framed)

lemma P_loginmsg [framed]: "P st \<Longrightarrow> P (snd (loginmsg n pkt st))"
  unfolding loginmsg_def by (intro framed)

lemma P_dispatch:
  assumes "P st" "in_tab n (u_tab st)"
  shows "P (dispatch fuel n pkt st)"
proof -
  have "in_tab n (u_tab (sendexit n (senderror n m st)))" if "n \<ge> MAX_REAL_USERS st" for m
    using assms(2) refused_tab [OF that] by simp
  then show ?thesis unfolding dispatch_def
    by (intro framed assms(1) P_drop)
qed

lemma P_s_packet: "P st \<Longrightarrow> in_tab n (u_tab st) \<Longrightarrow> P (s_packet fuel n data st)"
  unfolding s_packet_def by (rule P_dispatch)

end

text \<open>A property that does not depend on the users' entries at all.\<close>

locale free = naming +
  assumes P_upd_any: "P st \<Longrightarrow> P (upd_u i f st)"
    and P_drop_any: "P st \<Longrightarrow> in_tab i (u_tab st) \<Longrightarrow> P (disconnect i st)"
begin

lemma P_clear_any: "P st \<Longrightarrow> P (clear_user_item i st)"
  unfolding clear_user_item_def by (intro framed P_upd_any P_kill P_lpriv P_pong P_ping) simp_all

lemma P_rename_any: "P st \<Longrightarrow> P (rename n new_name st)"
  unfolding rename_def by (intro framed P_upd_any)

lemma P_fill_any: "P st \<Longrightarrow> P (fill_user_entry n i h nk pw gn aw lg eb nb pm st)"
  unfolding fill_user_entry_def by (intro P_upd_any)

end

sublocale free \<subseteq> frame
  by unfold_locales (intro P_drop_any P_clear_any P_rename_any P_fill_any; assumption)+

section \<open>What a run of the server has done\<close>

text \<open>
  From state \<open>s\<close> to state \<open>st\<close>: the tables have their sizes, what comes from outside is the
  same, no fault is forgotten, every packet that was sent has its length byte, at most 255 bytes and the
  number of a user's connection, and every disconnect is of a slot of the table.
\<close>

definition sizes :: "srv \<Rightarrow> nat list" where
  "sizes st = [length (u_tab st), length (g_tab st), length (S_kill st), length (lpriv_id st),
     length (pong_req st), length (ping_time st), length (u_recv_count st)]"

definition same_outside :: "srv \<Rightarrow> srv \<Rightarrow> bool" where
  "same_outside s st \<longleftrightarrow> now st = now s \<and> timefmt st = timefmt s \<and> thishost st = thishost s \<and>
     admin_pwd st = admin_pwd s \<and> remotename st = remotename s \<and> send_result st = send_result s \<and> world st = world s"

definition packet_for :: "srv \<Rightarrow> int \<times> cstring \<Rightarrow> bool" where
  "packet_for st dp \<longleftrightarrow> 0 \<le> fst dp \<and> fst dp < MAX_REAL_USERS st \<and>
     (\<exists>body. snd dp = frame_packet body \<and> length body \<le> 254)"

definition drop_of :: "srv \<Rightarrow> nat \<times> int \<Rightarrow> bool" where
  "drop_of st kd \<longleftrightarrow> in_tab (snd kd) (u_tab st)"

definition runs :: "srv \<Rightarrow> srv \<Rightarrow> bool" where
  "runs s st \<longleftrightarrow> sizes st = sizes s \<and> same_outside s st \<and> (fault s \<longrightarrow> fault st) \<and> (overread s \<longrightarrow> overread st) \<and>
     (\<exists>ps. out st = out s @ ps \<and> list_all (packet_for s) ps) \<and>
     (\<exists>ds. dropped st = dropped s @ ds \<and> list_all (drop_of s) ds)"

lemma runs_refl: "runs st st"
  by (simp add: runs_def same_outside_def)

text \<open>A change of the tables' cells, the packet's fields or the server's own variables.\<close>

lemma runs_quiet:
  assumes "runs s st" "sizes st' = sizes st" "same_outside st st'" "fault st \<longrightarrow> fault st'"
    "overread st \<longrightarrow> overread st'" "out st' = out st" "dropped st' = dropped st"
  shows "runs s st'"
  using assms by (auto simp: runs_def same_outside_def)

lemma runs_send: "runs s st \<Longrightarrow> packet_for s dp \<Longrightarrow> runs s (st\<lparr>out := out st @ [dp]\<rparr>)"
  by (fastforce simp: runs_def sizes_def same_outside_def)

lemma runs_drop: "runs s st \<Longrightarrow> in_tab i (u_tab s) \<Longrightarrow> runs s (disconnect i st)"
  by (fastforce simp: runs_def sizes_def same_outside_def drop_of_def disconnect_def)

lemma runs_len: "runs s st \<Longrightarrow> length (u_tab st) = length (u_tab s)"
  by (simp add: runs_def sizes_def)

interpretation run: free "runs s" for s
proof unfold_locales
  fix st d and body :: cstring
  assume "runs s st" "0 \<le> d" "d < MAX_REAL_USERS st" "length body \<le> 254"
  then show "runs s (st\<lparr>out := out st @ [(d, frame_packet body)]\<rparr>)"
    by (intro runs_send) (auto simp: packet_for_def runs_len)
next
  fix st i
  assume "runs s st" "in_tab i (u_tab st)"
  then show "runs s (disconnect i st)" by (intro runs_drop) (simp_all add: in_tab_def runs_len)
qed (erule runs_quiet; simp add: sizes_def same_outside_def upd_u_def upd_g_def need_u_def need_g_def flag_fault_def)+

end
