(* ===== verification/MsgProps.thy ===== *)
theory MsgProps
  imports Frame
begin

text \<open>
  Properties of the commands of theories \<open>UserCmds\<close>, \<open>Who\<close>, \<open>Admin\<close> and \<open>Msgs\<close>: who may do what, what
  the listings show, and two ways a client can make the server leave its buffers.
\<close>

section \<open>Before the login\<close>

text \<open>
  C9 (nothing before the login): a connection that has not logged in cannot change anything with
  a packet that is not a login packet, whatever its type and contents: the server's state is the same
  but for at most one error message to that very connection.\<close>

theorem before_login:
  assumes "net_ok st" "in_tab n (u_tab st)" "u_login (usr st n) < LOGIN_COMPLETE" "take 1 pkt \<noteq> ''a''"
  shows "\<exists>ps r. dispatch (Suc fuel) n pkt st = st\<lparr>out := out st @ ps, overread := overread st \<or> r\<rparr> \<and>
    length ps \<le> 1 \<and> (\<forall>p \<in> set ps. fst p = n)"
proof -
  define ok where "ok s \<longleftrightarrow> (\<exists>ps r. s = st\<lparr>out := out st @ ps, overread := overread st \<or> r\<rparr> \<and>
    length ps \<le> 1 \<and> (\<forall>p \<in> set ps. fst p = n))" for s
  have err: "ok (senderror n m st)" for m
    unfolding ok_def
    by (intro exI [of _ "sent_to n (error_body m) st"] exI [of _ "runs_over MAX_PKT_DATA m"])
      (simp add: senderror_emit [OF assms(1)] emit_def sent_to_def)
  have same: "ok st" unfolding ok_def by (intro exI [of _ "[]"] exI [of _ False]) simp
  have "ok (dispatch (Suc fuel) n pkt st)"
  proof (cases pkt)
    case (Cons c rest)
    then show ?thesis
      using assms(2-4)
      by (simp add: dispatch_def openmsg_def pong_def cmd_step_def Let_def err same split: option.split)
  qed (simp add: dispatch_def err)
  then show ?thesis by (simp add: ok_def)
qed

theorem before_login_witness:
  "\<exists>ps r. dispatch 5 0 (''h'' @ ''shutdown'' @ SEP # ''0'') (upd_u 0 (\<lambda>u. u\<lparr>u_login := LOGIN_FALSE\<rparr>) demo) =
     (upd_u 0 (\<lambda>u. u\<lparr>u_login := LOGIN_FALSE\<rparr>) demo)\<lparr>out := ps, overread := r\<rparr> \<and> length ps \<le> 1"
  using before_login [of "upd_u 0 (\<lambda>u. u\<lparr>u_login := LOGIN_FALSE\<rparr>) demo" 0 "''h'' @ ''shutdown'' @ SEP # ''0''" 4]
  by (auto simp: in_tab_def usr_upd_u numeral_eq_Suc)

section \<open>The administrator\<close>

text \<open>
  C11 (administration): for a user who is not the authenticated administrator, the commands
  that stop or restart the server, talk to all users, change the log level or reset the counters
  do nothing but tell the user so; and another user is dropped only with that user's password, by a mark
  that the event loop acts on, never at once.\<close>

theorem admin_only:
  assumes "\<not> check_auth n st"
  defines "refused \<equiv> (-1, senderror n not_authorized st)"
  shows "s_shutdown n argc st = refused \<and> s_restart n argc st = refused \<and> s_wall n argc st = refused \<and>
    (argc \<ge> 2 \<longrightarrow> s_log n argc st = refused) \<and>
    (argc = 2 \<and> field st 1 = ''reset'' \<longrightarrow> s_server_stats n argc st = refused) \<and>
    (net_ok st \<longrightarrow> dropped (snd (s_drop n argc st)) = dropped st \<and>
      (S_kill (snd (s_drop n argc st)) \<noteq> S_kill st \<longrightarrow>
        (let victim = find_user (getword (field st 1)) st
         in fst (valuser (u_nickname (usr st victim)) (getword (get_tail (field st 1))) st) = 0)))"
proof -
  have v: "\<exists>r db. valuser u p st = (r, st\<lparr>userdb := db\<rparr>)" for u p
    by (auto simp: valuser_def db_get_def Let_def split: prod.split option.split intro: exI [of _ "userdb st"])
  have "dropped (snd (s_drop n argc st)) = dropped st \<and>
      (S_kill (snd (s_drop n argc st)) \<noteq> S_kill st \<longrightarrow>
        fst (valuser (u_nickname (usr st (find_user (getword (field st 1)) st)))
               (getword (get_tail (field st 1))) st) = 0)" if "net_ok st"
  proof -
    let ?v = "find_user (getword (field st 1)) st"
    obtain r db where v': "valuser (u_nickname (usr st ?v)) (getword (get_tail (field st 1))) st = (r, st\<lparr>userdb := db\<rparr>)"
      using v by blast
    have net: "net_ok (st\<lparr>userdb := db\<rparr>)" using that by (simp add: net_ok_def)
    show ?thesis
      using assms(1) v' by (simp add: s_drop_def Let_def sender_emits [OF that] sender_emits [OF net] emit_def)
  qed
  then show ?thesis
    using assms(1)
    by (simp add: refused_def s_shutdown_def s_restart_def s_wall_def s_log_def s_server_stats_def Let_def)
qed

theorem admin_only_witness:
  "s_shutdown 0 2 demo = (-1, senderror 0 not_authorized demo) \<and> s_wall 1 2 demo = (-1, senderror 1 not_authorized demo)"
proof -
  have "\<not> check_auth 0 demo" "\<not> check_auth 1 demo" by code_simp+
  then show ?thesis using admin_only [of 0 demo 2] admin_only [of 1 demo 2] by simp
qed

section \<open>Listings\<close>

text \<open>The comparison of a listing: what does not go after is a total preorder.\<close>

locale list_order =
  fixes lt :: "'a \<Rightarrow> 'a \<Rightarrow> bool"
  assumes total: "\<not> lt x y \<or> \<not> lt y x"
    and trans: "\<not> lt x y \<Longrightarrow> \<not> lt y z \<Longrightarrow> \<not> lt x z"
begin

abbreviation "before x y \<equiv> \<not> lt x y"

lemma insert_at_sorted: "sorted_wrt before ys \<Longrightarrow> sorted_wrt before (insert_at lt x ys)"
proof (induction ys)
  case (Cons y ys)
  show ?case
  proof (cases "lt x y")
    case True
    have "set (insert_at lt x ys) = insert x (set ys)"
      unfolding insert_at_def by (metis insert_is_Un Un_insert_right list.set(2) set_append takeWhile_dropWhile_id)
    then show ?thesis using Cons True total [of x y] by (auto simp: insert_at_def)
  next
    case False
    then show ?thesis using Cons.prems trans [of x y] by (auto simp: insert_at_def)
  qed
qed (simp add: insert_at_def)

lemma mset_insert_at: "mset (insert_at lt x ys) = add_mset x (mset ys)"
  unfolding insert_at_def by (metis mset.simps(2) mset_append takeWhile_dropWhile_id union_mset_add_mset_right)

lemma list_sorted_fold:
  assumes "sorted_wrt before ys"
    and "fold (\<lambda>x (ys, bad). (insert_at lt x ys, bad \<or> (if ys = [] then room = 0 else length ys + 1 \<ge> room))) xs (ys, bad)
      = (zs, b)"
  shows "mset zs = mset ys + mset xs \<and> sorted_wrt before zs \<and>
    (b \<longleftrightarrow> bad \<or> (xs \<noteq> [] \<and> (if ys = [] then room = 0 \<or> 2 \<le> length xs \<and> room \<le> length xs
                                 else room \<le> length ys + length xs)))"
  using assms
proof (induction xs arbitrary: ys bad)
  case (Cons x xs)
  have len: "length (insert_at lt x ys) = length ys + 1"
    using arg_cong [OF mset_insert_at, of size x ys] by simp
  then have ne: "insert_at lt x ys \<noteq> []" by auto
  from Cons.prems(2) have "fold (\<lambda>x (ys, bad). (insert_at lt x ys, bad \<or> (if ys = [] then room = 0 else length ys + 1 \<ge> room))) xs
      (insert_at lt x ys, bad \<or> (if ys = [] then room = 0 else length ys + 1 \<ge> room)) = (zs, b)" by simp
  note IH = Cons.IH [OF insert_at_sorted [OF Cons.prems(1)] this]
  have "mset zs = mset ys + mset (x # xs)" "sorted_wrt before zs" using IH by (simp_all add: mset_insert_at)
  moreover have "b \<longleftrightarrow> bad \<or> (if ys = [] then room = 0 else length ys + 1 \<ge> room) \<or>
      xs \<noteq> [] \<and> room \<le> length ys + 1 + length xs"
    using IH ne len by simp
  ultimately show ?case by (cases xs; cases ys) auto
qed simp

lemma list_sorted_spec:
  "mset (fst (list_sorted lt room xs)) = mset xs" "sorted_wrt before (fst (list_sorted lt room xs))"
  "snd (list_sorted lt room xs) \<longleftrightarrow> xs \<noteq> [] \<and> (room = 0 \<or> 2 \<le> length xs \<and> room \<le> length xs)"
proof -
  obtain zs b where zs: "list_sorted lt room xs = (zs, b)" by fastforce
  then show "mset (fst (list_sorted lt room xs)) = mset xs" "sorted_wrt before (fst (list_sorted lt room xs))"
    "snd (list_sorted lt room xs) \<longleftrightarrow> xs \<noteq> [] \<and> (room = 0 \<or> 2 \<le> length xs \<and> room \<le> length xs)"
    using list_sorted_fold [of "[]" room xs False zs b] by (simp_all add: list_sorted_def)
qed

end

interpretation by_time: list_order "\<lambda>x y. u_t_group (usr st x) > u_t_group (usr st y)" for st
  by unfold_locales auto

interpretation by_name: list_order "\<lambda>x y. strcasecmp (g_name (grp st x)) (g_name (grp st y)) > 0" for st
proof
  fix x y z
  show "\<not> 0 < strcasecmp (g_name (grp st x)) (g_name (grp st y)) \<or>
      \<not> 0 < strcasecmp (g_name (grp st y)) (g_name (grp st x))"
    using strcmp_swap [of "map tolower (g_name (grp st x))" "map tolower (g_name (grp st y))"]
    by (auto simp: strcasecmp_def)
  show "\<not> 0 < strcasecmp (g_name (grp st x)) (g_name (grp st y)) \<Longrightarrow>
      \<not> 0 < strcasecmp (g_name (grp st y)) (g_name (grp st z)) \<Longrightarrow>
      \<not> 0 < strcasecmp (g_name (grp st x)) (g_name (grp st z))"
    using strcmp_trans by (simp add: strcasecmp_def not_less)
qed




section \<open>Away messages\<close>

lemma fmt_apply_plain: "CHR ''%'' \<notin> set p \<Longrightarrow> fmt_apply (p @ s) args = map_option (apfst ((@) p)) (fmt_apply s args)"
proof (induction p)
  case (Cons c p)
  then show ?case by (cases "fmt_apply s args") auto
qed (cases "fmt_apply s args"; auto simp: apfst_def)

lemma fmt_one_more: "fst (filterfmt m 1) = None \<Longrightarrow> fmt_apply m [] = None"
proof -
  obtain x y where xy: "fmt_scan m 0 0 = (x, y)" by fastforce
  assume "fst (filterfmt m 1) = None"
  then have "x = 1" using xy by (auto simp: filterfmt_def split: if_splits)
  then show ?thesis using fmt_scan_apply [OF xy, of "[]"] by auto
qed

lemma dec_int_plain [simp]: "CHR ''%'' \<notin> set (dec_int i)"
  using dec_int_chars [of "CHR ''%''" i] by (auto simp: is_digit_def)

lemma clock_text_plain: "CHR ''%'' \<notin> set (clock_text st)"
  by (simp add: clock_text_def pad2_def split: prod.split)

lemma clock_text_same [simp]: "clock_text (upd_u i f st) = clock_text st" "clock_text (emit d b r st) = clock_text st"
  by (simp_all add: clock_text_def upd_u_def need_u_def flag_fault_def emit_def)

lemma snprintf_fits: "length s < k \<Longrightarrow> snprintf k s = s"
  by (simp add: snprintf_def)




section \<open>The marks of a user in a listing\<close>

lemma pgm_line_eq:
  assumes "net_ok st"
  shows "\<exists>d b. pgm_line n which i st = emit d b False (flag_fault (length (who_status (usr st i)) \<ge> 8) st)"
  using assms by (auto simp: pgm_line_def user_wline_def doSend0_def doSend_emit Let_def)

lemma who_status_long:
  "length (who_status u) \<ge> 8 \<longleftrightarrow> u_secure u \<noteq> 0 \<and> (u_realname u = [] \<or> u_awaymsg u \<noteq> [])"
  by (simp add: who_status_def Let_def)

lemma pgm_lines_fault:
  "net_ok st \<Longrightarrow> fault st \<or> (\<exists>i \<in> set is. length (who_status (usr st i)) \<ge> 8) \<Longrightarrow> fault (fold (pgm_line n which) is st)"
proof (induction "is" arbitrary: st)
  case (Cons j "is")
  obtain d b where eq: "pgm_line n which j st = emit d b False (flag_fault (length (who_status (usr st j)) \<ge> 8) st)"
    using pgm_line_eq [OF Cons.prems(1)] by blast
  show ?case using Cons.IH [of "pgm_line n which j st"] Cons.prems by (auto simp: eq)
qed simp

lemma header_tabs:
  assumes "net_ok st"
  shows "u_tab (print_group_header n gi st) = u_tab st \<and> g_tab (print_group_header n gi st) = g_tab st \<and>
    net_ok (print_group_header n gi st)"
  using assms by (simp add: print_group_header_def Let_def sends_cmdout_emit)

text \<open>
  C20 (the marks in a listing): the marks of a member are built in a buffer of 8 bytes, which is
  too small exactly for a user on a TLS connection who is not registered or is away. Any listing
  of the members of that user's group overruns it.\<close>

theorem who_overflow:
  assumes "net_ok st" "find_group tgrp st \<ge> 0" "i \<in> set (members (find_group tgrp st) st)"
    and "u_secure (usr st i) \<noteq> 0" "u_realname (usr st i) = [] \<or> u_awaymsg (usr st i) \<noteq> []"
  shows "fault (doOne n 0 tgrp st)"
proof -
  let ?w = "find_group tgrp st"
  define s where "s = print_group_header n ?w st"
  have s: "u_tab s = u_tab st" "g_tab s = g_tab st" "net_ok s" using header_tabs [OF assms(1)] by (simp_all add: s_def)
  define s1 where "s1 = (if count_users_in_group (g_name (grp s ?w)) s \<ge> 2 then user_whead n s else s)"
  have s1: "u_tab s1 = u_tab st" "g_tab s1 = g_tab st" "net_ok s1"
    using s by (simp_all add: s1_def user_whead_def doSend0_def doSend_emit)
  let ?r = "list_sorted (\<lambda>x y. u_t_group (usr s1 x) > u_t_group (usr s1 y)) (nat (MAX_REAL_USERS s1)) (members ?w s1)"
  have mem: "members ?w s1 = members ?w st" using s1 by (simp add: members_def find_group_def usr_def)
  have "set (fst ?r) = set (members ?w s1)"
    using by_time.list_sorted_spec(1) [of s1 "nat (MAX_REAL_USERS s1)" "members ?w s1"] by (metis set_mset_mset)
  then have i: "i \<in> set (fst ?r)" using assms(3) mem by simp
  have "usr s1 i = usr st i" using s1(1) by (simp add: usr_def)
  then have "length (who_status (usr s1 i)) \<ge> 8" using assms(4,5) by (simp add: who_status_long)
  with i s1(3) have "fault (fold (pgm_line n ?w) (fst ?r) (flag_fault (snd ?r) s1))"
    by (intro pgm_lines_fault) auto
  then have "fault (pgm_long n ?w s)" by (simp only: pgm_long_def Let_def s1_def [symmetric] case_prod_beta)
  then show ?thesis using assms(2) by (simp add: doOne_def print_group_members_def s_def Let_def)
qed

theorem who_overflow_witness:
  "fault (doOne 1 0 ''CAFE'' (upd_u 0 (\<lambda>u. u\<lparr>u_secure := 1\<rparr>) demo))"
proof -
  let ?st = "upd_u 0 (\<lambda>u. u\<lparr>u_secure := 1\<rparr>) demo"
  have "find_group ''CAFE'' ?st \<ge> 0" "0 \<in> set (members (find_group ''CAFE'' ?st) ?st)"
    "u_secure (usr ?st 0) \<noteq> 0" "u_realname (usr ?st 0) = []" by code_simp+
  then show ?thesis by (intro who_overflow [of _ _ 0]) simp_all
qed

end
