(* ===== verification/CmdEnds.thy ===== *)
theory CmdEnds
  imports MsgProps
begin

text \<open>
  Commands within commands: a private message to the server user is run as a command, so
  \<open>cmdmsg\<close> calls itself through \<open>s_personal\<close>, \<open>sendperson\<close> and \<open>doSend\<close>. The command it runs is shorter
  than the one it comes from, so that the recursion ends, and the fuel of the model, the length of the
  packet, is always enough.
\<close>

section \<open>Two ways of running the inner command\<close>

definition agree :: "int \<Rightarrow> nat \<Rightarrow> nat \<Rightarrow> cmd_fun \<Rightarrow> cmd_fun \<Rightarrow> bool" where
  "agree n m len f g \<longleftrightarrow> (\<forall>line s. length line < len \<longrightarrow> length (u_tab s) = m \<longrightarrow> f n line s = g n line s)"

lemma doSend_real:
  "dest < MAX_REAL_USERS st \<Longrightarrow> doSend ab f from dest body st = doSend ab' g from dest body st"
  by (simp add: doSend_def)

lemma length_getword: "length (getword s) \<le> length (takeWhile (\<lambda>c. \<not> is_blank c) s)"
  by (simp add: getword_def)

lemma inner_length: "length (getword s @ SEP # get_tail s) \<le> length s + 1"
proof -
  obtain ws where "s = takeWhile (\<lambda>c. \<not> is_blank c) s @ ws @ get_tail s" by (rule getword_tail)
  then have "length s = length (takeWhile (\<lambda>c. \<not> is_blank c) s) + length ws + length (get_tail s)"
    by (metis length_append add.assoc)
  then show ?thesis using length_getword [of s] by simp
qed

lemma length_snprintf_le: "length (snprintf k s) \<le> length s"
  by (simp add: snprintf_def)

lemma personal_field:
  assumes "SEP \<notin> set a" "SEP \<notin> set b" "length a < 252" "c \<noteq> SEP"
  shows "fst (split (CHR '' '' # packet_text c (a @ SEP # b))) = [CHR '' '' # c # a, take (252 - length a) b]"
proof -
  have "packet_text c (a @ SEP # b) = (c # a) @ SEP # take (252 - length a) b"
    using assms(3) by (simp add: packet_text_def snprintf_def take_Cons')
  moreover have "SEP \<notin> set (take (252 - length a) b)" using assms(2) by (meson in_set_takeD)
  ultimately show ?thesis using two_fields [of "CHR '' '' # c # a"] assms(1,4) by simp
qed

lemma field_store: "i < length fs \<Longrightarrow> i < MAX_FIELDS \<Longrightarrow> field (st\<lparr>pfields := store_fields old fs\<rparr>) i = fs ! i"
  by (simp add: field_def store_fields_def nth_append min_def)

lemma field_flag [simp]: "field (flag_fault b st) i = field st i"
  by (simp add: field_def flag_fault_def)

lemma doSend_personal:
  assumes "agree n (length (u_tab st)) len f g" "SEP \<notin> set a" "SEP \<notin> set b" "length a < 252" "length b + 1 < len"
  shows "doSend ab f n dest (packet_text ICB_M_PERSONAL (a @ SEP # b)) st =
    doSend ab' g n dest (packet_text ICB_M_PERSONAL (a @ SEP # b)) st"
proof (cases "dest < MAX_REAL_USERS st")
  case False
  let ?fs = "[CHR '' '' # ICB_M_PERSONAL # a, take (252 - length a) b]"
  let ?st = "flag_fault (length ?fs > MAX_FIELDS) (st\<lparr>pfields := store_fields (pfields st) ?fs\<rparr>)"
  let ?line = "snprintf (MAX_PKT_DATA - 2) (getword (field ?st 1) @ SEP # get_tail (field ?st 1))"
  have "field ?st 1 = take (252 - length a) b" by (simp add: field_store MAX_FIELDS_def)
  then have "length ?line \<le> length b + 1"
    using inner_length [of "field ?st 1"] length_snprintf_le
    by (metis (no_types, lifting) add_le_mono1 le_trans length_take min.cobounded1)
  then have eq: "f n ?line ?st = g n ?line ?st" using assms(1,5) by (simp add: agree_def)
  show ?thesis
    using False eq personal_field [OF assms(2-4), of ICB_M_PERSONAL]
    by (simp add: doSend_def Let_def del: append.simps)
qed (rule doSend_real)

section \<open>Messages to real users run no command\<close>

abbreviation (input) no_cmd :: cmd_fun where "no_cmd \<equiv> \<lambda>_ _ s. s"

lemma sendperson_real:
  "dest < MAX_REAL_USERS st \<Longrightarrow> sendperson ab f src dest m st = sendperson ab' g src dest m st"
  by (simp add: sendperson_def ftext_eq Let_def doSend_real [of dest _ ab f src _ ab' g])

lemma stored_real:
  "dest < MAX_REAL_USERS st \<Longrightarrow> send_person_stored ab f dest nick m st = send_person_stored ab' g dest nick m st"
  by (simp add: send_person_stored_def ftext_eq Let_def doSend_real [of dest _ ab f _ _ ab' g])

lemma autoBeep_real: "n < MAX_REAL_USERS st \<Longrightarrow> autoBeep f n st = autoBeep g n st"
  unfolding autoBeep_def using sendperson_real [of n st _ f] by metis

lemma sendbeep_real: "n < MAX_REAL_USERS st \<Longrightarrow> sendbeep f n dest st = sendbeep g n dest st"
  by (simp add: sendbeep_def Let_def doSend_def packet_text_def snprintf_def autoBeep_real [of n _ f g])

lemma s_beep_real: "n < MAX_REAL_USERS st \<Longrightarrow> s_beep f n argc st = s_beep g n argc st"
  by (simp add: s_beep_def Let_def sendbeep_real [of n st f _ g])

lemma read_one_real:
  assumes "n < MAX_REAL_USERS st"
  shows "read_one f n nick i st = read_one g n nick i st"
proof -
  have len: "length (u_tab (snd (db_get a b s))) = length (u_tab s)" "length (u_tab (db_delete a b s)) = length (u_tab s)"
    "length (u_tab (sends_cmdout n x s)) = length (u_tab s)" for a b s x
    using runs_len [OF run.P_db_get [OF runs_refl]] runs_len [OF run.P_db_delete [OF runs_refl]]
      runs_len [OF run.P_senders(6) [OF runs_refl]] by blast+
  show ?thesis
    unfolding read_one_def
    using assms
    by (auto simp: Let_def case_prod_beta len stored_real [of n _ "autoBeep f" f _ _ "autoBeep g" g] split: option.split)
qed

lemma nickreadmsg_real:
  assumes "n < MAX_REAL_USERS st"
  shows "nickreadmsg f n st = nickreadmsg g n st"
proof -
  have len: "length (u_tab (snd (db_get_int a b s))) = length (u_tab s)" "length (u_tab (db_open s)) = length (u_tab s)"
    "length (u_tab (read_one no_cmd n nick i s)) = length (u_tab s)" for a b s nick i
    using runs_len [OF run.P_db_get_int [OF runs_refl]] runs_len [OF run.P_db_open [OF runs_refl]]
      runs_len [OF run.P_read_one [of s no_cmd, OF _ runs_refl]] by simp_all
  have "fold (read_one h n nick) xs s = fold (read_one no_cmd n nick) xs s"
    if "n < MAX_REAL_USERS s" for h nick s and xs :: "int list"
    using that
  proof (induction xs arbitrary: s)
    case (Cons i xs)
    then show ?case using read_one_real [of n s h nick i no_cmd] Cons.IH [of "read_one no_cmd n nick i s"]
      by (simp add: len)
  qed simp
  note f = this [of _ f] and g = this [of _ g]
  have "fold (read_one f n nick) xs (snd (db_get_int a b (db_open st))) =
      fold (read_one g n nick) xs (snd (db_get_int a b (db_open st)))" for nick a b and xs :: "int list"
    using f g assms by (simp add: len)
  then show ?thesis by (simp add: nickreadmsg_def Let_def case_prod_beta split: option.split)
qed

lemma s_auto_real:
  assumes "n < MAX_REAL_USERS st"
  shows "s_auto f n st = s_auto g n st"
proof -
  have "auto_cmd f w n st = auto_cmd g w n st" for w
    by (simp add: auto_cmd_def Let_def nickreadmsg_real [OF assms, of f g]
        sendperson_real [OF assms, of "autoBeep f" f _ _ "autoBeep g" g])
  then show ?thesis by (simp add: s_auto_def)
qed

section \<open>A private message\<close>

lemma pfields_sendstatus [simp]: "pfields (sendstatus d s m st) = pfields st" "length (u_tab (sendstatus d s m st)) = length (u_tab st)"
  by (simp_all add: sendstatus_def ftext_eq doSend0_def doSend_def transmit_def Let_def upd_u_def need_u_def flag_fault_def)

lemma field_sendstatus [simp]: "field (sendstatus d s m st) i = field st i"
  by (simp add: field_def)

lemma sendperson_agree:
  assumes "agree n (length (u_tab st)) len f g" "length m + 1 < len"
  shows "sendperson ab f n dest m st = sendperson ab' g n dest m st"
proof -
  have "doSend ab f n dest (packet_text ICB_M_PERSONAL (ftxt 13 x @ SEP # ftxt 241 m)) s =
      doSend ab' g n dest (packet_text ICB_M_PERSONAL (ftxt 13 x @ SEP # ftxt 241 m)) s" if "u_tab s = u_tab st" for s x
    by (rule doSend_personal [where len = len])
      (use assms that ftxt_props(2) [of 241 m] ftxt_props(2) [of 13 x] in \<open>simp_all add: ftxt_props(1)\<close>)
  then show ?thesis by (simp add: sendperson_def ftext_eq Let_def)
qed

lemma s_personal_agree:
  assumes "agree n (length (u_tab st)) len f g" "argc = 2 \<Longrightarrow> length (field st 1) < len"
  shows "s_personal f n argc st = s_personal g n argc st"
proof (cases "argc \<noteq> 2 \<or> find_user (getword (field st 1)) st < 0")
  case False
  then have "getword (field st 1) \<noteq> []" by (auto simp: find_user_def)
  then have "length (get_tail (field st 1)) + 1 < len" using get_tail_less [of "field st 1"] assms(2) False by simp
  then have "sendperson (autoBeep f) f n d (get_tail (field st 1)) s = sendperson (autoBeep g) g n d (get_tail (field st 1)) s"
    if "s = st \<or> s = sendstatus n ''Away'' ''Your away is still set...'' st" for d s
    using that assms(1) by (intro sendperson_agree) auto
  with False show ?thesis
    by (simp add: s_personal_def Let_def)
qed (auto simp: s_personal_def Let_def)

section \<open>Any command\<close>

lemma run_command_agree:
  assumes "n < MAX_REAL_USERS st" "agree n (length (u_tab st)) len f g" "argc = 2 \<Longrightarrow> length (field st 1) < len"
  shows "run_command f which n argc st = run_command g which n argc st"
  by (simp only: run_command_def s_personal_agree [OF assms(2,3)] s_beep_real [OF assms(1), of f argc g]
      s_auto_real [OF assms(1), of f g])

lemma split_second:
  assumes "snd (split pkt) = 2"
  shows "\<exists>a b. fst (split pkt) = [a, b] \<and> length b < length pkt"
proof -
  have "length (fst (split pkt)) = 2"
    using assms split_loop_count [of 1 pkt] by (auto simp: split_def MAX_FIELDS_def min_def split: if_splits)
  then obtain a b where ab: "fst (split pkt) = [a, b]" by (auto simp: numeral_2_eq_2 length_Suc_conv)
  then have "pkt = a @ SEP # b" using split_loop_join [of 1 pkt] by (simp add: split_def)
  then show ?thesis using ab by simp
qed

lemma cmd_step_agree:
  assumes "n < MAX_REAL_USERS st" "agree n (length (u_tab st)) (length pkt) f g"
  shows "cmd_step f n pkt st = cmd_step g n pkt st"
proof -
  obtain fs k where fs: "split pkt = (fs, k)" by fastforce
  let ?st1 = "upd_u n (\<lambda>u. u\<lparr>u_t_recv := now (need_u n st)\<rparr>) (need_u n st)"
  let ?st2 = "flag_fault (length fs > MAX_FIELDS) (?st1\<lparr>pfields := store_fields (pfields ?st1) fs\<rparr>)"
  have len: "length (u_tab ?st2) = length (u_tab st)" by simp
  have "length (field ?st2 1) < length pkt" if "int k = 2"
    using split_second [of pkt] that fs by (auto simp: field_store MAX_FIELDS_def)
  then have "run_command f w n (int k) ?st2 = run_command g w n (int k) ?st2" for w
    using assms len by (intro run_command_agree [where len = "length pkt"]) auto
  then show ?thesis by (simp add: cmd_step_def split_packet_def fs Let_def)
qed

lemma cmdmsg_fuel:
  "n < MAX_REAL_USERS st \<Longrightarrow> length pkt < k \<Longrightarrow> length pkt < k' \<Longrightarrow> cmdmsg k n pkt st = cmdmsg k' n pkt st"
proof (induction "length pkt" arbitrary: pkt st k k' rule: less_induct)
  case less
  obtain j j' where j: "k = Suc j" "k' = Suc j'" using less.prems by (metis less_nat_zero_code not0_implies_Suc)
  have "agree n (length (u_tab st)) (length pkt) (cmdmsg j) (cmdmsg j')"
    unfolding agree_def by (intro allI impI less.hyps) (use less.prems j in auto)
  then show ?case using cmd_step_agree [OF less.prems(1)] j by simp
qed

text \<open>
  C8 (commands end): running the command packet of a connected user needs no more steps than the
  packet has bytes. With that much fuel or more the model does exactly what the program does, which
  has no fuel: it runs the command, and where a message to the server user is itself a command, it
  runs that one in the same way, whatever it is and however deep it goes.\<close>

theorem command_ends:
  assumes "n < MAX_REAL_USERS st" "length pkt < fuel"
  shows "cmdmsg fuel n pkt st = cmd_step (\<lambda>n line s. cmdmsg (Suc (length line)) n line s) n pkt st"
proof -
  obtain k where k: "fuel = Suc k" using assms(2) by (cases fuel) auto
  have "agree n (length (u_tab st)) (length pkt) (cmdmsg k) (\<lambda>n line s. cmdmsg (Suc (length line)) n line s)"
    unfolding agree_def by (intro allI impI cmdmsg_fuel) (use assms k in auto)
  then show ?thesis using cmd_step_agree [OF assms(1)] k by simp
qed

theorem command_ends_witness:
  "cmdmsg 30 0 (''m'' @ SEP # ''server m server m server ?'') demo =
     cmd_step (\<lambda>n line s. cmdmsg (Suc (length line)) n line s) 0 (''m'' @ SEP # ''server m server m server ?'') demo"
  by (rule command_ends) simp_all

end
