(* ===== verification/AccessProps.thy ===== *)
theory AccessProps
  imports Frame
begin

text \<open>
  Properties of registration and authentication: theory \<open>Access\<close> and the part of \<open>loginmsg\<close> that
  decides whether a user is registered. The locale \<open>attributes\<close> is what the functions need from the
  database: attributes of nicknames that are read, written and deleted. It is interpreted on the
  database of theory \<open>IcbDb\<close>. The locale \<open>quiet\<close> has the operations that leave the users alone.
\<close>

section \<open>The attributes of a nickname\<close>

definition db_ok :: "srv \<Rightarrow> bool" where
  "db_ok st \<longleftrightarrow> ready (userdb st)"

definition attr :: "cstring \<Rightarrow> cstring \<Rightarrow> srv \<Rightarrow> cstring option" where
  "attr nick a st = map_option c_str (idb_look (userdb st) (key_of (Some nick) a))"

text \<open>Nicknames and attributes that fit the buffer for the key.\<close>

definition small :: "cstring \<Rightarrow> bool" where
  "small s \<longleftrightarrow> length s < 100"

locale attributes =
  fixes ok :: "srv \<Rightarrow> bool"
    and look :: "cstring \<Rightarrow> cstring \<Rightarrow> srv \<Rightarrow> cstring option"
    and get :: "cstring \<Rightarrow> cstring \<Rightarrow> srv \<Rightarrow> cstring option \<times> srv"
    and put :: "cstring \<Rightarrow> cstring \<Rightarrow> icbdb_val \<Rightarrow> srv \<Rightarrow> srv"
    and opn :: "srv \<Rightarrow> srv" and cls :: "srv \<Rightarrow> srv"
  assumes get_look: "ok st \<Longrightarrow> get nick a st = (look nick a st, st)"
    and put_ok: "ok st \<Longrightarrow> ok (put nick a v st)"
    and put_look: "ok st \<Longrightarrow> small nick \<Longrightarrow> small a \<Longrightarrow> small b \<Longrightarrow>
      look nick b (put nick a (VStr s) st) = (if strcaseeq a b then Some (c_str s) else look nick b st)"
    and opn_cls: "ok st \<Longrightarrow> cls (opn st) = st"
    and opn_ok: "ok st \<Longrightarrow> ok (opn st)" and cls_ok: "ok st \<Longrightarrow> ok (cls st)"
    and opn_look: "ok st \<Longrightarrow> look nick a (opn st) = look nick a st"
    and cls_look: "ok st \<Longrightarrow> look nick a (cls st) = look nick a st"
begin

lemma get_open: "ok st \<Longrightarrow> get nick a (opn st) = (look nick a st, opn st)"
  using get_look [of "opn st"] opn_ok opn_look by simp

end

lemma key_of_attr:
  assumes "small nick" "small a" "small b"
  shows "key_of (Some nick) a = key_of (Some nick) b \<longleftrightarrow> strcaseeq a b"
  using assms
  by (simp add: key_of_def icbdb_make_key_def lcaseit_map snprintf_def DBLKSIZ_def small_def strcaseeq_def)

interpretation adb: attributes db_ok attr db_get db_set db_open db_close
proof
  fix st nick a and v :: icbdb_val
  show "db_get nick a st = (attr nick a st, st)" if "db_ok st"
    using that icbdb_get_ready [of "userdb st" "Some nick" a ICBDB_STRING]
    by (cases "idb_look (userdb st) (key_of (Some nick) a)") (auto simp: db_ok_def db_get_def attr_def read_val_def)
  show "db_ok (db_set nick a v st)" if "db_ok st"
    using that icbdb_set_ready [of "userdb st" "Some nick" a v] by (auto simp: db_ok_def db_set_def)
  show "db_close (db_open st) = st" if "db_ok st"
    using that by (simp add: db_ok_def db_open_def db_close_def icbdb_open_ready icbdb_close_ready)
  show "db_ok (db_open st)" if "db_ok st"
    using that by (simp add: db_ok_def db_open_def icbdb_open_ready)
  show "db_ok (db_close st)" if "db_ok st"
    using that by (simp add: db_ok_def db_close_def icbdb_close_ready)
  show "attr nick a (db_open st) = attr nick a st" "attr nick a (db_close st) = attr nick a st" if "db_ok st"
    using that by (simp_all add: db_ok_def attr_def db_open_def db_close_def icbdb_open_ready icbdb_close_ready)
next
  fix st nick a b s
  assume "db_ok st" "small nick" "small a" "small b"
  then show "attr nick b (db_set nick a (VStr s) st) = (if strcaseeq a b then Some (c_str s) else attr nick b st)"
    using icbdb_set_ready [of "userdb st" "Some nick" a "VStr s"] key_of_attr [of nick a b]
    by (auto simp: db_ok_def db_set_def attr_def write_val_def c_str_def)
qed


section \<open>Operations that leave the users alone\<close>

named_theorems quieted

locale quiet = threaded +
  assumes Q_net: "P st \<Longrightarrow> net_ok st"
    and Q_emit: "P st \<Longrightarrow> P (emit d b r st)"
    and Q_flag: "P st \<Longrightarrow> P (flag_fault c st)"
    and Q_overread: "P st \<Longrightarrow> P (st\<lparr>overread := overread st \<or> c\<rparr>)"
    and Q_upd_g: "P st \<Longrightarrow> P (upd_g i g st)"
    and Q_db: "P st \<Longrightarrow> P (st\<lparr>userdb := db\<rparr>)"
begin

lemmas [quieted] = Q_flag Q_overread Q_upd_g Q_db threads

lemma Q_senders [quieted]:
  "P st \<Longrightarrow> P (senderror d m st)" "P st \<Longrightarrow> P (sendstatus d s m st)" "P st \<Longrightarrow> P (sends_cmdout d m st)"
  by (simp_all add: senderror_emit sendstatus_emit sends_cmdout_emit Q_net Q_emit)

lemma Q_dbs [quieted]:
  "P st \<Longrightarrow> P (db_open st)" "P st \<Longrightarrow> P (db_close st)" "P st \<Longrightarrow> P (snd (db_get nick a st))"
  "P st \<Longrightarrow> P (snd (db_get_int nick a st))" "P st \<Longrightarrow> P (db_set nick a v st)" "P st \<Longrightarrow> P (db_delete nick a st)"
  unfolding db_open_def db_close_def db_get_def db_get_int_def db_set_def db_delete_def by (intro quieted; assumption)+

lemma Q_nickwritetime [quieted]: "P st \<Longrightarrow> P (snd (nickwritetime n c st))"
  using nickwritetime_db [of n c st] Q_db by fastforce

lemma Q_put_line [quieted]: "P st \<Longrightarrow> P (put_line n line st)"
  unfolding put_line_def by (intro quieted)

lemma Q_attr_or [quieted]: "P st \<Longrightarrow> P (snd (attr_or deflt nick a st))"
  unfolding attr_or_def by (intro quieted)

lemma Q_cols [quieted]: "P st \<Longrightarrow> P (two_cols n nick t1 a1 t2 a2 deflt st)" "P st \<Longrightarrow> P (one_col n nick t a st)"
  unfolding two_cols_def one_col_def by (intro quieted; assumption)+

lemma Q_show_text [quieted]: "P st \<Longrightarrow> P (show_text n temp line st)"
  unfolding show_text_def by (intro quieted)

lemma Q_show_record [quieted]: "P st \<Longrightarrow> P (show_record n nick nickstr home st)"
  unfolding show_record_def by (intro quieted)

lemma Q_nicklookup [quieted]: "P st \<Longrightarrow> P (snd (nicklookup n nick st))"
  unfolding nicklookup_def by (intro quieted)

lemma Q_nickckmsg [quieted]: "P st \<Longrightarrow> P (snd (nickckmsg n st))"
  unfolding nickckmsg_def by (intro quieted)

lemma Q_report_msgs [quieted]: "P st \<Longrightarrow> P (report_msgs n st)"
  unfolding report_msgs_def by (intro quieted)

lemma Q_regain_mods [quieted]: "P st \<Longrightarrow> P (regain_mods n st)"
  unfolding regain_mods_def by (intro quieted)

lemma Q_talk_report [quieted]: "P st \<Longrightarrow> P (talk_report n gi st)"
  unfolding talk_report_def by (intro quieted)

lemma Q_report_missing [quieted]: "P st \<Longrightarrow> P (report_missing n st)"
  unfolding report_missing_def by (intro quieted)

end

definition users_are :: "user_item list \<Rightarrow> srv \<Rightarrow> bool" where
  "users_are U st \<longleftrightarrow> u_tab st = U \<and> net_ok st"

interpretation still: quiet "users_are U" for U
  by unfold_locales (simp_all add: users_are_def)

lemma users_areI: "net_ok st \<Longrightarrow> users_are (u_tab st) st"
  by (simp add: users_are_def)

lemma users_are_usr: "users_are (u_tab st) st' \<Longrightarrow> usr st' i = usr st i"
  by (simp add: users_are_def usr_def)

section \<open>Authentication at login\<close>

lemma userdb_kept [simp]:
  "userdb (emit d b r st) = userdb st" "userdb (upd_u i f st) = userdb st" "userdb (need_u i st) = userdb st"
  by (simp_all add: emit_def upd_u_def need_u_def flag_fault_def)

lemma db_ok_simps [simp]:
  "db_ok (emit d b r st) = db_ok st" "db_ok (upd_u i f st) = db_ok st" "db_ok (need_u i st) = db_ok st"
  by (simp_all add: db_ok_def)

lemma attr_simps [simp]:
  "attr k a (emit d b r st) = attr k a st" "attr k a (upd_u i f st) = attr k a st"
  "attr k a (need_u i st) = attr k a st"
  by (simp_all add: attr_def)

lemma db_tables [simp]:
  "u_tab (db_open st) = u_tab st" "u_tab (db_close st) = u_tab st" "u_tab (db_set k a v st) = u_tab st"
  "usr (db_open st) i = usr st i" "usr (db_close st) i = usr st i" "usr (db_set k a v st) i = usr st i"
  "net_ok (db_open st) = net_ok st" "net_ok (db_close st) = net_ok st" "net_ok (db_set k a v st) = net_ok st"
  by (simp_all add: db_open_def db_close_def db_set_def net_ok_def usr_def)

lemmas adb_simps [simp] = adb.opn_look adb.cls_look adb.get_look adb.opn_ok adb.cls_ok adb.put_ok adb.opn_cls

lemma attr_names:
  "\<not> strcaseeq ''home'' ''password''" "\<not> strcaseeq ''nick'' ''password''" "\<not> strcaseeq ''nick'' ''home''"
  "\<not> strcaseeq ''password'' ''home''" "\<not> strcaseeq ''signon'' ''password''" "\<not> strcaseeq ''signon'' ''home''"
  by code_simp+

definition home_user :: "int \<Rightarrow> srv \<Rightarrow> cstring" where
  "home_user n st = u_loginid (usr st n) @ ''@'' @ u_nodeid (usr st n)"

lemma nicklookup_login:
  assumes "db_ok st" "0 < n" "nick \<noteq> []" "length nick \<le> MAX_NICKLEN"
  shows "nicklookup (- n) nick st =
    (case attr nick ''home'' st of
       None \<Rightarrow> -1
     | Some h \<Rightarrow> if strcaseeq h (home_user n st) \<and> attr nick ''secure'' st = None then 0 else -2, st)"
  using assms by (auto simp: nicklookup_def Let_def home_user_def split: option.split)

lemma still_db:
  assumes "net_ok st"
  shows "usr (snd (nickwritetime n c st)) i = usr st i" "usr (regain_mods n st) i = usr st i"
    "usr (report_msgs n st) i = usr st i" "usr (report_missing n st) i = usr st i"
  using assms
  by (auto intro!: users_are_usr still.Q_nickwritetime still.Q_regain_mods still.Q_report_msgs still.Q_report_missing users_areI)

lemma still_net:
  assumes "net_ok st"
  shows "net_ok (snd (nickwritetime n c st))" "net_ok (regain_mods n st)"
    "net_ok (report_msgs n st)" "net_ok (report_missing n st)"
  using still.Q_nickwritetime [OF users_areI [OF assms]] still.Q_regain_mods [OF users_areI [OF assms]]
    still.Q_report_msgs [OF users_areI [OF assms]] still.Q_report_missing [OF users_areI [OF assms]]
  by (simp_all add: users_are_def)

lemma still_talk:
  assumes "net_ok st"
  shows "usr (fold (talk_report n) gs st) i = usr st i" "net_ok (fold (talk_report n) gs st)"
proof -
  have "users_are (u_tab st) (fold (talk_report n) gs st)"
    by (rule still.P_fold) (auto intro: still.Q_talk_report users_areI assms)
  then show "usr (fold (talk_report n) gs st) i = usr st i" "net_ok (fold (talk_report n) gs st)"
    by (simp_all add: users_are_def usr_def)
qed

text \<open>Whether the password is the one of the nickname, and what \<open>nickwrite\<close> does for a login.\<close>

lemma nickwrite_verify:
  assumes "net_ok st" "db_ok st" "in_tab n (u_tab st)" "pw \<noteq> []"
  defines "nick \<equiv> u_nickname (usr st n)"
  shows "fst (nickwrite n pw True st) = (if attr nick ''password'' st = Some (take MAX_PASSWDLEN pw) then 0 else -1)"
    "u_realname (usr (snd (nickwrite n pw True st)) n) =
       (if attr nick ''password'' st = Some (take MAX_PASSWDLEN pw) then ''registered''
        else if attr nick ''password'' st = None then u_realname (usr st n) else [])"
    "net_ok (snd (nickwrite n pw True st))"
  using assms
  by (auto simp: nickwrite_def Let_def sender_emits set_registered_def still_db still_net still_talk split: option.split)


text \<open>
  C10 (authentication at login): when a client of the slot \<open>n > 0\<close> logs in under a nickname, it becomes
  registered exactly if the nickname has a record and either the record's address is the client's
  (and the record is not secured) or the password of the packet, cut to 12 characters, is the stored
  one; in every other case it stays unregistered.\<close>

theorem login_authentic:
  assumes "net_ok st" "db_ok st" "in_tab n (u_tab st)" "0 < n" "u_realname (usr st n) = []"
    and "u_nickname (usr st n) \<noteq> []" "length (u_nickname (usr st n)) \<le> MAX_NICKLEN"
  defines "rec \<equiv> \<lambda>a. attr (u_nickname (usr st n)) a st" and "pw \<equiv> u_password (usr st n)"
  shows "u_realname (usr (login_register n st) n) =
    (if \<exists>h. rec ''home'' = Some h \<and>
          (strcaseeq h (home_user n st) \<and> rec ''secure'' = None \<or> pw \<noteq> [] \<and> rec ''password'' = Some (take MAX_PASSWDLEN pw))
     then ''registered'' else [])"
proof -
  note look = nicklookup_login [OF assms(2,4,6,7)] and pass = nickwrite_verify [OF assms(1-3)]
  show ?thesis
    using assms(1-5) look pass [of pw]
    by (auto simp: login_register_def Let_def rec_def pw_def sender_emits still_db still_net set_registered_def
        split: prod.split option.split if_split_asm)
qed


theorem login_authentic_witness:
  "u_realname (usr (login_register 1 (db_set ''bob'' ''password'' (VStr ''sesame'') (db_set ''bob'' ''home'' (VStr ''x@y'')
     (upd_u 1 (\<lambda>u. u\<lparr>u_password := ''sesame''\<rparr>) demo)))) 1) = ''registered''"
proof -
  let ?a = "upd_u 1 (\<lambda>u. u\<lparr>u_password := ''sesame''\<rparr>) demo"
  let ?st = "db_set ''bob'' ''password'' (VStr ''sesame'') (db_set ''bob'' ''home'' (VStr ''x@y'') ?a)"
  have ok: "db_ok demo" by (simp add: db_ok_def demo_def ready_first_open)
  have u: "usr ?st 1 = (demo_user ''bob'' ''cafe'')\<lparr>u_password := ''sesame''\<rparr>" by (simp add: in_tab_def)
  have "attr ''bob'' ''home'' ?st = Some ''x@y''" "attr ''bob'' ''password'' ?st = Some ''sesame''"
    using ok by (simp_all add: adb.put_look small_def attr_names c_str_def)
  moreover have "in_tab 1 (u_tab ?st)" by (simp add: in_tab_def)
  moreover have "net_ok ?st" "db_ok ?st" using ok by simp_all
  ultimately show ?thesis
    using login_authentic [of ?st 1] unfolding u by (simp add: demo_user_def blank_user_def)
qed

text \<open>
  The first slot is different: \<open>nicklookup\<close> is asked to check instead of to print by the sign of the slot,
  and there is no minus zero. Whatever the record says and whatever the password is, the client of slot 0
  becomes registered under any nickname that has a record.\<close>

lemma slot0_unchecked:
  assumes "net_ok st" "db_ok st" "in_tab 0 (u_tab st)" "u_realname (usr st 0) = []"
    and "u_nickname (usr st 0) \<noteq> []" "length (u_nickname (usr st 0)) \<le> MAX_NICKLEN"
    and "attr (u_nickname (usr st 0)) ''home'' st = Some h"
  shows "u_realname (usr (login_register 0 st) 0) = ''registered''"
proof -
  let ?nick = "u_nickname (usr st 0)"
  define s where "s = snd (nicklookup 0 ?nick st)"
  have look: "nicklookup 0 ?nick st = (0, s)"
    using assms(2,5-7) by (simp add: nicklookup_def s_def Let_def)
  have "users_are (u_tab st) s" unfolding s_def by (intro still.Q_nicklookup users_areI assms)
  then have "usr s 0 = usr st 0" "net_ok s" "in_tab 0 (u_tab s)"
    using assms(3) by (simp_all add: users_are_def usr_def)
  then show ?thesis
    using assms(4) by (simp add: login_register_def look sender_emits still_db still_net set_registered_def)
qed

section \<open>Registration\<close>

lemma nickwritetime_attr:
  assumes "db_ok st" "small (u_nickname (usr st n))" "small a" "\<not> strcaseeq ''signon'' a"
  shows "attr (u_nickname (usr st n)) a (snd (nickwritetime n 0 st)) = attr (u_nickname (usr st n)) a st \<and>
    db_ok (snd (nickwritetime n 0 st))"
proof (cases "u_realname (usr st n) = []")
  case False
  let ?nick = "u_nickname (usr st n)" and ?t = "VStr (snprintf 255 (timefmt st (now st)))"
  have "snd (nickwritetime n 0 st) = db_close (db_set ?nick ''signon'' ?t (db_open st))"
    using False by (simp add: nickwritetime_def Let_def db_close_def db_set_def db_open_def)
  then show ?thesis using assms by (simp add: adb.put_look small_def)
qed (use assms in \<open>simp add: nickwritetime_def\<close>)

text \<open>
  C16 (registering): a nickname without a password is registered by sending one: the user becomes registered, and from
  then on a password is accepted for that nickname exactly if it agrees with the one sent on the first 12 characters;
  the address of the record is that of the user.\<close>

theorem password_roundtrip:
  assumes "net_ok st" "db_ok st" "in_tab n (u_tab st)" "pw \<noteq> []" "CHR 0x00 \<notin> set pw"
  defines "nick \<equiv> u_nickname (usr st n)" and "new \<equiv> snd (nickwrite n pw False st)"
  assumes "small nick" "attr nick ''password'' st = None"
  shows "u_realname (usr new n) = ''registered'' \<and> attr nick ''home'' new = Some (c_str (home_of st n)) \<and>
    fst (valuser nick pw' new) = (if pw' \<noteq> [] \<and> take MAX_PASSWDLEN pw' = take MAX_PASSWDLEN pw then 0 else -1)"
proof -
  define a where "a = db_set nick ''home'' (VStr (home_of st n)) (db_set nick ''nick'' (VStr nick)
    (db_set nick ''password'' (VStr (take MAX_PASSWDLEN pw)) (db_open (need_u n st))))"
  define b where "b = set_registered n (sendstatus n ''Register'' ''Nick registered'' a)"
  have new: "new = db_close (upd_u n (\<lambda>u. u\<lparr>u_password := take MAX_PASSWDLEN pw\<rparr>) (snd (nickwritetime n 0 b)))"
    using assms(2,4,9) by (simp add: new_def nickwrite_def Let_def a_def b_def nick_def home_of_def)
  have "c_str (take MAX_PASSWDLEN pw) = take MAX_PASSWDLEN pw" using assms(5) by (auto intro!: c_str_id dest: in_set_takeD)
  then have a: "attr nick ''password'' a = Some (take MAX_PASSWDLEN pw)" "attr nick ''home'' a = Some (c_str (home_of st n))"
    "db_ok a" "net_ok a" "u_tab a = u_tab st"
    using assms(1,2,8) by (simp_all add: a_def adb.put_look small_def attr_names)
  have b: "u_nickname (usr b n) = nick" "attr nick x b = attr nick x a" "db_ok b" "net_ok b"
    "u_realname (usr b n) = ''registered''" "in_tab n (u_tab b)" for x
    using a assms(3) by (simp_all add: b_def set_registered_def sender_emits nick_def usr_def [of a] usr_def [of st])
  have w: "attr nick ''password'' (snd (nickwritetime n 0 b)) = attr nick ''password'' b"
    "attr nick ''home'' (snd (nickwritetime n 0 b)) = attr nick ''home'' b" "db_ok (snd (nickwritetime n 0 b))"
    using nickwritetime_attr [OF b(3), of n "''password''"] nickwritetime_attr [OF b(3), of n "''home''"] assms(8)
    by (simp_all add: b(1) small_def attr_names)
  then have "attr nick ''password'' new = Some (take MAX_PASSWDLEN pw)" "attr nick ''home'' new = Some (c_str (home_of st n))"
    "db_ok new" "u_realname (usr new n) = ''registered''"
    using a(1,2) b(2,4,5) by (simp_all add: new still_db)
  then show ?thesis by (auto simp: valuser_def)
qed


theorem password_roundtrip_witness:
  "fst (valuser ''bob'' ''sesame-street-1'' (snd (nickwrite 1 ''sesame-street'' False demo))) = 0 \<and>
   fst (valuser ''bob'' ''sesam'' (snd (nickwrite 1 ''sesame-street'' False demo))) = -1"
proof -
  have u: "usr demo 1 = demo_user ''bob'' ''cafe''" by simp
  have "db_ok demo" "attr ''bob'' ''password'' demo = None"
    by (simp_all add: db_ok_def attr_def demo_def ready_first_open)
  then show ?thesis
    using password_roundtrip [of demo 1 "''sesame-street''" "''sesame-street-1''"]
      password_roundtrip [of demo 1 "''sesame-street''" "''sesam''"]
    by (simp add: u demo_user_def in_tab_def small_def)
qed

end
