(* ===== verification/PktSocket.thy ===== *)
theory PktSocket
  imports Send
begin

text \<open>
  \<open>pktserv/pktbuffers.c\<close>, \<open>pktserv/pktsocket.c\<close> and \<open>pktserv/sslsocket.c\<close> (built with
  \<open>HAVE_SSL\<close>): message and client buffers, and reading and writing one connection.

  The kernel and the TLS library are not part of the program. What they answer is an input:
  \<open>answers\<close> is the list of the answers to the socket calls still to come, \<open>mallocs\<close> of those
  to the allocations, \<open>rx fd\<close> the bytes that have arrived on a descriptor and were not read,
  \<open>tx fd\<close> the bytes it has taken. A call after the last answer would block, an allocation
  succeeds. \<open>fault\<close> records a dereference of a null pointer or a write outside a buffer.
\<close>

section \<open>Buffers\<close>

datatype SocketState =
  DISCONNECTED | ACCEPTED | IDLE | WANT_SSL_ACCEPT | WANT_SSL_READ | WANT_SSL_WRITE
| WANT_HEADER | WANT_READ | WANT_WRITE | WANT_DISCONNECT | WANT_RAW_DISCONNECT
| COMPLETE_PACKET | LISTEN_SOCKET | LISTEN_SOCKET_SSL

datatype SocketDisposition = OK | BLOCKED | IGNORE

record msgbuf =
  m_sz :: nat
  m_len :: nat
  m_pos :: nat
  m_data :: string

record cbuf =
  c_fd :: int
  c_state :: SocketState
  c_disp :: SocketDisposition
  c_rbuf :: "msgbuf option"
  c_newmsg :: bool
  c_wlist :: "msgbuf list"
  c_wlist_size :: int
  c_retries :: int
  c_is_ssl :: bool
  c_ssl_con :: bool

definition zero_cbuf :: cbuf where
  "zero_cbuf = \<lparr>c_fd = 0, c_state = DISCONNECTED, c_disp = OK, c_rbuf = None, c_newmsg = False,
     c_wlist = [], c_wlist_size = 0, c_retries = 0, c_is_ssl = False, c_ssl_con = False\<rparr>"

definition MAX_SENDPACKET_QUEUE :: int where "MAX_SENDPACKET_QUEUE = 10"
definition MAX_SENDPACKET_RETRIES :: int where "MAX_SENDPACKET_RETRIES = 10"

section \<open>The environment\<close>

datatype ssl_error =
  SSL_ERROR_WANT_READ | SSL_ERROR_WANT_WRITE | SSL_ERROR_ZERO_RETURN
| SSL_ERROR_WANT_X509_LOOKUP | SSL_ERROR_SYSCALL | SSL_ERROR_SSL | SSL_ERROR_OTHER

text \<open>
  An answer to a call on a socket: up to \<open>Suc n\<close> bytes are transferred (and the flag says
  whether the TLS layer still holds decrypted bytes), the call would block, it fails, or the
  TLS library reports an error (and the flag says whether \<open>errno\<close> is \<open>EWOULDBLOCK\<close>
  afterwards). A new connection's descriptor is the number granted to \<open>accept\<close>.
\<close>

datatype answer = Grant nat bool | Block | Fail | Ssl_error ssl_error bool

record os =
  rx :: "int \<Rightarrow> string"
  tx :: "int \<Rightarrow> string"
  answers :: "answer list"
  mallocs :: "bool list"
  ewouldblock :: bool
  closed :: "int list"
  os_fault :: bool

definition next_answer :: "os \<Rightarrow> answer \<times> os" where
  "next_answer w = (case answers w of [] \<Rightarrow> (Block, w) | a # as \<Rightarrow> (a, w\<lparr>answers := as\<rparr>))"

definition malloc :: "os \<Rightarrow> bool \<times> os" where
  "malloc w = (case mallocs w of [] \<Rightarrow> (True, w) | b # bs \<Rightarrow> (b, w\<lparr>mallocs := bs\<rparr>))"

definition os_flag :: "bool \<Rightarrow> os \<Rightarrow> os" where
  "os_flag b w = w\<lparr>os_fault := os_fault w \<or> b\<rparr>"

definition os_close :: "int \<Rightarrow> os \<Rightarrow> os" where
  "os_close fd w = w\<lparr>closed := closed w @ [fd]\<rparr>"

text \<open>Moving bytes from the network to the program and back.\<close>

definition take_rx :: "int \<Rightarrow> nat \<Rightarrow> os \<Rightarrow> string \<times> os" where
  "take_rx fd n w = (take n (rx w fd), w\<lparr>rx := (rx w)(fd := drop n (rx w fd))\<rparr>)"

definition put_tx :: "int \<Rightarrow> string \<Rightarrow> os \<Rightarrow> os" where
  "put_tx fd bs w = w\<lparr>tx := (tx w)(fd := tx w fd @ bs)\<rparr>"

text \<open>
  \<open>read\<close> and \<open>write\<close>: the number of bytes or \<open>-1\<close>. A \<open>read\<close> that is granted bytes where
  none are left is the end of the stream.
\<close>

definition sys_read :: "int \<Rightarrow> nat \<Rightarrow> os \<Rightarrow> int \<times> string \<times> os" where
  "sys_read fd n w =
     (let (a, w) = next_answer w
      in case a of
           Grant k p \<Rightarrow> (let (bs, w) = take_rx fd (min n (Suc k)) w in (int (length bs), bs, w))
         | Block \<Rightarrow> (-1, [], w\<lparr>ewouldblock := True\<rparr>)
         | _ \<Rightarrow> (-1, [], w\<lparr>ewouldblock := False\<rparr>))"

definition sys_write :: "int \<Rightarrow> string \<Rightarrow> os \<Rightarrow> int \<times> os" where
  "sys_write fd bs w =
     (let (a, w) = next_answer w
      in case a of
           Grant k p \<Rightarrow> (int (min (length bs) (Suc k)), put_tx fd (take (Suc k) bs) w)
         | Block \<Rightarrow> (-1, w\<lparr>ewouldblock := True\<rparr>)
         | _ \<Rightarrow> (-1, w\<lparr>ewouldblock := False\<rparr>))"

text \<open>
  The TLS calls: \<open>Inl\<close> the error \<open>SSL_get_error\<close> gives when nothing was transferred, \<open>Inr\<close>
  the bytes and the answer of \<open>SSL_pending\<close>.
\<close>

definition ssl_failure :: "answer \<Rightarrow> os \<Rightarrow> ssl_error \<times> os" where
  "ssl_failure a w =
     (case a of
        Ssl_error e b \<Rightarrow> (e, w\<lparr>ewouldblock := b\<rparr>)
      | Block \<Rightarrow> (SSL_ERROR_WANT_READ, w\<lparr>ewouldblock := True\<rparr>)
      | Fail \<Rightarrow> (SSL_ERROR_SYSCALL, w\<lparr>ewouldblock := False\<rparr>)
      | Grant k p \<Rightarrow> (SSL_ERROR_ZERO_RETURN, w))"

definition SSL_read :: "int \<Rightarrow> nat \<Rightarrow> os \<Rightarrow> (ssl_error + string \<times> bool) \<times> os" where
  "SSL_read fd n w =
     (let (a, w) = next_answer w
      in case a of
           Grant k p \<Rightarrow>
             (let (bs, w') = take_rx fd (min n (Suc k)) w
              in if bs = [] then let (e, w) = ssl_failure a w in (Inl e, w)
                 else (Inr (bs, p), w'))
         | _ \<Rightarrow> let (e, w) = ssl_failure a w in (Inl e, w))"

definition SSL_write :: "int \<Rightarrow> string \<Rightarrow> os \<Rightarrow> (ssl_error + string \<times> bool) \<times> os" where
  "SSL_write fd bs w =
     (let (a, w) = next_answer w
      in case a of
           Grant k p \<Rightarrow>
             (if bs = [] then let (e, w) = ssl_failure a w in (Inl e, w)
              else (Inr (take (Suc k) bs, p), put_tx fd (take (Suc k) bs) w))
         | _ \<Rightarrow> let (e, w) = ssl_failure a w in (Inl e, w))"

definition SSL_accept :: "os \<Rightarrow> ssl_error option \<times> os" where
  "SSL_accept w =
     (let (a, w) = next_answer w
      in case a of Grant k p \<Rightarrow> (None, w) | _ \<Rightarrow> let (e, w) = ssl_failure a w in (Some e, w))"

text \<open>\<open>accept\<close>: the new descriptor or \<open>-1\<close>.\<close>

definition sys_accept :: "os \<Rightarrow> int \<times> os" where
  "sys_accept w =
     (let (a, w) = next_answer w
      in case a of
           Grant k p \<Rightarrow> (int k, w)
         | Block \<Rightarrow> (-1, w\<lparr>ewouldblock := True\<rparr>)
         | _ \<Rightarrow> (-1, w\<lparr>ewouldblock := False\<rparr>))"

section \<open>\<open>pktbuffers.c\<close>\<close>

definition fresh_data :: "nat \<Rightarrow> string" where
  "fresh_data n = replicate n (CHR 0x00)"

definition msgbuf_alloc :: "msgbuf option \<Rightarrow> nat \<Rightarrow> os \<Rightarrow> msgbuf option \<times> os" where
  "msgbuf_alloc mb sz w =
     (case mb of
        Some m \<Rightarrow>
          (if m_sz m \<ge> sz then
             (Some (m\<lparr>m_data := fresh_data (m_sz m), m_len := 0, m_pos := 0\<rparr>), w)
           else let (ok, w) = malloc w
             in if ok then (Some (m\<lparr>m_data := fresh_data sz, m_sz := sz, m_len := 0, m_pos := 0\<rparr>), w)
                else (None, w))
      | None \<Rightarrow>
          (let (ok, w) = malloc w
           in if \<not> ok then (None, w)
              else let (ok, w) = malloc w
                in if \<not> ok then (None, w)
                   else (Some \<lparr>m_sz = sz, m_len = 0, m_pos = 0, m_data = fresh_data sz\<rparr>, w)))"

definition cbufs_reset :: "cbuf list \<Rightarrow> cbuf list" where
  "cbufs_reset cs = map (\<lambda>c. c\<lparr>c_newmsg := True, c_wlist := []\<rparr>) cs"

text \<open>\<open>calloc\<close> of the \<open>n = MAX_USERS\<close> buffers, unless they exist.\<close>

definition cbufs_init :: "nat \<Rightarrow> cbuf list option \<Rightarrow> os \<Rightarrow> int \<times> cbuf list option \<times> os" where
  "cbufs_init n cs w =
     (let (cs, w) = (case cs of
                       Some cs \<Rightarrow> (Some cs, w)
                     | None \<Rightarrow> let (ok, w) = malloc w
                         in (if ok then Some (replicate n zero_cbuf) else None, w))
      in case cs of None \<Rightarrow> (-1, None, w) | Some cs \<Rightarrow> (0, Some (cbufs_reset cs), w))"

definition socketStateStr :: "SocketState \<Rightarrow> string" where
  "socketStateStr s =
     (case s of
        DISCONNECTED \<Rightarrow> ''DISCONNECTED'' | ACCEPTED \<Rightarrow> ''ACCEPTED'' | IDLE \<Rightarrow> ''IDLE''
      | WANT_SSL_ACCEPT \<Rightarrow> ''WANT_SSL_ACCEPT'' | WANT_SSL_READ \<Rightarrow> ''WANT_SSL_READ''
      | WANT_SSL_WRITE \<Rightarrow> ''WANT_SSL_WRITE'' | WANT_HEADER \<Rightarrow> ''WANT_HEADER''
      | WANT_READ \<Rightarrow> ''WANT_READ'' | WANT_WRITE \<Rightarrow> ''WANT_WRITE''
      | WANT_DISCONNECT \<Rightarrow> ''WANT_DISCONNECT'' | WANT_RAW_DISCONNECT \<Rightarrow> ''WANT_RAW_DISCONNECT''
      | COMPLETE_PACKET \<Rightarrow> ''COMPLETE_PACKET'' | LISTEN_SOCKET \<Rightarrow> ''LISTEN_SOCKET''
      | LISTEN_SOCKET_SSL \<Rightarrow> ''LISTEN_SOCKET_SSL'')"

section \<open>\<open>sslsocket.c\<close>\<close>

definition sslsocket_accept :: "cbuf \<Rightarrow> os \<Rightarrow> int \<times> cbuf \<times> os" where
  "sslsocket_accept c w =
     (let (ok, w) = (if c_ssl_con c then (True, w) else malloc w)
      in if \<not> ok then (-1, c, w)
         else let c = c\<lparr>c_ssl_con := True\<rparr>;
                  (r, w) = SSL_accept w
           in case r of
                None \<Rightarrow> (0, c\<lparr>c_is_ssl := True, c_state := ACCEPTED\<rparr>, w)
              | Some e \<Rightarrow>
                  (if e = SSL_ERROR_WANT_READ \<or> e = SSL_ERROR_WANT_WRITE then
                     (0, c\<lparr>c_state := WANT_SSL_ACCEPT\<rparr>, w)
                   else if e = SSL_ERROR_OTHER then (-1, c, w)
                   else (-1, c\<lparr>c_state := WANT_RAW_DISCONNECT\<rparr>, w)))"

text \<open>The state after a transfer, and after an error, of \<open>sslsocket_read\<close> and \<open>sslsocket_write\<close>.\<close>

definition ssl_done :: "bool \<Rightarrow> cbuf \<Rightarrow> cbuf" where
  "ssl_done held c =
     c\<lparr>c_state := (if c_wlist_size c \<noteq> 0 then WANT_SSL_WRITE
                   else if held then WANT_SSL_READ else IDLE)\<rparr>"

definition ssl_failed :: "ssl_error \<Rightarrow> cbuf \<Rightarrow> int \<times> cbuf" where
  "ssl_failed e c =
     (case e of
        SSL_ERROR_WANT_READ \<Rightarrow> (0, c\<lparr>c_state := WANT_SSL_READ\<rparr>)
      | SSL_ERROR_WANT_WRITE \<Rightarrow> (0, c\<lparr>c_state := WANT_SSL_WRITE\<rparr>)
      | SSL_ERROR_OTHER \<Rightarrow> (-1, c)
      | _ \<Rightarrow> (-1, c\<lparr>c_state := WANT_DISCONNECT\<rparr>))"

definition sslsocket_read :: "cbuf \<Rightarrow> nat \<Rightarrow> os \<Rightarrow> int \<times> string \<times> cbuf \<times> os" where
  "sslsocket_read c n w =
     (let (r, w) = SSL_read (c_fd c) n w
      in case r of
           Inr (bs, p) \<Rightarrow> (int (length bs), bs, ssl_done p c, w)
         | Inl e \<Rightarrow> let (k, c) = ssl_failed e c in (k, [], c, w))"

definition sslsocket_write :: "cbuf \<Rightarrow> string \<Rightarrow> os \<Rightarrow> int \<times> cbuf \<times> os" where
  "sslsocket_write c bs w =
     (let (r, w) = SSL_write (c_fd c) bs w
      in case r of
           Inr (sent, p) \<Rightarrow> (int (length sent), ssl_done p c, w)
         | Inl e \<Rightarrow> let (k, c) = ssl_failed e c in (k, c, w))"

section \<open>\<open>pktsocket.c\<close>: reading\<close>

definition sock_read :: "cbuf \<Rightarrow> nat \<Rightarrow> os \<Rightarrow> int \<times> string \<times> cbuf \<times> os" where
  "sock_read c n w =
     (if c_is_ssl c then sslsocket_read c n w
      else let (k, bs, w) = sys_read (c_fd c) n w in (k, bs, c, w))"

definition sock_write :: "cbuf \<Rightarrow> string \<Rightarrow> os \<Rightarrow> int \<times> cbuf \<times> os" where
  "sock_write c bs w =
     (if c_is_ssl c then sslsocket_write c bs w
      else let (k, w) = sys_write (c_fd c) bs w in (k, c, w))"

definition store_at :: "nat \<Rightarrow> string \<Rightarrow> msgbuf \<Rightarrow> msgbuf" where
  "store_at i bs m = m\<lparr>m_data := take i (m_data m) @ bs @ drop (i + length bs) (m_data m)\<rparr>"

definition fits :: "nat \<Rightarrow> string \<Rightarrow> msgbuf \<Rightarrow> bool" where
  "fits i bs m \<longleftrightarrow> i + length bs \<le> m_sz m"

text \<open>What both reads do when the call did not give a byte; \<open>blocked\<close> is the state to keep.\<close>

definition read_failed :: "int \<Rightarrow> (cbuf \<Rightarrow> cbuf) \<Rightarrow> cbuf \<Rightarrow> os \<Rightarrow> int \<times> cbuf \<times> os" where
  "read_failed result blocked c w =
     (if result < 0 then
        (if ewouldblock w then (0, blocked c, w)
         else (-1, c\<lparr>c_state := WANT_DISCONNECT\<rparr>, w))
      else if c_is_ssl c then (0, c, w)
      else (-1, c\<lparr>c_state := WANT_DISCONNECT\<rparr>, w))"

definition read_body :: "cbuf \<Rightarrow> os \<Rightarrow> int \<times> cbuf \<times> os" where
  "read_body c w =
     (case c_rbuf c of
        None \<Rightarrow> (-1, c, os_flag True w)
      | Some m \<Rightarrow>
          (let remain = m_len m - m_pos m;
               (result, bs, c, w) = sock_read c remain w
           in if result \<le> 0 then read_failed result (\<lambda>c. c\<lparr>c_state := WANT_READ\<rparr>) c w
              else let w = os_flag (\<not> fits (m_pos m) bs m) w;
                       m = store_at (m_pos m) bs m;
                       m = m\<lparr>m_pos := m_pos m + length bs\<rparr>
                in if remain - length bs = 0 then
                     (0, c\<lparr>c_state := COMPLETE_PACKET,
                           c_rbuf := Some (store_at (m_pos m) [CHR 0x00] m)\<rparr>,
                      os_flag (\<not> fits (m_pos m) [CHR 0x00] m) w)
                   else (0, c\<lparr>c_state := WANT_READ, c_rbuf := Some m\<rparr>, w)))"

definition read_header :: "cbuf \<Rightarrow> os \<Rightarrow> int option \<times> cbuf \<times> os" where
  "read_header c w =
     (let (mb, w) = msgbuf_alloc (c_rbuf c) MAX_PKT_LEN w;
          c = c\<lparr>c_rbuf := mb\<rparr>
      in case mb of
           None \<Rightarrow> (Some (-1), c\<lparr>c_state := WANT_DISCONNECT\<rparr>, w)
         | Some m \<Rightarrow>
             (let (result, bs, c, w) = sock_read c 1 w
              in if result \<le> 0 then
                   (let (r, c, w) = read_failed result id c w in (Some r, c, w))
                 else let w = os_flag (\<not> fits 0 bs m) w;
                          m = store_at 0 bs m;
                          m = m\<lparr>m_len := byte_of (m_data m ! 0) + 1, m_pos := 1\<rparr>;
                          c = c\<lparr>c_rbuf := Some m, c_newmsg := False\<rparr>
                   in if m_len m > MAX_PKT_LEN - 1
                      then (Some (-1), c\<lparr>c_state := WANT_DISCONNECT\<rparr>, w)
                      else (None, c, w)))"

definition pktsocket_read :: "cbuf \<Rightarrow> os \<Rightarrow> int \<times> cbuf \<times> os" where
  "pktsocket_read c w =
     (if c_state c = WANT_HEADER then
        (let (r, c, w) = read_header c w
         in case r of Some k \<Rightarrow> (k, c, w) | None \<Rightarrow> read_body c w)
      else read_body c w)"

section \<open>\<open>pktsocket.c\<close>: writing\<close>

text \<open>
  The loop of \<open>pktsocket_write\<close>; the first argument is the queue that is left, which the
  buffer's \<open>c_wlist\<close> holds too.
\<close>

fun write_loop :: "msgbuf list \<Rightarrow> cbuf \<Rightarrow> os \<Rightarrow> int \<times> cbuf \<times> os" where
  "write_loop [] c w = (0, c\<lparr>c_state := WANT_HEADER\<rparr>, w)"
| "write_loop (m # ms) c w =
     (let remain = m_len m - m_pos m;
          (result, c, w) = sock_write c (take remain (drop (m_pos m) (m_data m))) w
      in if result = 0 \<and> c_is_ssl c then
           (0, c\<lparr>c_state := WANT_SSL_WRITE, c_retries := c_retries c + 1\<rparr>, w)
         else if result < 0 then
           (if ewouldblock w then
              (0, c\<lparr>c_state := WANT_WRITE, c_retries := c_retries c + 1\<rparr>, w)
            else (-1, c\<lparr>c_state := WANT_DISCONNECT\<rparr>, w))
         else if result < int remain then
           (0, c\<lparr>c_state := WANT_WRITE, c_retries := c_retries c + 1,
                 c_wlist := m\<lparr>m_pos := m_pos m + nat result\<rparr> # ms\<rparr>, w)
         else write_loop ms
                (c\<lparr>c_wlist := ms, c_wlist_size := c_wlist_size c - 1, c_retries := 0\<rparr>) w)"

definition pktsocket_write :: "cbuf \<Rightarrow> os \<Rightarrow> int \<times> cbuf \<times> os" where
  "pktsocket_write c w =
     (if c_retries c > MAX_SENDPACKET_RETRIES then (-1, c, w)
      else write_loop (c_wlist c) c w)"

section \<open>What the calls do\<close>

text \<open>
  The queue of a connection is well formed and within its bound; its read buffer, where it
  must have one, has room for what is still to be read and the NUL after it.
\<close>

definition queue_ok :: "cbuf \<Rightarrow> bool" where
  "queue_ok c \<longleftrightarrow>
     list_all (\<lambda>m. m_len m \<le> length (m_data m)) (c_wlist c) \<and>
     int (length (c_wlist c)) \<le> c_wlist_size c \<and> c_wlist_size c \<le> MAX_SENDPACKET_QUEUE"

definition rbuf_sized :: "msgbuf \<Rightarrow> bool" where
  "rbuf_sized m \<longleftrightarrow> m_sz m = MAX_PKT_LEN \<and> length (m_data m) = MAX_PKT_LEN"

definition rbuf_room :: "msgbuf \<Rightarrow> bool" where
  "rbuf_room m \<longleftrightarrow> m_pos m \<le> m_len m \<and> m_len m < MAX_PKT_LEN"

definition reading :: "SocketState \<Rightarrow> bool" where
  "reading s \<longleftrightarrow> s \<in> {WANT_READ, WANT_SSL_READ, IDLE, COMPLETE_PACKET}"

lemma reading_simps [simp]:
  "reading WANT_READ" "reading WANT_SSL_READ" "reading IDLE" "reading COMPLETE_PACKET"
  "\<not> reading WANT_DISCONNECT" "\<not> reading WANT_HEADER" "\<not> reading WANT_WRITE"
  "\<not> reading WANT_RAW_DISCONNECT" "\<not> reading DISCONNECTED" "\<not> reading ACCEPTED"
  "\<not> reading WANT_SSL_ACCEPT" "\<not> reading WANT_SSL_WRITE"
  "\<not> reading LISTEN_SOCKET" "\<not> reading LISTEN_SOCKET_SSL"
  by (simp_all add: reading_def)

definition cbuf_ok :: "cbuf \<Rightarrow> bool" where
  "cbuf_ok c \<longleftrightarrow> queue_ok c \<and>
     (case c_rbuf c of
        None \<Rightarrow> \<not> reading (c_state c)
      | Some m \<Rightarrow> rbuf_sized m \<and> (reading (c_state c) \<longrightarrow> rbuf_room m))"

text \<open>The bytes of the packets still queued, in the order in which they go out.\<close>

definition unsent :: "msgbuf \<Rightarrow> string" where
  "unsent m = take (m_len m - m_pos m) (drop (m_pos m) (m_data m))"

definition queued :: "cbuf \<Rightarrow> string" where
  "queued c = concat (map unsent (c_wlist c))"

lemma next_answer_frame [simp]:
  "rx (snd (next_answer w)) = rx w" "tx (snd (next_answer w)) = tx w"
  "os_fault (snd (next_answer w)) = os_fault w" "closed (snd (next_answer w)) = closed w"
  "mallocs (snd (next_answer w)) = mallocs w"
  by (auto simp: next_answer_def split: list.splits)

lemma ssl_failure_frame [simp]:
  "rx (snd (ssl_failure a w)) = rx w" "tx (snd (ssl_failure a w)) = tx w"
  "os_fault (snd (ssl_failure a w)) = os_fault w" "closed (snd (ssl_failure a w)) = closed w"
  by (auto simp: ssl_failure_def split: answer.splits)







text \<open>Two buffers that differ at most in their state.\<close>

definition same_but_state :: "cbuf \<Rightarrow> cbuf \<Rightarrow> bool" where
  "same_but_state c c' \<longleftrightarrow>
     c_fd c' = c_fd c \<and> c_disp c' = c_disp c \<and> c_rbuf c' = c_rbuf c \<and> c_wlist c' = c_wlist c \<and>
     c_wlist_size c' = c_wlist_size c \<and> c_retries c' = c_retries c \<and> c_is_ssl c' = c_is_ssl c"

lemma ssl_failed_effect: "ssl_failed e c = (k, c') \<Longrightarrow> k \<le> 0 \<and> same_but_state c c'"
  by (auto simp: ssl_failed_def same_but_state_def split: ssl_error.splits)

lemma ssl_done_effect [simp]: "same_but_state c (ssl_done p c)"
  by (simp add: same_but_state_def ssl_done_def)

lemma same_but_stateD:
  assumes "same_but_state c c'"
  shows "c_fd c' = c_fd c" "c_disp c' = c_disp c" "c_rbuf c' = c_rbuf c" "c_wlist c' = c_wlist c"
    "c_wlist_size c' = c_wlist_size c" "c_retries c' = c_retries c" "c_is_ssl c' = c_is_ssl c"
  using assms by (simp_all add: same_but_state_def)

lemma nat_Suc_int [simp]: "nat (1 + int n) = Suc n"
  by (simp add: nat_add_distrib)

lemmas write_unfold =
  sslsocket_write_def SSL_write_def sys_write_def put_tx_def ssl_failure_def min_def



lemma sys_write_effect:
  assumes "sys_write fd bs w = (k, w')"
  shows "k \<le> int (length bs) \<and> tx w' = (tx w)(fd := tx w fd @ take (nat k) bs) \<and>
    rx w' = rx w \<and> os_fault w' = os_fault w \<and> closed w' = closed w \<and> (k = 0 \<longrightarrow> bs = [])"
proof -
  obtain a w1 where a: "next_answer w = (a, w1)" by fastforce
  show ?thesis
    using assms next_answer_frame [of w] by (cases a) (auto simp: write_unfold a split: if_splits)
qed

lemma sslsocket_write_effect:
  assumes "sslsocket_write c bs w = (k, c', w')"
  shows "same_but_state c c' \<and> k \<le> int (length bs) \<and>
    tx w' = (tx w)(c_fd c := tx w (c_fd c) @ take (nat k) bs) \<and>
    rx w' = rx w \<and> os_fault w' = os_fault w \<and> closed w' = closed w"
proof -
  obtain a w1 where a: "next_answer w = (a, w1)" by fastforce
  show ?thesis
    using assms next_answer_frame [of w]
    by (cases a)
      (auto simp: write_unfold a split: if_splits prod.splits dest!: ssl_failed_effect)
qed

lemma sock_write_effect:
  assumes "sock_write c bs w = (k, c', w')"
  shows "same_but_state c c'" "k \<le> int (length bs)"
    "tx w' = (tx w)(c_fd c := tx w (c_fd c) @ take (nat k) bs)"
    "rx w' = rx w" "os_fault w' = os_fault w" "closed w' = closed w"
    "\<not> c_is_ssl c \<Longrightarrow> c' = c"
    "k = 0 \<Longrightarrow> \<not> c_is_ssl c \<Longrightarrow> bs = []"
proof -
  have "same_but_state c c' \<and> k \<le> int (length bs) \<and>
    tx w' = (tx w)(c_fd c := tx w (c_fd c) @ take (nat k) bs) \<and>
    rx w' = rx w \<and> os_fault w' = os_fault w \<and> closed w' = closed w \<and>
    (\<not> c_is_ssl c \<longrightarrow> c' = c \<and> (k = 0 \<longrightarrow> bs = []))"
  proof (cases "c_is_ssl c")
    case True
    then show ?thesis using assms sslsocket_write_effect by (simp add: sock_write_def)
  next
    case False
    then show ?thesis using assms
      by (auto simp: sock_write_def same_but_state_def split: prod.splits dest: sys_write_effect)
  qed
  then show "same_but_state c c'" "k \<le> int (length bs)"
    "tx w' = (tx w)(c_fd c := tx w (c_fd c) @ take (nat k) bs)"
    "rx w' = rx w" "os_fault w' = os_fault w" "closed w' = closed w"
    "\<not> c_is_ssl c \<Longrightarrow> c' = c"
    "k = 0 \<Longrightarrow> \<not> c_is_ssl c \<Longrightarrow> bs = []" by auto
qed

definition read_effect :: "int \<Rightarrow> nat \<Rightarrow> int \<Rightarrow> string \<Rightarrow> os \<Rightarrow> os \<Rightarrow> bool" where
  "read_effect fd n k bs w w' \<longleftrightarrow>
     (k > 0 \<longrightarrow> int (length bs) = k \<and> length bs \<le> n) \<and> (k \<le> 0 \<longrightarrow> bs = []) \<and>
     rx w fd = bs @ rx w' fd \<and> (\<forall>fd'. fd' \<noteq> fd \<longrightarrow> rx w' fd' = rx w fd') \<and>
     tx w' = tx w \<and> os_fault w' = os_fault w \<and> closed w' = closed w"

lemma take_rx_effect:
  assumes "take_rx fd (min n m) w1 = (bs, w')"
    and "rx w1 = rx w" "tx w1 = tx w" "os_fault w1 = os_fault w" "closed w1 = closed w"
  shows "read_effect fd n (int (length bs)) bs w w'"
proof -
  have "w' = w1\<lparr>rx := (rx w)(fd := drop (min n m) (rx w fd))\<rparr>" and "bs = take (min n m) (rx w fd)"
    using assms by (auto simp: take_rx_def)
  then show ?thesis using assms(2-) by (auto simp: read_effect_def min_def split: if_splits)
qed

lemma no_read_effect:
  "rx w' = rx w \<Longrightarrow> tx w' = tx w \<Longrightarrow> os_fault w' = os_fault w \<Longrightarrow> closed w' = closed w \<Longrightarrow> k \<le> 0 \<Longrightarrow>
    read_effect fd n k [] w w'"
  by (simp add: read_effect_def)

lemma sys_read_effect:
  assumes "sys_read fd n w = (k, bs, w')"
  shows "read_effect fd n k bs w w'"
proof -
  obtain a w1 where a: "next_answer w = (a, w1)" by fastforce
  note fr = next_answer_frame [of w, unfolded a snd_conv]
  show ?thesis
    using assms
    by (cases a)
      (auto simp: sys_read_def a fr split: prod.splits
        intro: no_read_effect take_rx_effect [OF _ fr(1-4)])
qed

lemma sslsocket_read_effect:
  assumes "sslsocket_read c n w = (k, bs, c', w')"
  shows "read_effect (c_fd c) n k bs w w' \<and> same_but_state c c'"
proof -
  obtain a w1 where a: "next_answer w = (a, w1)" by fastforce
  note fr = next_answer_frame [of w, unfolded a snd_conv]
  obtain r w2 where r: "SSL_read (c_fd c) n w = (r, w2)" by fastforce
  have "read_effect (c_fd c) n (case r of Inl e \<Rightarrow> 0 | Inr (bs, p) \<Rightarrow> int (length bs))
          (case r of Inl e \<Rightarrow> [] | Inr (bs, p) \<Rightarrow> bs) w w2"
    using r fr
    by (cases a)
      (auto simp: SSL_read_def ssl_failure_def a Let_def split: prod.splits if_splits
        intro: take_rx_effect intro!: no_read_effect)
  then show ?thesis
    using assms r
    by (cases r)
      (auto simp: sslsocket_read_def read_effect_def split: prod.splits dest!: ssl_failed_effect)
qed

lemma sock_read_effect:
  assumes "sock_read c n w = (k, bs, c', w')"
  shows "read_effect (c_fd c) n k bs w w'" "same_but_state c c'" "\<not> c_is_ssl c \<Longrightarrow> c' = c"
proof -
  have "read_effect (c_fd c) n k bs w w' \<and> same_but_state c c' \<and> (\<not> c_is_ssl c \<longrightarrow> c' = c)"
  proof (cases "c_is_ssl c")
    case True
    then show ?thesis using assms sslsocket_read_effect by (simp add: sock_read_def)
  next
    case False
    then show ?thesis using assms
      by (auto simp: sock_read_def same_but_state_def split: prod.splits dest: sys_read_effect)
  qed
  then show "read_effect (c_fd c) n k bs w w'" "same_but_state c c'" "\<not> c_is_ssl c \<Longrightarrow> c' = c"
    by auto
qed

section \<open>Writing keeps the stream\<close>

lemma drop_unsent:
  "n \<le> m_len m - m_pos m \<Longrightarrow> take n (unsent m) @ unsent (m\<lparr>m_pos := m_pos m + n\<rparr>) = unsent m"
  using take_add [of n "m_len m - m_pos m - n" "drop (m_pos m) (m_data m)", symmetric]
    le_add_diff_inverse [of n "m_len m - m_pos m"]
  by (simp add: unsent_def min_def add.commute [of n])

definition write_effect :: "cbuf \<Rightarrow> os \<Rightarrow> cbuf \<Rightarrow> os \<Rightarrow> bool" where
  "write_effect c w c' w' \<longleftrightarrow>
     tx w' (c_fd c) @ queued c' = tx w (c_fd c) @ queued c \<and>
     (\<forall>fd. fd \<noteq> c_fd c \<longrightarrow> tx w' fd = tx w fd) \<and>
     rx w' = rx w \<and> os_fault w' = os_fault w \<and> closed w' = closed w \<and>
     c_fd c' = c_fd c \<and> c_disp c' = c_disp c \<and> c_rbuf c' = c_rbuf c \<and> c_is_ssl c' = c_is_ssl c \<and>
     c_wlist_size c' - int (length (c_wlist c')) = c_wlist_size c - int (length (c_wlist c)) \<and>
     length (c_wlist c') \<le> length (c_wlist c)"

lemma write_effect_refl: "write_effect c w (c\<lparr>c_state := s, c_retries := r\<rparr>) w"
  by (simp add: write_effect_def queued_def)

lemma write_effect_trans:
  "write_effect c w c1 w1 \<Longrightarrow> write_effect c1 w1 c' w' \<Longrightarrow> write_effect c w c' w'"
  unfolding write_effect_def by (metis le_trans)

lemma write_loop_effect:
  assumes "c_wlist c = ms" "list_all (\<lambda>m. m_len m \<le> length (m_data m)) ms"
    and "write_loop ms c w = (r, c', w')"
  shows "write_effect c w c' w'"
  using assms
proof (induction ms c w rule: write_loop.induct)
  case (1 c w)
  then show ?case by (auto simp: write_effect_def queued_def)
next
  case (2 m ms c w)
  obtain k c1 w1 where k: "sock_write c (unsent m) w = (k, c1, w1)" by (metis surj_pair)
  note eff = sock_write_effect [OF k]
  note same = same_but_stateD [OF eff(1)]
  have len: "length (unsent m) = m_len m - m_pos m" using "2.prems"(2) by (auto simp: unsent_def)
  have q: "queued c = unsent m @ concat (map unsent ms)" using "2.prems"(1) by (simp add: queued_def)
  show ?case
  proof (cases "k \<ge> 0 \<and> \<not> (k = 0 \<and> c_is_ssl c) \<and> \<not> k < int (m_len m - m_pos m)")
    case True
    let ?c = "c1\<lparr>c_wlist := ms, c_wlist_size := c_wlist_size c1 - 1, c_retries := 0\<rparr>"
    have "write_loop ms ?c w1 = (r, c', w')"
      using "2.prems"(3) True k same by (simp add: unsent_def split: if_splits)
    then have "write_effect ?c w1 c' w'"
      using "2.IH" [OF refl] "2.prems"(2) True k same by (simp add: unsent_def)
    moreover have "write_effect c w ?c w1"
      using True eff same "2.prems"(1) len q by (auto simp: write_effect_def queued_def)
    ultimately show ?thesis by (rule write_effect_trans [rotated])
  next
    case stop: False
    note run = "2.prems"(3) [unfolded write_loop.simps unsent_def [symmetric] Let_def k prod.case]
    show ?thesis
    proof (cases "k < 0 \<or> k = 0 \<and> c_is_ssl c")
      case True
      then obtain x r' where "c' = c1\<lparr>c_state := x, c_retries := r'\<rparr> \<or> c' = c1\<lparr>c_state := x\<rparr>" "w' = w1"
        using run same(7) by (auto split: if_splits)
      then show ?thesis using True eff same by (auto simp: write_effect_def queued_def)
    next
      case False
      then have lt: "0 \<le> k" "k < int (m_len m - m_pos m)" using stop by auto
      then have c': "c' = c1\<lparr>c_state := WANT_WRITE, c_retries := c_retries c1 + 1,
          c_wlist := m\<lparr>m_pos := m_pos m + nat k\<rparr> # ms\<rparr>" "w' = w1"
        using run same(7) False by (auto split: if_splits)
      have "take (nat k) (unsent m) @ unsent (m\<lparr>m_pos := m_pos m + nat k\<rparr>) = unsent m"
        using lt by (intro drop_unsent) simp
      then show ?thesis using c' eff same "2.prems"(1) q by (simp add: write_effect_def queued_def)
    qed
  qed
qed

definition write_states :: "SocketState set" where
  "write_states = {WANT_HEADER, WANT_WRITE, WANT_SSL_WRITE, WANT_DISCONNECT}"

lemma write_loop_state:
  "write_loop ms c w = (r, c', w') \<Longrightarrow>
    c_state c' \<in> write_states \<and> (r = 0 \<or> r = -1) \<and> (r = -1 \<longrightarrow> c_state c' = WANT_DISCONNECT)"
  by (induction ms c w arbitrary: r rule: write_loop.induct)
    (auto simp: write_states_def Let_def split: prod.splits if_splits)

lemma write_loop_data:
  "write_loop ms c w = (r, c', w') \<Longrightarrow> c_wlist c = ms \<Longrightarrow>
    list_all (\<lambda>m. m_len m \<le> length (m_data m)) ms \<Longrightarrow>
    list_all (\<lambda>m. m_len m \<le> length (m_data m)) (c_wlist c')"
proof (induction ms c w rule: write_loop.induct)
  case (1 c w)
  then show ?case by auto
next
  case (2 m ms c w)
  obtain k c1 w1 where k: "sock_write c (unsent m) w = (k, c1, w1)" by (metis surj_pair)
  have "c_wlist c1 = m # ms"
    using same_but_stateD [OF sock_write_effect(1) [OF k]] "2.prems"(2) by simp
  then show ?case
    using "2.prems" "2.IH" k by (auto simp: unsent_def Let_def split: if_splits)
qed

lemma pktsocket_write_effect:
  assumes "queue_ok c" and "pktsocket_write c w = (r, c', w')"
  shows "write_effect c w c' w' \<and> queue_ok c' \<and> (r = 0 \<or> r = -1) \<and>
    (c_state c' \<in> write_states \<or> c_state c' = c_state c)"
proof (cases "c_retries c > MAX_SENDPACKET_RETRIES")
  case True
  then show ?thesis using assms by (simp add: pktsocket_write_def write_effect_def)
next
  case False
  then have loop: "write_loop (c_wlist c) c w = (r, c', w')"
    using assms(2) by (simp add: pktsocket_write_def)
  have data: "list_all (\<lambda>m. m_len m \<le> length (m_data m)) (c_wlist c)"
    using assms(1) by (simp add: queue_ok_def)
  have "write_effect c w c' w'" by (rule write_loop_effect [OF refl data loop])
  moreover from this have "queue_ok c'"
    using assms(1) write_loop_data [OF loop refl data] by (simp add: queue_ok_def write_effect_def)
  ultimately show ?thesis using write_loop_state [OF loop] by blast
qed

section \<open>Reading stays within its buffer\<close>

lemma store_at_length [simp]:
  "i + length bs \<le> length (m_data m) \<Longrightarrow> length (m_data (store_at i bs m)) = length (m_data m)"
  by (simp add: store_at_def)

lemma store_at_frame [simp]:
  "m_sz (store_at i bs m) = m_sz m" "m_len (store_at i bs m) = m_len m" "m_pos (store_at i bs m) = m_pos m"
  by (simp_all add: store_at_def)

lemma os_flag_frame [simp]:
  "os_flag False w = w" "rx (os_flag b w) = rx w" "tx (os_flag b w) = tx w"
  "closed (os_flag b w) = closed w" "answers (os_flag b w) = answers w"
  "os_fault (os_flag b w) = (os_fault w \<or> b)"
  by (simp_all add: os_flag_def)

definition read_frame :: "cbuf \<Rightarrow> os \<Rightarrow> cbuf \<Rightarrow> os \<Rightarrow> bool" where
  "read_frame c w c' w' \<longleftrightarrow>
     c_fd c' = c_fd c \<and> c_disp c' = c_disp c \<and> c_wlist c' = c_wlist c \<and>
     c_wlist_size c' = c_wlist_size c \<and> c_is_ssl c' = c_is_ssl c \<and>
     tx w' = tx w \<and> os_fault w' = os_fault w \<and> closed w' = closed w"

lemma read_frame_trans:
  "read_frame c w c1 w1 \<Longrightarrow> read_frame c1 w1 c' w' \<Longrightarrow> read_frame c w c' w'"
  by (simp add: read_frame_def)

lemma sock_read_frame:
  "sock_read c n w = (k, bs, c', w') \<Longrightarrow> read_frame c w c' w'"
  using sock_read_effect by (simp add: read_frame_def read_effect_def same_but_state_def)

lemma read_body_safe:
  assumes "queue_ok c" "c_rbuf c = Some m" "rbuf_sized m" "rbuf_room m"
    and "read_body c w = (r, c', w')"
  shows "cbuf_ok c' \<and> read_frame c w c' w' \<and> (r = 0 \<or> r = -1)"
proof -
  obtain k bs c1 w1 where k: "sock_read c (m_len m - m_pos m) w = (k, bs, c1, w1)" by (metis surj_pair)
  note eff = sock_read_effect [OF k]
  note same = same_but_stateD [OF eff(2)]
  have fr: "read_frame c w c1 w1" using sock_read_frame [OF k] .
  have q: "queue_ok c1" using assms(1) same by (simp add: queue_ok_def)
  show ?thesis
  proof (cases "k \<le> 0")
    case True
    then show ?thesis
      using assms k same q fr
      by (auto simp: read_body_def read_failed_def cbuf_ok_def queue_ok_def read_frame_def split: if_splits)
  next
    case False
    then have "length bs \<le> m_len m - m_pos m" using eff(1) by (auto simp: read_effect_def)
    with assms(4) have room: "m_pos m + length bs \<le> m_len m" "m_len m \<le> 255"
      by (auto simp: rbuf_room_def)
    then have fit: "fits (m_pos m) bs m" "m_pos m + length bs \<le> 255" "m_pos m + length bs \<le> 256"
      using assms(3) by (simp_all add: fits_def rbuf_sized_def)
    let ?m = "(store_at (m_pos m) bs m)\<lparr>m_pos := m_pos m + length bs\<rparr>"
    have sz: "rbuf_sized ?m" "rbuf_room ?m" "rbuf_sized (store_at (m_pos m + length bs) [CHR 0x00] ?m)"
        "rbuf_room (store_at (m_pos m + length bs) [CHR 0x00] ?m)"
        "fits (m_pos m + length bs) [CHR 0x00] ?m"
      using assms(3) room fit by (simp_all add: rbuf_sized_def rbuf_room_def fits_def)
    have "r = 0 \<and> w' = w1 \<and>
        (c' = c1\<lparr>c_state := WANT_READ, c_rbuf := Some ?m\<rparr> \<or>
         c' = c1\<lparr>c_state := COMPLETE_PACKET, c_rbuf := Some (store_at (m_pos m + length bs) [CHR 0x00] ?m)\<rparr>)"
      using assms(2,5) k False fit(1) sz(5) by (simp add: read_body_def Let_def split: if_splits)
    then show ?thesis
      using q fr sz by (elim conjE disjE) (simp_all add: cbuf_ok_def queue_ok_def read_frame_def)
  qed
qed

lemma msgbuf_alloc_effect:
  assumes "msgbuf_alloc mb n w = (mb', w')" "\<And>m. mb = Some m \<Longrightarrow> m_sz m = n"
  shows "(\<forall>m. mb' = Some m \<longrightarrow> m_sz m = n \<and> m_data m = fresh_data n \<and> m_len m = 0 \<and> m_pos m = 0) \<and>
    rx w' = rx w \<and> tx w' = tx w \<and> os_fault w' = os_fault w \<and> closed w' = closed w \<and> answers w' = answers w"
  using assms
  by (auto simp: msgbuf_alloc_def malloc_def split: option.splits list.splits if_splits prod.splits)

lemma read_header_safe:
  assumes "cbuf_ok c" "c_state c = WANT_HEADER" "read_header c w = (r, c', w')"
  shows "queue_ok c' \<and> read_frame c w c' w' \<and> r \<in> {None, Some 0, Some (-1)} \<and>
    (case r of None \<Rightarrow> \<exists>m. c_rbuf c' = Some m \<and> rbuf_sized m \<and> rbuf_room m | Some _ \<Rightarrow> cbuf_ok c')"
proof -
  have q: "queue_ok c" and sz: "\<And>m. c_rbuf c = Some m \<Longrightarrow> m_sz m = MAX_PKT_LEN"
    using assms(1) by (auto simp: cbuf_ok_def rbuf_sized_def split: option.splits)
  obtain mb w1 where mb: "msgbuf_alloc (c_rbuf c) MAX_PKT_LEN w = (mb, w1)" by fastforce
  note alloc = msgbuf_alloc_effect [OF mb sz]
  show ?thesis
  proof (cases mb)
    case None
    then show ?thesis
      using assms(2,3) q mb alloc
      by (auto simp: read_header_def read_frame_def queue_ok_def cbuf_ok_def reading_def)
  next
    case (Some m)
    have m: "rbuf_sized m" "m_len m = 0" "m_pos m = 0"
      using alloc Some by (auto simp: rbuf_sized_def fresh_data_def)
    obtain k bs c1 w2 where k: "sock_read (c\<lparr>c_rbuf := mb\<rparr>) 1 w1 = (k, bs, c1, w2)" by (metis surj_pair)
    note eff = sock_read_effect [OF k]
    note same = same_but_stateD [OF eff(2)]
    have fr: "read_frame c w c1 w2"
      using sock_read_frame [OF k] alloc by (simp add: read_frame_def)
    have q1: "queue_ok c1" using q same by (simp add: queue_ok_def)
    show ?thesis
    proof (cases "k \<le> 0")
      case True
      then show ?thesis
        using assms(3) mb Some m k same q1 fr
        by (auto simp: read_header_def read_failed_def cbuf_ok_def rbuf_room_def read_frame_def
            queue_ok_def Let_def split: if_splits)
    next
      case False
      then have bs: "length bs = 1" using eff(1) by (auto simp: read_effect_def)
      let ?h = "byte_of (m_data (store_at 0 bs m) ! 0)"
      let ?m = "(store_at 0 bs m)\<lparr>m_len := ?h + 1, m_pos := 1\<rparr>"
      let ?c = "c1\<lparr>c_rbuf := Some ?m, c_newmsg := False\<rparr>"
      have sz: "rbuf_sized ?m" "fits 0 bs m" using m bs by (simp_all add: rbuf_sized_def fits_def)
      have "w' = w2 \<and> (if ?h + 1 > 255 then r = Some (-1) \<and> c' = ?c\<lparr>c_state := WANT_DISCONNECT\<rparr>
          else r = None \<and> c' = ?c)"
        using assms(3) mb Some k False sz(2) by (simp add: read_header_def Let_def split: if_splits)
      then show ?thesis
        using sz q1 fr by (simp add: cbuf_ok_def queue_ok_def read_frame_def rbuf_room_def split: if_splits)
    qed
  qed
qed

lemma pktsocket_read_safe:
  assumes "cbuf_ok c" "c_state c \<in> {WANT_HEADER, WANT_READ, WANT_SSL_READ}"
    and "pktsocket_read c w = (r, c', w')"
  shows "cbuf_ok c' \<and> read_frame c w c' w' \<and> (r = 0 \<or> r = -1)"
proof (cases "c_state c = WANT_HEADER")
  case True
  obtain r1 c1 w1 where h: "read_header c w = (r1, c1, w1)" by (metis surj_pair)
  note safe = read_header_safe [OF assms(1) True h]
  show ?thesis
  proof (cases r1)
    case None
    then have body: "read_body c1 w1 = (r, c', w')"
      using assms(3) True h by (simp add: pktsocket_read_def)
    obtain m where "c_rbuf c1 = Some m" "rbuf_sized m" "rbuf_room m" using safe None by auto
    then show ?thesis
      using read_body_safe [OF _ _ _ _ body] safe read_frame_trans by blast
  next
    case (Some k)
    then show ?thesis using assms(3) True h safe by (auto simp: pktsocket_read_def)
  qed
next
  case False
  then have body: "read_body c w = (r, c', w')" using assms(3) by (simp add: pktsocket_read_def)
  obtain m where "c_rbuf c = Some m" "rbuf_sized m" "rbuf_room m"
    using assms(1,2) False by (auto simp: cbuf_ok_def reading_def split: option.splits)
  then show ?thesis using read_body_safe [OF _ _ _ _ body] assms(1) by (simp add: cbuf_ok_def)
qed

section \<open>Reading a packet in pieces\<close>

text \<open>
  \<open>n\<close> calls of \<open>pktsocket_read\<close> on a connection without TLS, as the event loop makes them:
  only while a header or the rest of a packet is wanted.
\<close>

fun reads :: "nat \<Rightarrow> cbuf \<Rightarrow> os \<Rightarrow> cbuf \<times> os" where
  "reads 0 c w = (c, w)"
| "reads (Suc n) c w =
     (if c_state c = WANT_HEADER \<or> c_state c = WANT_READ then
        (let (r, c, w) = pktsocket_read c w in reads n c w)
      else (c, w))"

definition is_grant :: "answer \<Rightarrow> bool" where
  "is_grant a = (case a of Grant k p \<Rightarrow> True | _ \<Rightarrow> False)"

definition grants :: "answer list \<Rightarrow> nat" where
  "grants as = length (filter is_grant as)"

text \<open>The kernel transfers bytes or makes the server wait; it reports no error.\<close>

definition calm_answers :: "answer list \<Rightarrow> bool" where
  "calm_answers as = list_all (\<lambda>a. is_grant a \<or> a = Block) as"

lemma grants_simps [simp]:
  "grants [] = 0" "grants (Grant k p # as) = Suc (grants as)" "grants (Block # as) = grants as"
  by (simp_all add: grants_def is_grant_def)

lemma calm_cases:
  assumes "calm_answers (a # as)"
  obtains k p where "a = Grant k p" "calm_answers as" | "a = Block" "calm_answers as"
  using assms by (cases a) (auto simp: calm_answers_def is_grant_def)

lemma sys_read_simps:
  "answers w = Grant k p # as \<Longrightarrow>
    sys_read fd n w = (int (length (take (min n (Suc k)) (rx w fd))), take (min n (Suc k)) (rx w fd),
      w\<lparr>answers := as, rx := (rx w)(fd := drop (min n (Suc k)) (rx w fd))\<rparr>)"
  "answers w = Block # as \<Longrightarrow> sys_read fd n w = (-1, [], w\<lparr>answers := as, ewouldblock := True\<rparr>)"
  "answers w = [] \<Longrightarrow> sys_read fd n w = (-1, [], w\<lparr>ewouldblock := True\<rparr>)"
  by (simp_all add: sys_read_def next_answer_def take_rx_def)

lemma take_store_at:
  "i + length bs \<le> length (m_data m) \<Longrightarrow>
    take (i + length bs) (m_data (store_at i bs m)) = take i (m_data m) @ bs"
  by (simp add: store_at_def)

text \<open>\<open>i\<close> bytes of the packet \<open>pkt\<close> are in the buffer, the rest is on its way, then \<open>rest\<close>.\<close>

definition partway :: "string \<Rightarrow> string \<Rightarrow> nat \<Rightarrow> cbuf \<Rightarrow> os \<Rightarrow> bool" where
  "partway pkt rest i c w \<longleftrightarrow> \<not> c_is_ssl c \<and> length pkt < MAX_PKT_LEN \<and> i \<le> length pkt \<and>
     rx w (c_fd c) = drop i pkt @ rest \<and>
     (\<exists>m. c_rbuf c = Some m \<and> rbuf_sized m \<and> m_len m = length pkt \<and> m_pos m = i \<and>
       take i (m_data m) = take i pkt)"

definition received :: "string \<Rightarrow> string \<Rightarrow> cbuf \<times> os \<Rightarrow> bool" where
  "received pkt rest cw \<longleftrightarrow>
     (case cw of (c, w) \<Rightarrow> c_state c = COMPLETE_PACKET \<and> rx w (c_fd c) = rest \<and>
       (\<exists>m. c_rbuf c = Some m \<and> take (length pkt + 1) (m_data m) = pkt @ [CHR 0x00]))"

lemma read_body_partway:
  assumes "partway pkt rest i c w" "i < length pkt" "answers w = Grant k p # as"
  shows "\<exists>j c' w'. read_body c w = (0, c', w') \<and> i < j \<and> j \<le> length pkt \<and> answers w' = as \<and>
    (if j = length pkt then received pkt rest (c', w')
     else c_state c' = WANT_READ \<and> partway pkt rest j c' w')"
proof -
  obtain m where m: "c_rbuf c = Some m" "rbuf_sized m" "m_len m = length pkt" "m_pos m = i"
      "take i (m_data m) = take i pkt"
    and c: "\<not> c_is_ssl c" "length pkt < MAX_PKT_LEN" "rx w (c_fd c) = drop i pkt @ rest"
    using assms(1) by (auto simp: partway_def)
  define l where "l = min (length pkt - i) (Suc k)"
  have l: "0 < l" "l \<le> length pkt - i" using assms(2) by (auto simp: l_def)
  define bs where "bs = take l (drop i pkt)"
  have bs: "take l (rx w (c_fd c)) = bs" "length bs = l" "bs \<noteq> []"
    and dr: "drop l (rx w (c_fd c)) = drop (i + l) pkt @ rest"
    using l c(3) by (auto simp: bs_def add.commute)
  let ?w = "w\<lparr>answers := as, rx := (rx w)(c_fd c := drop (i + l) pkt @ rest)\<rparr>"
  let ?m = "(store_at i bs m)\<lparr>m_pos := i + l\<rparr>"
  have rd: "sock_read c (m_len m - m_pos m) w = (int l, bs, c, ?w)"
    using sys_read_simps(1) [OF assms(3), of "c_fd c" "length pkt - i"] c(1) m bs dr
    by (simp add: sock_read_def l_def [symmetric])
  have sz: "length (m_data m) = 256" "m_sz m = 256" using m(2) by (simp_all add: rbuf_sized_def)
  have fit: "i + l \<le> length pkt" "i + l < 256" using l assms(2) c(2) by auto
  have data: "take (i + l) (m_data ?m) = take (i + l) pkt"
    using m(5) fit sz bs by (simp add: store_at_def bs_def take_add min_def)
  show ?thesis
  proof (cases "i + l = length pkt")
    case True
    let ?m' = "store_at (i + l) [CHR 0x00] ?m"
    have "read_body c w = (0, c\<lparr>c_state := COMPLETE_PACKET, c_rbuf := Some ?m'\<rparr>, ?w)"
      using m rd l bs True fit sz by (simp add: read_body_def Let_def fits_def)
    moreover have "take (length pkt + 1) (m_data ?m') = pkt @ [CHR 0x00]"
      using data fit sz True bs take_store_at [of "i + l" "[CHR 0x00]" ?m] by simp
    ultimately show ?thesis
      using True l by (intro exI [of _ "i + l"]) (simp add: received_def)
  next
    case False
    have "read_body c w = (0, c\<lparr>c_state := WANT_READ, c_rbuf := Some ?m\<rparr>, ?w)"
      using m rd l bs False fit sz by (simp add: read_body_def Let_def fits_def)
    moreover have "partway pkt rest (i + l) (c\<lparr>c_state := WANT_READ, c_rbuf := Some ?m\<rparr>) ?w"
      using c(1,2) data fit sz bs m(3) by (simp add: partway_def rbuf_sized_def)
    ultimately show ?thesis
      using False l fit by (intro exI [of _ "i + l"]) simp
  qed
qed

lemma read_body_blocked:
  assumes "partway pkt rest i c w" "answers w = Block # as"
  shows "\<exists>c' w'. read_body c w = (0, c', w') \<and> answers w' = as \<and>
    c_state c' = WANT_READ \<and> partway pkt rest i c' w'"
  using assms by (auto simp: partway_def read_body_def sock_read_def sys_read_simps read_failed_def)

definition body_then :: "nat \<Rightarrow> cbuf \<Rightarrow> os \<Rightarrow> cbuf \<times> os" where
  "body_then n c w = (let (r, c, w) = read_body c w in reads n c w)"

lemma reads_body:
  "c_state c = WANT_READ \<Longrightarrow> reads (Suc n) c w = body_then n c w"
  by (simp add: body_then_def pktsocket_read_def)

lemma reads_received: "received pkt rest (c, w) \<Longrightarrow> reads n c w = (c, w)"
  by (cases n) (simp_all add: received_def)

lemma body_then_received:
  assumes "partway pkt rest i c w" "i < length pkt" "answers w = as" "calm_answers as"
    and "length pkt - i \<le> grants as" "length as \<le> Suc n"
  shows "received pkt rest (body_then n c w)"
  using assms
proof (induction as arbitrary: i c w n)
  case Nil
  then show ?case by simp
next
  case (Cons a as)
  from Cons.prems(4) show ?case
  proof (cases rule: calm_cases)
    case (1 k p)
    then obtain j c' w' where b: "read_body c w = (0, c', w')" "i < j" "j \<le> length pkt" "answers w' = as"
      and j: "if j = length pkt then received pkt rest (c', w')
              else c_state c' = WANT_READ \<and> partway pkt rest j c' w'"
      using read_body_partway [OF Cons.prems(1,2)] Cons.prems(3) by blast
    show ?thesis
    proof (cases "j = length pkt")
      case True
      then show ?thesis using b j reads_received by (simp add: body_then_def)
    next
      case False
      then have st: "c_state c' = WANT_READ" "partway pkt rest j c' w'" "j < length pkt"
        and g: "length pkt - j \<le> grants as" using b j Cons.prems(5) 1 by auto
      then obtain n' where n': "n = Suc n'" using Cons.prems(6) 1(2) by (cases n; cases as) auto
      have "received pkt rest (body_then n' c' w')"
        using Cons.IH [OF st(2,3) b(4) 1(2) g] Cons.prems(6) n' by simp
      then show ?thesis using b reads_body [OF st(1)] n' by (simp add: body_then_def)
    qed
  next
    case 2
    then obtain c' w' where b: "read_body c w = (0, c', w')" "answers w' = as"
        "c_state c' = WANT_READ" "partway pkt rest i c' w'"
      using read_body_blocked [OF Cons.prems(1)] Cons.prems(3) by blast
    have g: "length pkt - i \<le> grants as" using Cons.prems(5) 2 by simp
    then obtain n' where n': "n = Suc n'" using Cons.prems(2,6) by (cases n; cases as) auto
    have "received pkt rest (body_then n' c' w')"
      using Cons.IH [OF b(4) Cons.prems(2) b(2) 2(2) g] Cons.prems(6) n' by simp
    then show ?thesis using b reads_body [OF b(3)] n' by (simp add: body_then_def)
  qed
qed

text \<open>A connection between packets: no TLS, and the next bytes to come are \<open>pkt @ rest\<close>.\<close>

definition awaiting :: "string \<Rightarrow> string \<Rightarrow> cbuf \<Rightarrow> os \<Rightarrow> bool" where
  "awaiting pkt rest c w \<longleftrightarrow> \<not> c_is_ssl c \<and> c_state c = WANT_HEADER \<and> mallocs w = [] \<and>
     (case c_rbuf c of None \<Rightarrow> True | Some m \<Rightarrow> rbuf_sized m) \<and> rx w (c_fd c) = pkt @ rest"

lemma msgbuf_alloc_fresh:
  assumes "case mb of None \<Rightarrow> True | Some m \<Rightarrow> rbuf_sized m" "mallocs w = []"
  shows "\<exists>m. msgbuf_alloc mb 256 w = (Some m, w) \<and> rbuf_sized m \<and> m_len m = 0 \<and> m_pos m = 0"
  using assms
  by (cases mb) (auto simp: msgbuf_alloc_def rbuf_sized_def malloc_def fresh_data_def)

lemma reads_header_blocked:
  assumes "awaiting pkt rest c w" "answers w = Block # as"
  shows "\<exists>c' w'. pktsocket_read c w = (0, c', w') \<and> awaiting pkt rest c' w' \<and> answers w' = as"
proof -
  obtain m where "msgbuf_alloc (c_rbuf c) 256 w = (Some m, w)" "rbuf_sized m"
    using msgbuf_alloc_fresh [of "c_rbuf c" w] assms(1) by (auto simp: awaiting_def)
  then show ?thesis
    using assms
    by (simp add: awaiting_def pktsocket_read_def read_header_def sock_read_def sys_read_simps read_failed_def)
qed

lemma reads_header:
  assumes "awaiting pkt rest c w" "answers w = Grant k p # as"
    and "pkt = char_of (length body) # body" "0 < length body" "length body < 255"
  shows "\<exists>c' w'. pktsocket_read c w = read_body c' w' \<and> partway pkt rest 1 c' w' \<and> answers w' = as"
proof -
  obtain m where m: "msgbuf_alloc (c_rbuf c) 256 w = (Some m, w)" "rbuf_sized m" "m_len m = 0" "m_pos m = 0"
    using msgbuf_alloc_fresh [of "c_rbuf c" w] assms(1) by (auto simp: awaiting_def)
  let ?h = "char_of (length body) :: char"
  let ?m = "(store_at 0 [?h] m)\<lparr>m_len := Suc (length body), m_pos := 1\<rparr>"
  let ?w = "w\<lparr>answers := as, rx := (rx w)(c_fd c := body @ rest)\<rparr>"
  let ?c = "c\<lparr>c_rbuf := Some ?m, c_newmsg := False\<rparr>"
  have "rx w (c_fd c) = ?h # body @ rest" using assms(1,3) by (simp add: awaiting_def)
  then have rd: "sock_read (c\<lparr>c_rbuf := Some m\<rparr>) 1 w = (1, [?h], c\<lparr>c_rbuf := Some m\<rparr>, ?w)"
    using sys_read_simps(1) [OF assms(2), of "c_fd c" 1] assms(1)
    by (simp add: sock_read_def awaiting_def)
  have h0: "m_data (store_at 0 [?h] m) ! 0 = ?h" by (simp add: store_at_def)
  have "read_header c w = (None, ?c, ?w)"
    using m rd assms(5) h0
    by (simp add: read_header_def fits_def rbuf_sized_def byte_of_char_of Let_def)
  then have "pktsocket_read c w = read_body ?c ?w"
    using assms(1) by (simp add: pktsocket_read_def awaiting_def)
  moreover have "partway pkt rest 1 ?c ?w"
    using assms m by (auto simp: partway_def awaiting_def rbuf_sized_def store_at_def)
  ultimately show ?thesis by (intro exI conjI) auto
qed

lemma read_body_length:
  "c_rbuf c = Some m \<Longrightarrow> \<exists>m'. c_rbuf (fst (snd (read_body c w))) = Some m' \<and> m_len m' = m_len m"
proof -
  assume m: "c_rbuf c = Some m"
  obtain k bs c1 w1 where k: "sock_read c (m_len m - m_pos m) w = (k, bs, c1, w1)" by (metis surj_pair)
  have "c_rbuf c1 = Some m" using same_but_stateD [OF sock_read_effect(2) [OF k]] m by simp
  then show ?thesis using m k by (auto simp: read_body_def read_failed_def Let_def)
qed

lemma header_length:
  assumes "awaiting pkt rest c w" "answers w = Grant k p # as" "pkt \<noteq> []"
  shows "\<exists>m. c_rbuf (fst (snd (pktsocket_read c w))) = Some m \<and> m_len m = byte_of (pkt ! 0) + 1"
proof -
  obtain h t where pkt: "pkt = h # t" using assms(3) by (cases pkt) auto
  obtain m where m: "msgbuf_alloc (c_rbuf c) 256 w = (Some m, w)" "rbuf_sized m"
    using msgbuf_alloc_fresh [of "c_rbuf c" w] assms(1) by (auto simp: awaiting_def)
  let ?m = "(store_at 0 [h] m)\<lparr>m_len := Suc (byte_of h), m_pos := 1\<rparr>"
  let ?w = "w\<lparr>answers := as, rx := (rx w)(c_fd c := t @ rest)\<rparr>"
  let ?c = "c\<lparr>c_rbuf := Some ?m, c_newmsg := False\<rparr>"
  have rd: "sock_read (c\<lparr>c_rbuf := Some m\<rparr>) 1 w = (1, [h], c\<lparr>c_rbuf := Some m\<rparr>, ?w)"
    using sys_read_simps(1) [OF assms(2), of "c_fd c" 1] assms(1) pkt
    by (simp add: sock_read_def awaiting_def)
  have "m_data (store_at 0 [h] m) ! 0 = h" by (simp add: store_at_def)
  then have "read_header c w =
      (if byte_of h + 1 > 255 then (Some (-1), ?c\<lparr>c_state := WANT_DISCONNECT\<rparr>, ?w) else (None, ?c, ?w))"
    using m rd by (simp add: read_header_def fits_def rbuf_sized_def Let_def)
  then show ?thesis
    using assms(1) pkt read_body_length [of ?c ?m ?w]
    by (auto simp: pktsocket_read_def awaiting_def)
qed

lemma reads_all:
  assumes "awaiting pkt rest c w" "answers w = as" "calm_answers as"
    and "pkt = char_of (length body) # body" "0 < length body" "length body < 255"
    and "length pkt \<le> grants as" "length as \<le> n"
  shows "received pkt rest (reads n c w)"
  using assms(1-3,7-)
proof (induction as arbitrary: c w n)
  case Nil
  then show ?case using assms(4) by simp
next
  case (Cons a as)
  obtain n' where n': "n = Suc n'" using Cons.prems(5) by (cases n) auto
  have st: "c_state c = WANT_HEADER" using Cons.prems(1) by (simp add: awaiting_def)
  from Cons.prems(3) show ?case
  proof (cases rule: calm_cases)
    case (1 k p)
    then obtain c' w' where b: "pktsocket_read c w = read_body c' w'" "partway pkt rest 1 c' w'" "answers w' = as"
      using reads_header [OF Cons.prems(1) _ assms(4-6)] Cons.prems(2) by blast
    have "received pkt rest (body_then n' c' w')"
      using body_then_received [OF b(2) _ b(3) 1(2)] Cons.prems(4,5) 1 n' assms(4,5) by simp
    then show ?thesis using b n' st by (simp add: body_then_def)
  next
    case 2
    then obtain c' w' where b: "pktsocket_read c w = (0, c', w')" "awaiting pkt rest c' w'" "answers w' = as"
      using reads_header_blocked [OF Cons.prems(1)] Cons.prems(2) by blast
    then have "received pkt rest (reads n' c' w')"
      using Cons.IH [OF b(2,3) 2(2)] Cons.prems(4,5) 2 n' by simp
    then show ?thesis using b n' st by simp
  qed
qed

text \<open>
  C33 (packets survive fragmentation): a framed packet of at most 253 bytes of text that arrives
  on a plain connection in any number of pieces, with any number of reads that would block
  between them, is put together again by \<open>pktsocket_read\<close>: once the kernel has granted as many
  transfers as the packet has bytes, the connection holds exactly the packet, with a NUL after
  it, and the bytes that follow it are still unread.\<close>

theorem packet_reassembly:
  assumes "awaiting (frame_packet body) rest c w" "length body \<le> 253"
    and "calm_answers (answers w)" "length body + 2 \<le> grants (answers w)"
    and "length (answers w) \<le> n"
  shows "received (frame_packet body) rest (reads n c w)"
proof -
  let ?body = "body @ [CHR 0x00]"
  have eq: "frame_packet body = char_of (length ?body) # ?body" by (simp add: frame_packet_def)
  show ?thesis
    by (rule reads_all [OF assms(1) refl assms(3) eq _ _ _ assms(5)])
      (use assms(2,4) in \<open>simp_all add: frame_packet_def\<close>)
qed

definition wit_cbuf :: cbuf where
  "wit_cbuf = zero_cbuf\<lparr>c_fd := 5, c_state := WANT_HEADER\<rparr>"

definition wit_os :: "string \<Rightarrow> answer list \<Rightarrow> os" where
  "wit_os bs as = \<lparr>rx = (\<lambda>_. [])(5 := bs), tx = \<lambda>_. [], answers = as, mallocs = [],
     ewouldblock = False, closed = [], os_fault = False\<rparr>"

theorem packet_reassembly_witness:
  "received (frame_packet ''bhi'') ''more''
     (reads 7 wit_cbuf (wit_os (frame_packet ''bhi'' @ ''more'')
        [Grant 0 False, Block, Grant 0 False, Grant 1 False, Block, Grant 5 False, Grant 0 False]))"
  by (rule packet_reassembly)
    (simp_all add: awaiting_def wit_cbuf_def wit_os_def zero_cbuf_def calm_answers_def is_grant_def)

text \<open>
  C34 (the largest packet is refused): the sender frames packets of up to 254 bytes of text,
  but the reader takes a packet of that size for oversized: the connection is dropped as soon as
  its length byte arrives.\<close>

theorem largest_packet_refused:
  assumes "awaiting (frame_packet body) rest c w" "length body = 254"
    and "answers w = Grant k p # as"
  shows "fst (pktsocket_read c w) = -1 \<and> c_state (fst (snd (pktsocket_read c w))) = WANT_DISCONNECT"
proof -
  obtain m where m: "msgbuf_alloc (c_rbuf c) 256 w = (Some m, w)"
    using msgbuf_alloc_fresh [of "c_rbuf c" w] assms(1) by (auto simp: awaiting_def)
  let ?w = "w\<lparr>answers := as, rx := (rx w)(c_fd c := body @ CHR 0x00 # rest)\<rparr>"
  have "sock_read (c\<lparr>c_rbuf := Some m\<rparr>) 1 w = (1, [char_of (255 :: nat)], c\<lparr>c_rbuf := Some m\<rparr>, ?w)"
    using sys_read_simps(1) [OF assms(3), of "c_fd c" 1] assms(1,2)
    by (simp add: sock_read_def awaiting_def frame_packet_def)
  then show ?thesis
    using m assms(1)
    by (simp add: pktsocket_read_def awaiting_def read_header_def byte_of_char_of Let_def store_at_def)
qed

theorem largest_packet_refused_witness:
  "fst (pktsocket_read wit_cbuf (wit_os (frame_packet (replicate 254 CHR ''b'')) [Grant 0 False])) = -1 \<and>
   c_state (fst (snd (pktsocket_read wit_cbuf
     (wit_os (frame_packet (replicate 254 CHR ''b'')) [Grant 0 False])))) = WANT_DISCONNECT"
  by (rule largest_packet_refused [of "replicate 254 CHR ''b''" "[]" _ _ 0 False "[]"])
    (simp_all add: awaiting_def wit_cbuf_def wit_os_def zero_cbuf_def)

section \<open>TLS connections\<close>

lemma ssl_read_nothing:
  assumes "c_is_ssl c" "sock_read c 0 w = (k, bs, c', w')"
  shows "k \<le> 0 \<and> bs = [] \<and> rx w' = rx w \<and> c_rbuf c' = c_rbuf c \<and> c_is_ssl c' \<and>
    (k = 0 \<longrightarrow> c_state c' \<in> {WANT_SSL_READ, WANT_SSL_WRITE})"
proof -
  obtain a w1 where a: "next_answer w = (a, w1)" by fastforce
  show ?thesis
    using assms next_answer_frame(1) [of w]
    by (cases a)
      (auto simp: sock_read_def sslsocket_read_def SSL_read_def take_rx_def ssl_failure_def ssl_failed_def a
        split: ssl_error.splits)
qed

lemma ssl_stuck:
  assumes "c_is_ssl c" "c_rbuf c = Some m" "m_len m = m_pos m" "c_state c \<notin> {WANT_HEADER, COMPLETE_PACKET}"
    and "pktsocket_read c w = (r, c', w')"
  shows "rx w' = rx w \<and> c_is_ssl c' \<and> c_rbuf c' = Some m \<and> c_state c' \<notin> {WANT_HEADER, COMPLETE_PACKET}"
proof -
  obtain k bs c1 w1 where k: "sock_read c 0 w = (k, bs, c1, w1)" by (metis surj_pair)
  show ?thesis
    using assms ssl_read_nothing [OF assms(1) k] k
    by (auto simp: pktsocket_read_def read_body_def read_failed_def split: if_splits)
qed



end
