(* ===== verification/PktServ.thy ===== *)
theory PktServ
  imports PktSocket
begin

text \<open>
  \<open>pktserv/pktserv.c\<close> and the acceptor of \<open>pktserv/pktsocket.c\<close>: the set of polled
  descriptors, the state machine of a connection, the event loop and the entry points
  \<open>pktserv_send\<close>, \<open>pktserv_disconnect\<close>, \<open>pktserv_addport\<close>, \<open>pktserv_dumpsockets\<close> and
  \<open>pktserv_loadsockets\<close>.

  The state has the client buffers (\<open>MAX_USERS\<close> is their number), the poll set with its
  capacity, the environment of theory \<open>PktSocket\<close> and, as a type parameter, the state of the
  program behind the callbacks. What \<open>poll\<close> reports is an argument of the round it starts. The
  loop of the state machine can run forever, so it has fuel: \<open>None\<close> is a loop that has not
  ended yet.
\<close>

section \<open>State\<close>

datatype poll_event = POLLIN | POLLOUT | POLLERR | POLLHUP | POLLNVAL

record pollfd =
  p_fd :: int
  p_events :: "poll_event set"
  p_revents :: "poll_event set"

definition zero_pollfd :: pollfd where
  "zero_pollfd = \<lparr>p_fd = 0, p_events = {}, p_revents = {}\<rparr>"

record 'u pkt =
  cbufs :: "cbuf list"
  net :: os
  g_pollset :: "pollfd list"
  g_pollsetsize :: nat
  port_fd :: int
  sslport_fd :: int
  upper :: 'u

text \<open>The callbacks; a null pointer is \<open>None\<close>.\<close>

record 'u pktserv_cb =
  cb_idle :: "(int \<Rightarrow> 'u pkt \<Rightarrow> 'u pkt) option"
  cb_dispatch :: "(int \<Rightarrow> string \<Rightarrow> 'u pkt \<Rightarrow> 'u pkt) option"
  cb_new_client :: "(int \<Rightarrow> bool \<Rightarrow> 'u pkt \<Rightarrow> 'u pkt) option"
  cb_lost_client :: "(int \<Rightarrow> 'u pkt \<Rightarrow> 'u pkt) option"
  cb_ok2read :: "(int \<Rightarrow> 'u pkt \<Rightarrow> int) option"

abbreviation (input) max_users :: "'u pkt \<Rightarrow> int" where
  "max_users st \<equiv> int (length (cbufs st))"

abbreviation (input) cbuf_at :: "'u pkt \<Rightarrow> int \<Rightarrow> cbuf" where
  "cbuf_at st s \<equiv> cbufs st ! nat s"

definition upd_c :: "int \<Rightarrow> (cbuf \<Rightarrow> cbuf) \<Rightarrow> 'u pkt \<Rightarrow> 'u pkt" where
  "upd_c s f st = st\<lparr>cbufs := (cbufs st)[nat s := f (cbuf_at st s)]\<rparr>"

definition upd_net :: "(os \<Rightarrow> os) \<Rightarrow> 'u pkt \<Rightarrow> 'u pkt" where
  "upd_net f st = st\<lparr>net := f (net st)\<rparr>"

definition set_state :: "int \<Rightarrow> SocketState \<Rightarrow> 'u pkt \<Rightarrow> 'u pkt" where
  "set_state s x st = upd_c s (\<lambda>c. c\<lparr>c_state := x\<rparr>) st"

text \<open>An operation on one connection, run on its buffer and the environment.\<close>

definition on_cbuf :: "(cbuf \<Rightarrow> os \<Rightarrow> int \<times> cbuf \<times> os) \<Rightarrow> int \<Rightarrow> 'u pkt \<Rightarrow> int \<times> 'u pkt" where
  "on_cbuf f s st =
     (let (r, c, w) = f (cbuf_at st s) (net st) in (r, upd_c s (\<lambda>_. c) (st\<lparr>net := w\<rparr>)))"

section \<open>The poll set\<close>

text \<open>
  \<open>g_pollset\<close> is the allocated array (its length is \<open>g_pollsetmax\<close>, no array is the empty
  list); the entries below \<open>g_pollsetsize\<close> are in use.
\<close>

fun fd_index :: "int \<Rightarrow> pollfd list \<Rightarrow> nat" where
  "fd_index fd [] = 0"
| "fd_index fd (p # ps) = (if p_fd p = fd then 0 else Suc (fd_index fd ps))"

definition grow_pollset :: "'u pkt \<Rightarrow> bool \<times> 'u pkt" where
  "grow_pollset st =
     (let cap = length (g_pollset st)
      in if cap = 0 \<or> g_pollsetsize st = cap then
           (let (ok, w) = malloc (net st);
                st = st\<lparr>net := w\<rparr>
            in if \<not> ok then (False, st)
               else if cap = 0 then (True, st\<lparr>g_pollset := replicate 16 zero_pollfd\<rparr>)
               else (True, st\<lparr>g_pollset := g_pollset st @ replicate cap zero_pollfd\<rparr>))
         else (True, st))"

definition add_pollfd :: "int \<Rightarrow> 'u pkt \<Rightarrow> int \<times> 'u pkt" where
  "add_pollfd fd st =
     (let size = g_pollsetsize st;
          st = upd_net (os_flag (size > length (g_pollset st))) st;
          i = fd_index fd (take size (g_pollset st))
      in if i < size then
           (0, st\<lparr>g_pollset := (g_pollset st)[i := (g_pollset st ! i)\<lparr>p_events := {POLLIN}\<rparr>]\<rparr>)
         else let (ok, st) = grow_pollset st
           in if \<not> ok then (-1, st)
              else (0, upd_net (os_flag (i \<ge> length (g_pollset st)))
                     (st\<lparr>g_pollset := (g_pollset st)
                          [i := (g_pollset st ! i)\<lparr>p_fd := fd, p_events := {POLLIN}\<rparr>],
                         g_pollsetsize := size + 1\<rparr>)))"

text \<open>
  The entries after the deleted one move down by one; the last one stays in its place as well,
  above the new size.
\<close>

definition delete_pollfd :: "int \<Rightarrow> 'u pkt \<Rightarrow> 'u pkt" where
  "delete_pollfd fd st =
     (let size = g_pollsetsize st;
          i = fd_index fd (take size (g_pollset st));
          moved = take (size - (i + 1)) (drop (i + 1) (g_pollset st))
      in if i < size then
           st\<lparr>g_pollset := take i (g_pollset st) @ moved @ drop (i + length moved) (g_pollset st),
              g_pollsetsize := size - 1\<rparr>
         else st)"

section \<open>Connections\<close>

text \<open>
  \<open>accept\<close> on a listening socket. The socket options are only logged when they fail;
  making the socket non-blocking is one more call that may fail.
\<close>

definition pktsocket_accept :: "int \<Rightarrow> 'u pkt \<Rightarrow> int \<times> 'u pkt" where
  "pktsocket_accept l st =
     (let (ns, w) = sys_accept (net st);
          st = st\<lparr>net := w\<rparr>
      in if ns < 0 then
           (if ewouldblock w then (0, upd_c l (\<lambda>c. c\<lparr>c_disp := BLOCKED\<rparr>) st) else (-1, st))
         else
           (let st = upd_c l (\<lambda>c. c\<lparr>c_disp := OK\<rparr>) st
            in if ns \<ge> max_users st then (-1, upd_net (os_close ns) st)
               else let (a, w) = next_answer (net st);
                        st = st\<lparr>net := w\<rparr>
                 in if a = Fail then (-1, st)
                    else let ssl = (c_state (cbuf_at st l) = LISTEN_SOCKET_SSL);
                             st = upd_c ns (\<lambda>_. zero_cbuf\<lparr>c_fd := ns, c_newmsg := True,
                                    c_state := (if ssl then WANT_SSL_ACCEPT else ACCEPTED),
                                    c_is_ssl := ssl, c_disp := OK\<rparr>) st
                      in (0, snd (add_pollfd ns st))))"

definition handle_disconnect :: "cbuf \<Rightarrow> cbuf" where
  "handle_disconnect c = c\<lparr>c_rbuf := None, c_wlist := [], c_state := WANT_RAW_DISCONNECT\<rparr>"

definition handle_raw_disconnect :: "int \<Rightarrow> 'u pkt \<Rightarrow> 'u pkt" where
  "handle_raw_disconnect s st =
     (let fd = c_fd (cbuf_at st s)
      in upd_c s (\<lambda>c. c\<lparr>c_state := DISCONNECTED\<rparr>)
           (delete_pollfd fd (upd_c s (\<lambda>c. c\<lparr>c_ssl_con := False\<rparr>) (upd_net (os_close fd) st))))"

section \<open>Entry points\<close>

text \<open>A descriptor from outside is used as an index without a check.\<close>

definition need_c :: "int \<Rightarrow> 'u pkt \<Rightarrow> 'u pkt" where
  "need_c s st = upd_net (os_flag (s < 0 \<or> s \<ge> max_users st)) st"

text \<open>\<open>pktserv_send\<close>: the queue's bound is checked after the state is set.\<close>

definition pktserv_send :: "int \<Rightarrow> string \<Rightarrow> 'u pkt \<Rightarrow> int \<times> 'u pkt" where
  "pktserv_send s pkt st =
     (let st = need_c s st;
          c = cbuf_at st s
      in if c_state c = WANT_DISCONNECT \<or> c_state c = WANT_RAW_DISCONNECT then (-1, st)
         else let st = set_state s WANT_WRITE st
           in if c_wlist_size c \<ge> MAX_SENDPACKET_QUEUE then (-1, st)
              else let (mb, w) = msgbuf_alloc None (length pkt) (net st);
                       st = st\<lparr>net := w\<rparr>
                in case mb of
                     None \<Rightarrow> (-1, st)
                   | Some m \<Rightarrow>
                       (let m = m\<lparr>m_data := pkt, m_len := length pkt, m_pos := 0\<rparr>;
                            st = upd_c s (\<lambda>c. c\<lparr>c_wlist := c_wlist c @ [m],
                                   c_wlist_size := c_wlist_size c + 1, c_state := WANT_WRITE\<rparr>) st;
                            (r, st) = on_cbuf pktsocket_write s st
                        in if r < 0 then (-1, set_state s WANT_DISCONNECT st) else (0, st)))"

definition pktserv_disconnect :: "int \<Rightarrow> 'u pkt \<Rightarrow> int \<times> 'u pkt" where
  "pktserv_disconnect s st = (0, set_state s WANT_DISCONNECT (need_c s st))"

text \<open>Each callback that is given replaces the stored one.\<close>

definition pktserv_init :: "'u pktserv_cb \<Rightarrow> 'u pktserv_cb \<Rightarrow> 'u pktserv_cb" where
  "pktserv_init cb g =
     \<lparr>cb_idle = (case cb_idle cb of None \<Rightarrow> cb_idle g | Some f \<Rightarrow> Some f),
          cb_dispatch = (case cb_dispatch cb of None \<Rightarrow> cb_dispatch g | Some f \<Rightarrow> Some f),
          cb_new_client = (case cb_new_client cb of None \<Rightarrow> cb_new_client g | Some f \<Rightarrow> Some f),
          cb_lost_client = (case cb_lost_client cb of None \<Rightarrow> cb_lost_client g | Some f \<Rightarrow> Some f),
          cb_ok2read = (case cb_ok2read cb of None \<Rightarrow> cb_ok2read g | Some f \<Rightarrow> Some f)\<rparr>"

text \<open>
  \<open>pktserv_addport\<close>: the addresses \<open>getaddrinfo\<close> found, each with what happens when the
  server tries to listen there. IPv6 addresses are tried first.
\<close>

datatype bind_result = No_socket | No_dual_stack | No_bind | Bound int

fun try_addrs :: "bool \<Rightarrow> (bool \<times> bind_result) list \<Rightarrow> int" where
  "try_addrs v6 [] = -1"
| "try_addrs v6 ((fam, r) # as) =
     (if fam \<noteq> v6 then try_addrs v6 as
      else case r of Bound s \<Rightarrow> s | _ \<Rightarrow> try_addrs v6 as)"

definition pktserv_addport ::
  "(bool \<times> bind_result) list option \<Rightarrow> bool \<Rightarrow> bool \<Rightarrow> 'u pkt \<Rightarrow> int \<times> 'u pkt" where
  "pktserv_addport addrs nonblock_ok is_ssl st =
     (case addrs of
        None \<Rightarrow> (-1, st)
      | Some as \<Rightarrow>
          (let s = try_addrs True as;
               s = (if s < 0 then try_addrs False as else s)
           in if s < 0 then (-1, st)
              else if \<not> nonblock_ok \<or> s \<ge> max_users st then (-1, upd_net (os_close s) st)
              else (s, snd (add_pollfd s (upd_c s
                     (\<lambda>c. c\<lparr>c_disp := OK, c_fd := s,
                       c_state := (if is_ssl then LISTEN_SOCKET_SSL else LISTEN_SOCKET)\<rparr>) st)))))"

text \<open>The dump file of \<open>pktserv_dumpsockets\<close>: one number per line.\<close>

definition pktserv_dumpsockets :: "'u pkt \<Rightarrow> int list" where
  "pktserv_dumpsockets st =
     int (g_pollsetsize st) # map p_fd (take (g_pollsetsize st) (g_pollset st))
       @ [port_fd st, sslport_fd st]"

definition scan :: "int \<Rightarrow> int list \<Rightarrow> int \<times> int list" where
  "scan k xs = (case xs of [] \<Rightarrow> (k, []) | x # xs \<Rightarrow> (x, xs))"

text \<open>
  The loop of \<open>pktserv_loadsockets\<close> runs to \<open>g_pollsetsize\<close>, which \<open>add_pollfd\<close> may raise
  again, so it has fuel.
\<close>

fun load_fds :: "nat \<Rightarrow> nat \<Rightarrow> int \<Rightarrow> int list \<Rightarrow> 'u pkt \<Rightarrow> (int list \<times> 'u pkt) option" where
  "load_fds 0 i k xs st = None"
| "load_fds (Suc n) i k xs st =
     (if i < g_pollsetsize st then
        (let (k, xs) = scan k xs in load_fds n (i + 1) k xs (snd (add_pollfd k st)))
      else Some (xs, st))"

definition pktserv_loadsockets :: "nat \<Rightarrow> int list \<Rightarrow> 'u pkt \<Rightarrow> 'u pkt option" where
  "pktserv_loadsockets fuel xs st =
     (let (k, xs) = scan 0 xs;
          st = st\<lparr>g_pollsetsize := nat k\<rparr>
      in case load_fds fuel 0 k xs st of
           None \<Rightarrow> None
         | Some (xs, st) \<Rightarrow>
             (let (p, xs) = scan (port_fd st) xs;
                  (q, xs) = scan (sslport_fd st) xs
              in Some (st\<lparr>port_fd := p, sslport_fd := q\<rparr>)))"

section \<open>The state machine\<close>

text \<open>Reading, for the states that want input; then back to writing if packets are queued.\<close>

definition finish_packet :: "'u pktserv_cb \<Rightarrow> int \<Rightarrow> 'u pkt \<Rightarrow> 'u pkt" where
  "finish_packet cb s st =
     (case cb_dispatch cb of
        Some f \<Rightarrow>
          (if c_state (cbuf_at st s) = COMPLETE_PACKET then
             (let st = f (c_fd (cbuf_at st s)) (m_data (the (c_rbuf (cbuf_at st s)))) st;
                  st = upd_net (os_flag (c_rbuf (cbuf_at st s) = None)) st
              in upd_c s (\<lambda>c. c\<lparr>c_rbuf := None, c_state := WANT_HEADER\<rparr>) st)
           else st)
      | None \<Rightarrow> st)"

definition want_read :: "'u pktserv_cb \<Rightarrow> bool \<Rightarrow> int \<Rightarrow> 'u pkt \<Rightarrow> 'u pkt" where
  "want_read cb readable s st =
     (let ok = (case cb_ok2read cb of None \<Rightarrow> 1 | Some f \<Rightarrow> f (c_fd (cbuf_at st s)) st);
          st = (if readable \<and> ok \<noteq> 0
                then finish_packet cb s (snd (on_cbuf pktsocket_read s st)) else st)
      in if c_wlist (cbuf_at st s) \<noteq> [] then set_state s WANT_WRITE st else st)"

text \<open>One turn of the loop: whether the function returns, and the state.\<close>

definition machine_step ::
  "'u pktserv_cb \<Rightarrow> bool \<Rightarrow> bool \<Rightarrow> int \<Rightarrow> 'u pkt \<Rightarrow> bool \<times> 'u pkt" where
  "machine_step cb readable writeable s st =
     (case c_state (cbuf_at st s) of
        LISTEN_SOCKET \<Rightarrow> (True, snd (pktsocket_accept s st))
      | LISTEN_SOCKET_SSL \<Rightarrow> (True, snd (pktsocket_accept s st))
      | ACCEPTED \<Rightarrow>
          (let st = set_state s WANT_HEADER st;
               c = cbuf_at st s
           in (False, case cb_new_client cb of None \<Rightarrow> st | Some f \<Rightarrow> f (c_fd c) (c_is_ssl c) st))
      | WANT_SSL_ACCEPT \<Rightarrow>
          (True, if readable \<or> writeable then snd (on_cbuf sslsocket_accept s st) else st)
      | WANT_SSL_READ \<Rightarrow>
          (True, if readable \<or> writeable then snd (on_cbuf pktsocket_read s st) else st)
      | WANT_SSL_WRITE \<Rightarrow>
          (True, if readable \<or> writeable then snd (on_cbuf pktsocket_write s st) else st)
      | WANT_WRITE \<Rightarrow>
          (let st = (if writeable then snd (on_cbuf pktsocket_write s st) else st);
               x = c_state (cbuf_at st s)
           in (False, if readable \<and> (x = WANT_READ \<or> x = WANT_HEADER)
                      then upd_c s (\<lambda>c. c\<lparr>c_disp := OK\<rparr>) st else st))
      | IDLE \<Rightarrow>
          (True, want_read cb readable s (if readable then set_state s WANT_HEADER st else st))
      | WANT_HEADER \<Rightarrow> (True, want_read cb readable s st)
      | WANT_READ \<Rightarrow> (True, want_read cb readable s st)
      | WANT_DISCONNECT \<Rightarrow>
          (let st = (case cb_lost_client cb of None \<Rightarrow> st | Some f \<Rightarrow> f (c_fd (cbuf_at st s)) st)
           in (False, upd_c s handle_disconnect st))
      | WANT_RAW_DISCONNECT \<Rightarrow> (False, handle_raw_disconnect s st)
      | DISCONNECTED \<Rightarrow> (False, upd_c s (\<lambda>c. c\<lparr>c_disp := BLOCKED\<rparr>) st)
      | COMPLETE_PACKET \<Rightarrow> (False, st))"

fun machine_loop ::
  "'u pktserv_cb \<Rightarrow> bool \<Rightarrow> bool \<Rightarrow> int \<Rightarrow> nat \<Rightarrow> 'u pkt \<Rightarrow> 'u pkt option" where
  "machine_loop cb readable writeable s 0 st = None"
| "machine_loop cb readable writeable s (Suc n) st =
     (if c_disp (cbuf_at st s) = OK then
        (let (return, st) = machine_step cb readable writeable s st
         in if return then Some st else machine_loop cb readable writeable s n st)
      else Some st)"

definition pollfd_state_machine :: "'u pktserv_cb \<Rightarrow> nat \<Rightarrow> pollfd \<Rightarrow> 'u pkt \<Rightarrow> 'u pkt option" where
  "pollfd_state_machine cb fuel p st =
     (let s = p_fd p; ev = p_revents p
      in if s \<ge> max_users st then Some st
         else if POLLERR \<in> ev \<or> POLLHUP \<in> ev \<or> POLLNVAL \<in> ev then
           (let c = cbuf_at st s;
                st = (case cb_lost_client cb of
                        Some f \<Rightarrow> (if c_state c \<noteq> LISTEN_SOCKET \<and> c_state c \<noteq> LISTEN_SOCKET_SSL
                                   then f (c_fd c) st else st)
                      | None \<Rightarrow> st)
            in Some (upd_c s handle_disconnect st))
         else
           (let readable = (POLLIN \<in> ev);
                writeable = (POLLOUT \<in> ev);
                st = (if readable \<or> writeable then upd_c s (\<lambda>c. c\<lparr>c_disp := OK\<rparr>) st else st)
            in machine_loop cb readable writeable s fuel st))"

section \<open>The event loop\<close>

text \<open>The entries that were in use at the start are all looked at, where they are by then.\<close>

fun run_pollfds :: "'u pktserv_cb \<Rightarrow> nat \<Rightarrow> nat list \<Rightarrow> 'u pkt \<Rightarrow> 'u pkt option" where
  "run_pollfds cb fuel [] st = Some st"
| "run_pollfds cb fuel (i # is) st =
     Option.bind (pollfd_state_machine cb fuel (g_pollset st ! i) st) (run_pollfds cb fuel is)"

definition handle_pollfds :: "'u pktserv_cb \<Rightarrow> nat \<Rightarrow> 'u pkt \<Rightarrow> 'u pkt option" where
  "handle_pollfds cb fuel st = run_pollfds cb fuel [0..<g_pollsetsize st] st"

definition wants_pollout :: "SocketState \<Rightarrow> bool" where
  "wants_pollout x \<longleftrightarrow> x \<in> {ACCEPTED, WANT_WRITE, WANT_SSL_WRITE, WANT_SSL_ACCEPT,
     WANT_DISCONNECT, WANT_RAW_DISCONNECT}"

definition update_pollfd_events :: "'u pkt \<Rightarrow> 'u pkt" where
  "update_pollfd_events st =
     (let upd = (\<lambda>p. if p_fd p < 0 \<or> p_fd p \<ge> max_users st then p
                      else p\<lparr>p_events := (if wants_pollout (c_state (cbuf_at st (p_fd p)))
                                           then {POLLIN, POLLOUT} else {POLLIN})\<rparr>)
      in st\<lparr>g_pollset := map upd (take (g_pollsetsize st) (g_pollset st))
                          @ drop (g_pollsetsize st) (g_pollset st)\<rparr>)"

definition idle_one :: "'u pktserv_cb \<Rightarrow> nat \<Rightarrow> 'u pkt \<Rightarrow> 'u pkt" where
  "idle_one cb i st =
     (let c = cbufs st ! i
      in if c_disp c = IGNORE then
           (case cb_ok2read cb of
              None \<Rightarrow> upd_net (os_flag True) st
            | Some f \<Rightarrow>
                (if f (c_fd c) st = 1 then
                   (let (r, st) = add_pollfd (c_fd c) st
                    in if r = 0 then upd_c (int i) (\<lambda>c. c\<lparr>c_disp := OK\<rparr>) st else st)
                 else st))
         else st)"

definition handle_idle :: "'u pktserv_cb \<Rightarrow> 'u pkt \<Rightarrow> 'u pkt" where
  "handle_idle cb st =
     (let st = (case cb_idle cb of None \<Rightarrow> st | Some f \<Rightarrow> f 0 st)
      in fold (idle_one cb) [0..<length (cbufs st)] st)"

text \<open>What \<open>poll\<close> did: it failed (interrupted or not), or it reported the events of \<open>ev\<close>.\<close>

datatype poll_result = Interrupted | Poll_error | Polled nat "int \<Rightarrow> poll_event set"

definition report_events :: "(int \<Rightarrow> poll_event set) \<Rightarrow> 'u pkt \<Rightarrow> 'u pkt" where
  "report_events ev st =
     st\<lparr>g_pollset := map (\<lambda>p. p\<lparr>p_revents := ev (p_fd p)\<rparr>) (take (g_pollsetsize st) (g_pollset st))
                     @ drop (g_pollsetsize st) (g_pollset st)\<rparr>"

text \<open>One turn of \<open>pktserv_run\<close>; the number counts the turns since the last idle work.\<close>

definition pktserv_turn ::
  "'u pktserv_cb \<Rightarrow> nat \<Rightarrow> poll_result \<Rightarrow> nat \<times> 'u pkt \<Rightarrow> (nat \<times> 'u pkt) option" where
  "pktserv_turn cb fuel pr loop =
     (let (loopcount, st) = loop;
          loopcount = loopcount + 1;
          st = update_pollfd_events st
      in case pr of
           Poll_error \<Rightarrow> Some (if loopcount mod 10 = 0 then (0, handle_idle cb st) else (loopcount, st))
         | Interrupted \<Rightarrow> Some (0, handle_idle cb st)
         | Polled n ev \<Rightarrow>
             (let st = report_events ev st
              in Option.bind (if n > 0 then handle_pollfds cb fuel st else Some st)
                   (\<lambda>st. Some (0, handle_idle cb st))))"

fun pktserv_run ::
  "'u pktserv_cb \<Rightarrow> nat \<Rightarrow> poll_result list \<Rightarrow> nat \<times> 'u pkt \<Rightarrow> (nat \<times> 'u pkt) option" where
  "pktserv_run cb fuel [] loop = Some loop"
| "pktserv_run cb fuel (pr # prs) loop =
     Option.bind (pktserv_turn cb fuel pr loop) (pktserv_run cb fuel prs)"

section \<open>Changing one connection\<close>

lemma upd_c_frame [simp]:
  "net (upd_c s f st) = net st" "g_pollset (upd_c s f st) = g_pollset st"
  "g_pollsetsize (upd_c s f st) = g_pollsetsize st" "upper (upd_c s f st) = upper st"
  "length (cbufs (upd_c s f st)) = length (cbufs st)"
  by (simp_all add: upd_c_def)

lemma upd_net_frame [simp]:
  "net (upd_net f st) = f (net st)" "g_pollset (upd_net f st) = g_pollset st"
  "g_pollsetsize (upd_net f st) = g_pollsetsize st" "upper (upd_net f st) = upper st"
  "cbufs (upd_net f st) = cbufs st"
  by (simp_all add: upd_net_def)

lemma cbufs_upd_c [simp]:
  "0 \<le> s \<Longrightarrow> nat s < length (cbufs st) \<Longrightarrow> cbufs (upd_c s f st) ! nat s = f (cbuf_at st s)"
  "i \<noteq> nat s \<Longrightarrow> cbufs (upd_c s f st) ! i = cbufs st ! i"
  by (simp_all add: upd_c_def)

lemma set_state_frame [simp]:
  "net (set_state s x st) = net st" "g_pollset (set_state s x st) = g_pollset st"
  "g_pollsetsize (set_state s x st) = g_pollsetsize st" "upper (set_state s x st) = upper st"
  "length (cbufs (set_state s x st)) = length (cbufs st)"
  "0 \<le> s \<Longrightarrow> nat s < length (cbufs st) \<Longrightarrow>
    cbufs (set_state s x st) ! nat s = (cbuf_at st s)\<lparr>c_state := x\<rparr>"
  "i \<noteq> nat s \<Longrightarrow> cbufs (set_state s x st) ! i = cbufs st ! i"
  by (simp_all add: set_state_def)

lemma need_c_in_range [simp]:
  "0 \<le> s \<Longrightarrow> s < max_users st \<Longrightarrow> need_c s st = st"
  by (simp add: need_c_def upd_net_def)

definition in_range :: "int \<Rightarrow> 'u pkt \<Rightarrow> bool" where
  "in_range s st \<longleftrightarrow> 0 \<le> s \<and> nat s < length (cbufs st)"

lemma in_rangeD: "in_range s st \<Longrightarrow> 0 \<le> s \<and> nat s < length (cbufs st) \<and> s < max_users st"
  by (auto simp: in_range_def)

lemma in_range_cong [simp]:
  "in_range s (upd_c s' f st) = in_range s st" "in_range s (upd_net g st) = in_range s st"
  "in_range s (set_state s' x st) = in_range s st" "in_range s (st\<lparr>net := w\<rparr>) = in_range s st"
  by (simp_all add: in_range_def)

text \<open>
  What is the same after an operation that works on connection \<open>s\<close> only: the other buffers,
  the poll set, the program's state and what the kernel has of other descriptors.
\<close>

definition only_conn :: "int \<Rightarrow> 'u pkt \<Rightarrow> 'u pkt \<Rightarrow> bool" where
  "only_conn s st st' \<longleftrightarrow>
     length (cbufs st') = length (cbufs st) \<and> (\<forall>i. i \<noteq> nat s \<longrightarrow> cbufs st' ! i = cbufs st ! i) \<and>
     g_pollset st' = g_pollset st \<and> g_pollsetsize st' = g_pollsetsize st \<and> upper st' = upper st \<and>
     closed (net st') = closed (net st) \<and> os_fault (net st') = os_fault (net st) \<and>
     (\<forall>fd. fd \<noteq> c_fd (cbuf_at st s) \<longrightarrow> tx (net st') fd = tx (net st) fd)"

text \<open>Everything the connection's peer will get: what the kernel has, then what is queued.\<close>

definition stream :: "int \<Rightarrow> 'u pkt \<Rightarrow> string" where
  "stream s st = tx (net st) (c_fd (cbuf_at st s)) @ queued (cbuf_at st s)"

lemma on_cbuf_write:
  assumes "in_range s st" "queue_ok (cbuf_at st s)" "on_cbuf pktsocket_write s st = (r, st')"
  shows "only_conn s st st' \<and> stream s st' = stream s st \<and> queue_ok (cbuf_at st' s) \<and>
    (r = 0 \<or> r = -1) \<and>
    c_rbuf (cbuf_at st' s) = c_rbuf (cbuf_at st s) \<and> c_disp (cbuf_at st' s) = c_disp (cbuf_at st s) \<and>
    c_fd (cbuf_at st' s) = c_fd (cbuf_at st s) \<and>
    (c_state (cbuf_at st' s) \<in> write_states \<or> c_state (cbuf_at st' s) = c_state (cbuf_at st s))"
proof -
  obtain c w where cw: "pktsocket_write (cbuf_at st s) (net st) = (r, c, w)"
    using assms(3) by (auto simp: on_cbuf_def split: prod.splits)
  have st': "st' = upd_c s (\<lambda>_. c) (st\<lparr>net := w\<rparr>)" using assms(3) cw by (simp add: on_cbuf_def)
  show ?thesis
    using pktsocket_write_effect [OF assms(2) cw] in_rangeD [OF assms(1)]
    by (auto simp: st' only_conn_def write_effect_def stream_def)
qed

lemma only_conn_refl [simp]: "only_conn s st st"
  by (simp add: only_conn_def)

lemma msgbuf_alloc_None:
  "msgbuf_alloc None n w = (mb, w') \<Longrightarrow>
    rx w' = rx w \<and> tx w' = tx w \<and> os_fault w' = os_fault w \<and> closed w' = closed w \<and> answers w' = answers w"
  by (auto simp: msgbuf_alloc_def malloc_def split: list.splits if_splits)

text \<open>The packet joins the queue.\<close>

definition enqueue :: "int \<Rightarrow> msgbuf \<Rightarrow> 'u pkt \<Rightarrow> 'u pkt" where
  "enqueue s m st =
     upd_c s (\<lambda>c. c\<lparr>c_wlist := c_wlist c @ [m], c_wlist_size := c_wlist_size c + 1,
       c_state := WANT_WRITE\<rparr>) st"

lemma pktserv_send_cases:
  assumes "in_range s st" "pktserv_send s p st = (r, st')"
  obtains (closing) "c_state (cbuf_at st s) \<in> {WANT_DISCONNECT, WANT_RAW_DISCONNECT}" "r = -1" "st' = st"
  | (full) "c_state (cbuf_at st s) \<notin> {WANT_DISCONNECT, WANT_RAW_DISCONNECT}"
      "r = -1" "\<exists>w. st' = (set_state s WANT_WRITE st)\<lparr>net := w\<rparr> \<and>
        rx w = rx (net st) \<and> tx w = tx (net st) \<and> os_fault w = os_fault (net st) \<and> closed w = closed (net st)"
  | (queued) m w st2 r2 where "c_state (cbuf_at st s) \<notin> {WANT_DISCONNECT, WANT_RAW_DISCONNECT}"
      "c_wlist_size (cbuf_at st s) < MAX_SENDPACKET_QUEUE"
      "m_data m = p" "m_len m = length p" "m_pos m = 0"
      "rx w = rx (net st)" "tx w = tx (net st)" "os_fault w = os_fault (net st)"
      "closed w = closed (net st)" "answers w = answers (net st)"
      "on_cbuf pktsocket_write s (enqueue s m (st\<lparr>net := w\<rparr>)) = (r2, st2)"
      "r = (if r2 < 0 then -1 else 0)"
      "st' = (if r2 < 0 then set_state s WANT_DISCONNECT st2 else st2)"
proof -
  let ?c = "cbuf_at st s"
  let ?st1 = "set_state s WANT_WRITE st"
  note rng = in_rangeD [OF assms(1)]
  consider "c_state ?c \<in> {WANT_DISCONNECT, WANT_RAW_DISCONNECT}"
    | "c_state ?c \<notin> {WANT_DISCONNECT, WANT_RAW_DISCONNECT}" "c_wlist_size ?c \<ge> MAX_SENDPACKET_QUEUE"
    | "c_state ?c \<notin> {WANT_DISCONNECT, WANT_RAW_DISCONNECT}" "c_wlist_size ?c < MAX_SENDPACKET_QUEUE"
    by linarith
  then show thesis
  proof cases
    case 1
    then have "r = -1 \<and> st' = st" using assms(2) rng by (auto simp: pktserv_send_def)
    then show thesis using 1 closing by blast
  next
    case 2
    then have "r = -1" "st' = ?st1" using assms(2) rng by (auto simp: pktserv_send_def)
    moreover have "?st1 = ?st1\<lparr>net := net st\<rparr>" by (simp add: set_state_def upd_c_def)
    ultimately show thesis using 2 full by blast
  next
    case 3
    obtain mb w where mb: "msgbuf_alloc None (length p) (net st) = (mb, w)" by fastforce
    note w = msgbuf_alloc_None [OF mb]
    show thesis
    proof (cases mb)
      case None
      then have "r = -1" "st' = ?st1\<lparr>net := w\<rparr>" using assms(2) rng 3 mb by (auto simp: pktserv_send_def)
      then show thesis using 3 w full by blast
    next
      case (Some m)
      let ?m = "m\<lparr>m_data := p, m_len := length p, m_pos := 0\<rparr>"
      have eq: "upd_c s (\<lambda>c. c\<lparr>c_wlist := c_wlist c @ [?m], c_wlist_size := c_wlist_size c + 1,
          c_state := WANT_WRITE\<rparr>) (?st1\<lparr>net := w\<rparr>) = enqueue s ?m (st\<lparr>net := w\<rparr>)"
        using rng by (simp add: enqueue_def set_state_def upd_c_def)
      obtain r2 st2 where wr: "on_cbuf pktsocket_write s (enqueue s ?m (st\<lparr>net := w\<rparr>)) = (r2, st2)"
        by fastforce
      have "r = (if r2 < 0 then -1 else 0)" "st' = (if r2 < 0 then set_state s WANT_DISCONNECT st2 else st2)"
        using assms(2) rng 3 mb Some wr by (auto simp: pktserv_send_def eq Let_def split: if_splits)
      then show thesis using queued [of ?m w r2 st2] 3 w wr by simp
    qed
  qed
qed

definition send_states :: "SocketState set" where
  "send_states = insert WANT_RAW_DISCONNECT write_states"

lemma pktserv_send_effect:
  assumes "in_range s st" "queue_ok (cbuf_at st s)" "pktserv_send s p st = (r, st')"
  shows "only_conn s st st' \<and> queue_ok (cbuf_at st' s) \<and> (r = 0 \<or> r = -1) \<and>
    (stream s st' = stream s st @ p \<or> r = -1 \<and> stream s st' = stream s st) \<and>
    c_rbuf (cbuf_at st' s) = c_rbuf (cbuf_at st s) \<and> c_disp (cbuf_at st' s) = c_disp (cbuf_at st s) \<and>
    c_fd (cbuf_at st' s) = c_fd (cbuf_at st s) \<and> c_state (cbuf_at st' s) \<in> send_states \<and>
    (c_state (cbuf_at st s) \<in> {WANT_DISCONNECT, WANT_RAW_DISCONNECT} \<longrightarrow> st' = st)"
  using assms(1,3)
proof (cases rule: pktserv_send_cases)
  case closing
  then show ?thesis using assms(2) by (auto simp: send_states_def write_states_def)
next
  case full
  then show ?thesis using in_rangeD [OF assms(1)] assms(2)
    by (auto simp: only_conn_def queue_ok_def stream_def queued_def send_states_def write_states_def)
next
  case (queued m w st2 r2)
  let ?st = "enqueue s m (st\<lparr>net := w\<rparr>)"
  note r = in_rangeD [OF assms(1)]
  have rng: "in_range s ?st" using assms(1) by (simp add: enqueue_def)
  have q: "queue_ok (cbuf_at ?st s)"
    using r assms(2) queued by (simp add: enqueue_def queue_ok_def)
  have str: "stream s ?st = stream s st @ p"
    using r queued by (simp add: enqueue_def stream_def queued_def unsent_def)
  have only: "only_conn s st ?st" using r queued by (simp add: enqueue_def only_conn_def)
  note eff = on_cbuf_write [OF rng q queued(11)]
  have c: "c_rbuf (cbuf_at ?st s) = c_rbuf (cbuf_at st s)" "c_disp (cbuf_at ?st s) = c_disp (cbuf_at st s)"
    "c_fd (cbuf_at ?st s) = c_fd (cbuf_at st s)" "c_state (cbuf_at ?st s) = WANT_WRITE"
    using r by (simp_all add: enqueue_def)
  have rng2: "0 \<le> s \<and> nat s < length (cbufs st2)" using eff rng by (simp add: only_conn_def in_range_def)
  have only2: "only_conn s st st2" using only eff c by (simp add: only_conn_def)
  show ?thesis
  proof (cases "r2 < 0")
    case True
    then have st': "st' = set_state s WANT_DISCONNECT st2" "r = -1" using queued(12,13) by simp_all
    have "only_conn s st st'" using only2 rng2 by (simp add: st' only_conn_def)
    moreover have "stream s st' = stream s st @ p"
      using eff [THEN conjunct2, THEN conjunct1] str rng2 by (simp add: st' stream_def queued_def)
    moreover have "queue_ok (cbuf_at st' s)" using eff rng2 by (simp add: st' queue_ok_def)
    ultimately show ?thesis
      using st' eff rng2 c queued(1) by (simp add: send_states_def write_states_def)
  next
    case False
    then have "st' = st2" "r = 0" using queued(12,13) by simp_all
    then show ?thesis using eff str only2 c queued(1) by (auto simp: send_states_def write_states_def)
  qed
qed

text \<open>
  C36 (sending keeps the stream): \<open>pktserv_send\<close> returns 0 or -1, never -2. When it returns 0
  the bytes of the packet are added at the end of the connection's output, where they are partly
  sent and partly queued, behind everything sent or queued before; when it returns -1 the packet
  is either wholly appended or not at all. No other connection is touched, and the queue keeps its
  bound of ten packets.\<close>

theorem pktserv_send_stream:
  assumes "in_range s st" "queue_ok (cbufs st ! nat s)"
  shows "case pktserv_send s p st of (r, st') \<Rightarrow>
    (r = 0 \<or> r = -1) \<and>
    (stream s st' = stream s st @ p \<or> r = -1 \<and> stream s st' = stream s st) \<and>
    length (c_wlist (cbufs st' ! nat s)) \<le> 10 \<and> queue_ok (cbufs st' ! nat s) \<and>
    only_conn s st st'"
proof -
  obtain r st' where st': "pktserv_send s p st = (r, st')" by fastforce
  note eff = pktserv_send_effect [OF assms st']
  then have "length (c_wlist (cbufs st' ! nat s)) \<le> 10"
    by (auto simp: queue_ok_def MAX_SENDPACKET_QUEUE_def)
  with eff st' show ?thesis by auto
qed

definition wit_pkt :: "cbuf \<Rightarrow> os \<Rightarrow> nat pkt" where
  "wit_pkt c w = \<lparr>cbufs = replicate 5 zero_cbuf @ [c, zero_cbuf], net = w,
     g_pollset = \<lparr>p_fd = 5, p_events = {POLLIN}, p_revents = {}\<rparr> # replicate 15 zero_pollfd,
     g_pollsetsize = 1, port_fd = 0, sslport_fd = 0, upper = 0\<rparr>"

text \<open>Three bytes of six go out, the rest waits; a second packet queues behind it.\<close>

theorem pktserv_send_stream_witness:
  "stream 5 (snd (pktserv_send 5 ''defg'' (snd (pktserv_send 5 ''abcabc''
     (wit_pkt wit_cbuf (wit_os [] [Grant 2 False])))))) = ''abcabcdefg'' \<and>
   tx (net (snd (pktserv_send 5 ''defg'' (snd (pktserv_send 5 ''abcabc''
     (wit_pkt wit_cbuf (wit_os [] [Grant 2 False]))))))) 5 = ''abc''"
proof -
  let ?st = "snd (pktserv_send 5 ''abcabc'' (wit_pkt wit_cbuf (wit_os [] [Grant 2 False])))"
  have "in_range 5 ?st" "queue_ok (cbufs ?st ! nat 5)" by code_simp+
  from pktserv_send_stream [OF this, of "''defg''"]
  have "stream 5 (snd (pktserv_send 5 ''defg'' ?st)) = stream 5 ?st @ ''defg'' \<or>
    fst (pktserv_send 5 ''defg'' ?st) = -1" by (auto split: prod.splits)
  moreover have "fst (pktserv_send 5 ''defg'' ?st) \<noteq> -1" "stream 5 ?st = ''abcabc''" by code_simp+
  moreover have "tx (net (snd (pktserv_send 5 ''defg'' ?st))) 5 = ''abc''" by code_simp
  ultimately show ?thesis by simp
qed

end
