(* ===== verification/PktInv.thy ===== *)
theory PktInv
  imports PktServ
begin

text \<open>
  The invariant of the packet layer of \<open>pktserv/pktserv.c\<close>, and the locale \<open>upper_layer\<close>: the contract
  between the packet layer and the program behind its callbacks. Inside the locale every step of
  the state machine and every turn of the event loop is shown to keep the invariant, whatever
  the network does. Theory \<open>Server\<close> interprets the locale on the chat server.
\<close>

section \<open>The invariant\<close>

text \<open>
  Every connection's buffers are well formed and its descriptor is one of the table, the poll set
  has no descriptor twice and only
  descriptors of the table (the cells above its size too, since the event loop may look at one of
  them after a deletion), and nothing was accessed out of bounds or through a null pointer.
\<close>

definition poll_fds :: "'u pkt \<Rightarrow> int list" where
  "poll_fds st = map p_fd (take (g_pollsetsize st) (g_pollset st))"

definition pollset_ok :: "'u pkt \<Rightarrow> bool" where
  "pollset_ok st \<longleftrightarrow> g_pollsetsize st \<le> length (g_pollset st) \<and> distinct (poll_fds st) \<and>
     list_all (\<lambda>p. in_range (p_fd p) st) (g_pollset st)"

definition conn_ok :: "cbuf \<Rightarrow> bool" where
  "conn_ok c \<longleftrightarrow> cbuf_ok c \<and> c_disp c \<noteq> IGNORE"

definition pkt_ok :: "'u pkt \<Rightarrow> bool" where
  "pkt_ok st \<longleftrightarrow> list_all conn_ok (cbufs st) \<and> list_all (\<lambda>c. in_range (c_fd c) st) (cbufs st) \<and>
     pollset_ok st \<and> \<not> os_fault (net st)"

text \<open>
  What the program behind the callbacks may do: send packets, ask for disconnects, and change
  its own state.
\<close>

inductive api :: "'u pkt \<Rightarrow> 'u pkt \<Rightarrow> bool" where
  api_refl: "api st st"
| api_send: "api st st1 \<Longrightarrow> in_range s st1 \<Longrightarrow> api st (snd (pktserv_send s p st1))"
| api_disconnect: "api st st1 \<Longrightarrow> in_range s st1 \<Longrightarrow> api st (snd (pktserv_disconnect s st1))"
| api_upper: "api st st1 \<Longrightarrow> api st (st1\<lparr>upper := u\<rparr>)"

text \<open>Two states in which each connection has the same read buffer, descriptor and disposition.\<close>

definition same_conns :: "'u pkt \<Rightarrow> 'u pkt \<Rightarrow> bool" where
  "same_conns st st' \<longleftrightarrow>
     length (cbufs st') = length (cbufs st) \<and>
     (\<forall>i < length (cbufs st). c_rbuf (cbufs st' ! i) = c_rbuf (cbufs st ! i) \<and>
        c_fd (cbufs st' ! i) = c_fd (cbufs st ! i) \<and> c_disp (cbufs st' ! i) = c_disp (cbufs st ! i)) \<and>
     g_pollset st' = g_pollset st \<and> g_pollsetsize st' = g_pollsetsize st \<and>
     closed (net st') = closed (net st) \<and> os_fault (net st') = os_fault (net st)"

lemma same_conns_trans: "same_conns st st1 \<Longrightarrow> same_conns st1 st' \<Longrightarrow> same_conns st st'"
  by (simp add: same_conns_def)

lemma conn_okI_state:
  assumes "conn_ok c" "queue_ok c'" "c_rbuf c' = c_rbuf c" "c_disp c' = c_disp c"
    and "c_state c' = c_state c \<or> \<not> reading (c_state c')"
  shows "conn_ok c'"
  using assms by (auto simp: conn_ok_def cbuf_ok_def split: option.splits)

lemma not_reading [simp]:
  "s \<in> send_states \<Longrightarrow> \<not> reading s" "s \<in> write_states \<Longrightarrow> \<not> reading s"
  by (auto simp: reading_def send_states_def write_states_def)

lemma list_all_nth_upd:
  "list_all P xs \<Longrightarrow> (\<And>j. j < length ys \<Longrightarrow> j \<noteq> i \<Longrightarrow> ys ! j = xs ! j) \<Longrightarrow> length ys = length xs \<Longrightarrow>
    (i < length ys \<Longrightarrow> P (ys ! i)) \<Longrightarrow> list_all P ys"
  by (metis list_all_length)

lemma pkt_okD:
  "pkt_ok st \<Longrightarrow> i < length (cbufs st) \<Longrightarrow> conn_ok (cbufs st ! i)"
  by (simp add: pkt_ok_def list_all_length)

lemma pkt_ok_fd: "pkt_ok st \<Longrightarrow> in_range s st \<Longrightarrow> in_range (c_fd (cbuf_at st s)) st"
  by (simp add: pkt_ok_def list_all_length in_range_def)

lemma pkt_ok_conn:
  assumes "pkt_ok st" "only_conn s st st'" "in_range s st" "conn_ok (cbuf_at st' s)"
    and "in_range (c_fd (cbuf_at st' s)) st"
  shows "pkt_ok st'"
proof -
  have "list_all conn_ok (cbufs st')"
    using list_all_nth_upd [of conn_ok "cbufs st" "cbufs st'" "nat s"] assms
    by (simp add: pkt_ok_def only_conn_def)
  moreover have "list_all (\<lambda>c. in_range (c_fd c) st) (cbufs st')"
    using list_all_nth_upd [of "\<lambda>c. in_range (c_fd c) st" "cbufs st" "cbufs st'" "nat s"] assms
    by (simp add: pkt_ok_def only_conn_def)
  ultimately show ?thesis
    using assms by (simp add: pkt_ok_def pollset_ok_def poll_fds_def only_conn_def in_range_def)
qed

lemma pkt_ok_queue: "pkt_ok st \<Longrightarrow> in_range s st \<Longrightarrow> queue_ok (cbuf_at st s)"
  by (drule pkt_okD [of _ "nat s"]) (simp_all add: in_range_def conn_ok_def cbuf_ok_def)

lemma pktserv_send_ok:
  assumes "pkt_ok st" "in_range s st"
  shows "pkt_ok (snd (pktserv_send s p st)) \<and> same_conns st (snd (pktserv_send s p st))"
proof -
  obtain r st' where st': "pktserv_send s p st = (r, st')" by fastforce
  note eff = pktserv_send_effect [OF assms(2) pkt_ok_queue [OF assms] st']
  have "conn_ok (cbuf_at st' s)"
    using conn_okI_state [OF pkt_okD [OF assms(1), of "nat s"], of "cbuf_at st' s"] eff assms(2)
    by (simp add: in_range_def)
  then have "pkt_ok st'" using pkt_ok_conn [OF assms(1) _ assms(2)] eff pkt_ok_fd [OF assms] by simp
  moreover have "same_conns st st'"
    using eff by (auto simp: same_conns_def only_conn_def) (metis)+
  ultimately show ?thesis using st' by simp
qed

lemma set_state_ok:
  assumes "pkt_ok st" "in_range s st" "\<not> reading x"
  shows "pkt_ok (set_state s x st) \<and> same_conns st (set_state s x st)"
proof
  have c: "conn_ok (cbuf_at st s)" using pkt_okD [OF assms(1), of "nat s"] assms(2) by (simp add: in_range_def)
  show "pkt_ok (set_state s x st)"
    by (rule pkt_ok_conn [OF assms(1) _ assms(2)])
      (use assms(2,3) c pkt_ok_fd [OF assms(1,2)] in
        \<open>auto simp: only_conn_def in_range_def conn_ok_def cbuf_ok_def queue_ok_def split: option.splits\<close>)
  show "same_conns st (set_state s x st)"
    using in_rangeD [OF assms(2)] by (auto simp: same_conns_def set_state_def upd_c_def nth_list_update)
qed

lemma pkt_ok_upper [simp]: "pkt_ok (st\<lparr>upper := u\<rparr>) = pkt_ok st"
  by (simp add: pkt_ok_def pollset_ok_def poll_fds_def in_range_def)

lemma api_ok:
  "api st st' \<Longrightarrow> pkt_ok st \<Longrightarrow> pkt_ok st' \<and> same_conns st st'"
proof (induction rule: api.induct)
  case (api_refl st)
  then show ?case by (simp add: same_conns_def)
next
  case (api_send st st1 s p)
  then show ?case using pktserv_send_ok same_conns_trans by blast
next
  case (api_disconnect st st1 s)
  then have "pkt_ok (set_state s WANT_DISCONNECT st1) \<and> same_conns st1 (set_state s WANT_DISCONNECT st1)"
    using set_state_ok [of st1 s WANT_DISCONNECT] by (simp add: reading_def)
  then show ?case
    using api_disconnect same_conns_trans in_rangeD [of s st1] by (auto simp: pktserv_disconnect_def)
next
  case (api_upper st st1 u)
  then show ?case by (simp add: same_conns_def)
qed

section \<open>The poll set is a set\<close>

lemma fd_index_le: "fd_index fd ps \<le> length ps"
  by (induction ps) auto

lemma fd_index_found: "fd_index fd ps < length ps \<longleftrightarrow> fd \<in> p_fd ` set ps"
  by (induction ps) auto

lemma fd_index_absent: "fd \<notin> p_fd ` set ps \<Longrightarrow> fd_index fd ps = length ps"
  using fd_index_le [of fd ps] fd_index_found [of fd ps] by linarith

lemma fd_index_split:
  "fd_index fd ps < length ps \<Longrightarrow>
    take (fd_index fd ps) ps @ drop (Suc (fd_index fd ps)) ps = remove1 (ps ! fd_index fd ps) ps \<and>
    p_fd (ps ! fd_index fd ps) = fd"
  by (induction ps) auto

lemma map_take_drop_index:
  "fd_index fd ps < length ps \<Longrightarrow>
    map p_fd (take (fd_index fd ps) ps @ drop (Suc (fd_index fd ps)) ps) = remove1 fd (map p_fd ps)"
  by (induction ps) auto

lemma grow_pollset_effect:
  assumes "grow_pollset st = (ok, st1)" "g_pollsetsize st \<le> length (g_pollset st)"
  shows "\<exists>w k. st1 = st\<lparr>net := w, g_pollset := g_pollset st @ replicate k zero_pollfd\<rparr> \<and>
    rx w = rx (net st) \<and> tx w = tx (net st) \<and> answers w = answers (net st) \<and>
    closed w = closed (net st) \<and> os_fault w = os_fault (net st) \<and>
    (ok \<longrightarrow> g_pollsetsize st < length (g_pollset st) + k)"
proof -
  obtain b w where m: "malloc (net st) = (b, w)" by fastforce
  have w: "rx w = rx (net st) \<and> tx w = tx (net st) \<and> answers w = answers (net st) \<and>
      closed w = closed (net st) \<and> os_fault w = os_fault (net st)"
    using m by (auto simp: malloc_def split: list.splits)
  let ?cap = "length (g_pollset st)"
  consider "?cap = 0 \<or> g_pollsetsize st = ?cap" "\<not> b" | "?cap = 0" b
    | "?cap \<noteq> 0" "g_pollsetsize st = ?cap" b | "?cap \<noteq> 0" "g_pollsetsize st \<noteq> ?cap" by blast
  then show ?thesis
  proof cases
    case 1
    then show ?thesis using assms m w by (intro exI [of _ w] exI [of _ 0]) (auto simp: grow_pollset_def)
  next
    case 2
    then show ?thesis using assms m w by (intro exI [of _ w] exI [of _ 16]) (auto simp: grow_pollset_def)
  next
    case 3
    then show ?thesis using assms m w by (intro exI [of _ w] exI [of _ ?cap]) (auto simp: grow_pollset_def)
  next
    case 4
    then show ?thesis
      using assms by (intro exI [of _ "net st"] exI [of _ 0]) (auto simp: grow_pollset_def)
  qed
qed

lemma add_pollfd_fds:
  assumes "pollset_ok st" "in_range fd st" "add_pollfd fd st = (r, st')"
  shows "pollset_ok st' \<and> cbufs st' = cbufs st \<and> upper st' = upper st \<and>
    os_fault (net st') = os_fault (net st) \<and> closed (net st') = closed (net st) \<and>
    rx (net st') = rx (net st) \<and> tx (net st') = tx (net st) \<and> answers (net st') = answers (net st) \<and>
    length (g_pollset st) \<le> length (g_pollset st') \<and>
    poll_fds st' = (if fd \<in> set (poll_fds st) \<or> r \<noteq> 0 then poll_fds st else poll_fds st @ [fd])"
proof -
  let ?n = "g_pollsetsize st" and ?ps = "g_pollset st"
  let ?i = "fd_index fd (take ?n ?ps)"
  have n: "?n \<le> length ?ps" using assms(1) by (simp add: pollset_ok_def)
  have eq: "upd_net (os_flag (?n > length ?ps)) st = st" using n by (simp add: upd_net_def)
  show ?thesis
  proof (cases "?i < ?n")
    case True
    then have fd: "fd \<in> set (poll_fds st)"
      using fd_index_found [of fd "take ?n ?ps"] n by (auto simp: poll_fds_def)
    let ?ps' = "?ps[?i := (?ps ! ?i)\<lparr>p_events := {POLLIN}\<rparr>]"
    have st': "st' = st\<lparr>g_pollset := ?ps'\<rparr>"
      using assms(3) True eq by (simp add: add_pollfd_def Let_def)
    have m: "map p_fd ?ps' = map p_fd ?ps"
      using True n by (simp add: map_update list_update_same_conv)
    then have "map p_fd (take ?n ?ps') = map p_fd (take ?n ?ps)" by (metis take_map)
    moreover have "list_all (\<lambda>p. in_range (p_fd p) st) ?ps'"
      using assms(1) True n by (auto simp: pollset_ok_def list_all_length nth_list_update)
    ultimately show ?thesis
      using fd n assms(1) by (simp add: st' pollset_ok_def poll_fds_def in_range_def)
  next
    case False
    then have fd: "fd \<notin> set (poll_fds st)" and i: "?i = ?n"
      using fd_index_found [of fd "take ?n ?ps"] fd_index_le [of fd "take ?n ?ps"] n
      by (auto simp: poll_fds_def)
    obtain ok st1 where g: "grow_pollset st = (ok, st1)" by fastforce
    obtain w k where st1_def: "st1 = st\<lparr>net := w, g_pollset := ?ps @ replicate k zero_pollfd\<rparr>"
      and w: "rx w = rx (net st)" "tx w = tx (net st)" "answers w = answers (net st)"
        "closed w = closed (net st)" "os_fault w = os_fault (net st)"
      and lt_ok: "ok \<longrightarrow> ?n < length ?ps + k"
      using grow_pollset_effect [OF g n] by blast
    have st1: "cbufs st1 = cbufs st \<and> upper st1 = upper st \<and> g_pollsetsize st1 = ?n \<and>
        os_fault (net st1) = os_fault (net st) \<and> closed (net st1) = closed (net st) \<and>
        rx (net st1) = rx (net st) \<and> tx (net st1) = tx (net st) \<and> answers (net st1) = answers (net st)"
      and ps1: "g_pollset st1 = ?ps @ replicate k zero_pollfd"
      using w by (simp_all add: st1_def)
    have all1: "list_all (\<lambda>p. in_range (p_fd p) st) (g_pollset st1)"
      using assms(1,2) by (auto simp: ps1 pollset_ok_def list_all_iff in_range_def zero_pollfd_def)
    have tk: "take ?n (g_pollset st1) = take ?n ?ps" using n ps1 by simp
    show ?thesis
    proof (cases ok)
      case True
      let ?p = "(g_pollset st1 ! ?n)\<lparr>p_fd := fd, p_events := {POLLIN}\<rparr>"
      have lt: "?n < length (g_pollset st1)" using lt_ok True ps1 by simp
      have st': "st' = st1\<lparr>g_pollset := (g_pollset st1)[?n := ?p], g_pollsetsize := ?n + 1\<rparr>" "r = 0"
        using assms(3) False eq i g True lt by (auto simp: add_pollfd_def Let_def upd_net_def)
      have "take (Suc ?n) ((g_pollset st1)[?n := ?p]) = take ?n ?ps @ [?p]"
        using lt tk by (simp add: take_Suc_conv_app_nth)
      then have "poll_fds st' = poll_fds st @ [fd]" by (simp add: st' poll_fds_def)
      moreover have "list_all (\<lambda>p. in_range (p_fd p) st) (g_pollset st')"
        using all1 assms(2) lt by (auto simp: st' list_all_length nth_list_update)
      ultimately show ?thesis
        using st1 st' lt fd assms(1) ps1 by (auto simp: pollset_ok_def in_range_def)
    next
      case ok: False
      then have "st' = st1" "r = -1"
        using assms(3) False eq i g by (auto simp: add_pollfd_def Let_def)
      then show ?thesis
        using st1 assms(1) all1 tk ps1 by (auto simp: pollset_ok_def poll_fds_def in_range_def)
    qed
  qed
qed

lemma take_prefix: "length xs = n \<Longrightarrow> take n (xs @ ys) = xs"
  by simp

lemma delete_pollfd_fds:
  assumes "pollset_ok st"
  shows "pollset_ok (delete_pollfd fd st) \<and> poll_fds (delete_pollfd fd st) = remove1 fd (poll_fds st) \<and>
    cbufs (delete_pollfd fd st) = cbufs st \<and> net (delete_pollfd fd st) = net st \<and>
    upper (delete_pollfd fd st) = upper st \<and>
    length (g_pollset (delete_pollfd fd st)) = length (g_pollset st)"
proof -
  let ?n = "g_pollsetsize st" and ?ps = "g_pollset st"
  let ?i = "fd_index fd (take ?n ?ps)"
  have n: "?n \<le> length ?ps" using assms(1) by (simp add: pollset_ok_def)
  show ?thesis
  proof (cases "?i < ?n")
    case True
    let ?moved = "take (?n - (?i + 1)) (drop (?i + 1) ?ps)"
    let ?ps' = "take ?i ?ps @ ?moved @ drop (?i + length ?moved) ?ps"
    have len: "length ?moved = ?n - (?i + 1)" using n by simp
    have st': "delete_pollfd fd st = st\<lparr>g_pollset := ?ps', g_pollsetsize := ?n - 1\<rparr>"
      using True by (simp add: delete_pollfd_def Let_def)
    have "length (take ?i ?ps @ ?moved) = ?n - 1" using True n len by simp
    then have "take (?n - 1) ?ps' = take ?i ?ps @ ?moved" by (intro take_prefix [of "take ?i ?ps @ ?moved", simplified append_assoc])
    also have "\<dots> = take ?i (take ?n ?ps) @ drop (Suc ?i) (take ?n ?ps)"
      using True by (simp add: drop_take min_def)
    finally have fds: "poll_fds (delete_pollfd fd st) = remove1 fd (poll_fds st)"
      using map_take_drop_index [of fd "take ?n ?ps"] True n by (simp add: st' poll_fds_def)
    moreover have "set ?ps' \<subseteq> set ?ps"
      by (auto dest: in_set_takeD in_set_dropD)
    moreover have "length ?ps' = length ?ps" using True n len by simp
    ultimately show ?thesis
      using assms n by (auto simp: st' pollset_ok_def list_all_iff in_range_def distinct_remove1)
  next
    case False
    then have "fd \<notin> set (poll_fds st)"
      using fd_index_found [of fd "take ?n ?ps"] n by (auto simp: poll_fds_def)
    then show ?thesis using False assms by (simp add: delete_pollfd_def Let_def remove1_idem)
  qed
qed

section \<open>The connection operations keep the invariant\<close>

text \<open>What a step of the event loop keeps: the table's size, and the poll set does not shrink.\<close>

definition step_ok :: "'u pkt \<Rightarrow> 'u pkt \<Rightarrow> bool" where
  "step_ok st st' \<longleftrightarrow> pkt_ok st' \<and> length (cbufs st') = length (cbufs st) \<and>
     length (g_pollset st) \<le> length (g_pollset st')"

lemma step_ok_refl: "pkt_ok st \<Longrightarrow> step_ok st st"
  by (simp add: step_ok_def)

lemma step_ok_trans: "step_ok st st1 \<Longrightarrow> step_ok st1 st' \<Longrightarrow> step_ok st st'"
  by (simp add: step_ok_def)

lemma step_ok_conn:
  assumes "pkt_ok st" "only_conn s st st'" "in_range s st" "conn_ok (cbuf_at st' s)"
    and "in_range (c_fd (cbuf_at st' s)) st"
  shows "step_ok st st'"
  using pkt_ok_conn [OF assms] assms(2) by (simp add: step_ok_def only_conn_def)

lemma only_conn_upd_c [simp]: "only_conn s st (upd_c s f st)"
  by (simp add: only_conn_def)

lemma conn_ok_upd [simp]:
  "conn_ok c \<Longrightarrow> d \<noteq> IGNORE \<Longrightarrow> conn_ok (c\<lparr>c_disp := d\<rparr>)"
  "conn_ok c \<Longrightarrow> conn_ok (c\<lparr>c_ssl_con := b\<rparr>)"
  "conn_ok c \<Longrightarrow> \<not> reading x \<Longrightarrow> conn_ok (c\<lparr>c_state := x\<rparr>)"
  "conn_ok c \<Longrightarrow> \<not> reading x \<Longrightarrow> conn_ok (c\<lparr>c_rbuf := None, c_state := x\<rparr>)"
  by (auto simp: conn_ok_def cbuf_ok_def queue_ok_def split: option.splits)

lemma upd_c_ok:
  assumes "pkt_ok st" "in_range s st" "\<And>c. conn_ok c \<Longrightarrow> conn_ok (f c)"
    and "\<And>c. in_range (c_fd c) st \<Longrightarrow> in_range (c_fd (f c)) st"
  shows "step_ok st (upd_c s f st)"
  using assms pkt_okD [OF assms(1), of "nat s"] in_rangeD [OF assms(2)] pkt_ok_fd [OF assms(1,2)]
  by (intro step_ok_conn) auto

lemma on_cbuf_ok:
  assumes "pkt_ok st" "in_range s st"
    and "\<And>r c' w'. f (cbuf_at st s) (net st) = (r, c', w') \<Longrightarrow>
      conn_ok c' \<and> c_fd c' = c_fd (cbuf_at st s) \<and> tx w' = tx (net st) \<and> os_fault w' = os_fault (net st) \<and>
      closed w' = closed (net st)"
  shows "step_ok st (snd (on_cbuf f s st)) \<and> upper (snd (on_cbuf f s st)) = upper st"
proof -
  obtain r c w where f: "f (cbuf_at st s) (net st) = (r, c, w)" by (metis surj_pair)
  have "snd (on_cbuf f s st) = upd_c s (\<lambda>_. c) (st\<lparr>net := w\<rparr>)" by (simp add: on_cbuf_def f)
  moreover have "step_ok st (upd_c s (\<lambda>_. c) (st\<lparr>net := w\<rparr>))"
    using assms(1,2) assms(3) [OF f] in_rangeD [OF assms(2)] pkt_ok_fd [OF assms(1,2)]
    by (intro step_ok_conn) (auto simp: only_conn_def)
  ultimately show ?thesis by simp
qed

lemma read_conn_ok:
  assumes "pkt_ok st" "in_range s st" "c_state (cbuf_at st s) \<in> {WANT_HEADER, WANT_READ, WANT_SSL_READ}"
  shows "step_ok st (snd (on_cbuf pktsocket_read s st)) \<and> upper (snd (on_cbuf pktsocket_read s st)) = upper st"
proof (rule on_cbuf_ok [OF assms(1,2)])
  fix r c' w' assume rd: "pktsocket_read (cbuf_at st s) (net st) = (r, c', w')"
  have "conn_ok (cbuf_at st s)" using pkt_okD assms(1,2) in_rangeD by blast
  then show "conn_ok c' \<and> c_fd c' = c_fd (cbuf_at st s) \<and> tx w' = tx (net st) \<and> os_fault w' = os_fault (net st) \<and> closed w' = closed (net st)"
    using pktsocket_read_safe [OF _ assms(3) rd] by (simp add: conn_ok_def read_frame_def)
qed

lemma SSL_accept_frame:
  assumes "SSL_accept w = (r, w')"
  shows "tx w' = tx w \<and> os_fault w' = os_fault w \<and> closed w' = closed w"
proof -
  obtain a w1 where a: "next_answer w = (a, w1)" by fastforce
  then show ?thesis
    using assms next_answer_frame [of w] by (cases a) (auto simp: SSL_accept_def ssl_failure_def)
qed

lemma malloc_frame:
  "malloc w = (b, w') \<Longrightarrow> tx w' = tx w \<and> os_fault w' = os_fault w \<and> closed w' = closed w"
  by (auto simp: malloc_def split: list.splits)

lemma sslsocket_accept_effect:
  assumes "sslsocket_accept c w = (r, c', w')" "\<not> reading (c_state c)"
  shows "(\<exists>b i x. c' = c\<lparr>c_ssl_con := b, c_is_ssl := i, c_state := x\<rparr> \<and> \<not> reading x) \<and>
    tx w' = tx w \<and> os_fault w' = os_fault w \<and> closed w' = closed w"
proof -
  obtain ok w1 where ok: "(if c_ssl_con c then (True, w) else malloc w) = (ok, w1)" by fastforce
  have w1: "tx w1 = tx w \<and> os_fault w1 = os_fault w \<and> closed w1 = closed w"
    using ok malloc_frame [of w] by (auto split: if_splits)
  obtain e w2 where e: "SSL_accept w1 = (e, w2)" by fastforce
  have same: "c = c\<lparr>c_ssl_con := c_ssl_con c, c_is_ssl := c_is_ssl c, c_state := c_state c\<rparr>" by simp
  show ?thesis
  proof (cases ok)
    case True
    let ?c = "c\<lparr>c_ssl_con := True\<rparr>"
    obtain i x where ix: "c' = ?c\<lparr>c_is_ssl := i, c_state := x\<rparr>" "\<not> reading x" "w' = w2"
    proof (cases e)
      case None
      then show thesis using that [where i = True and x = ACCEPTED] assms(1) ok True e
        by (simp add: sslsocket_accept_def split: if_splits)
    next
      case (Some err)
      show thesis
        using that [where i = "c_is_ssl c" and x = "c_state c'"] assms ok True e Some
        by (auto simp: sslsocket_accept_def Let_def split: if_splits)
    qed
    then show ?thesis using SSL_accept_frame [OF e] w1
      by (intro conjI exI [of _ True] exI [of _ i] exI [of _ x]) auto
  next
    case False
    then have "c' = c" "w' = w1" using assms(1) ok by (simp_all add: sslsocket_accept_def split: if_splits)
    then show ?thesis using w1 assms(2) same by metis
  qed
qed

lemma ssl_accept_conn_ok:
  assumes "pkt_ok st" "in_range s st"
    and "c_state (cbuf_at st s) = WANT_SSL_ACCEPT"
  shows "step_ok st (snd (on_cbuf sslsocket_accept s st)) \<and>
    upper (snd (on_cbuf sslsocket_accept s st)) = upper st"
proof (rule on_cbuf_ok [OF assms(1,2)])
  fix r c' w' assume acc: "sslsocket_accept (cbuf_at st s) (net st) = (r, c', w')"
  have "conn_ok (cbuf_at st s)" using pkt_okD assms(1,2) in_rangeD by blast
  moreover have "c_rbuf c' = c_rbuf (cbuf_at st s) \<and> c_wlist c' = c_wlist (cbuf_at st s) \<and>
      c_wlist_size c' = c_wlist_size (cbuf_at st s) \<and> c_disp c' = c_disp (cbuf_at st s) \<and>
      c_fd c' = c_fd (cbuf_at st s) \<and>
      \<not> reading (c_state c') \<and>
      tx w' = tx (net st) \<and> os_fault w' = os_fault (net st) \<and> closed w' = closed (net st)"
    using sslsocket_accept_effect [OF acc] assms(3) by auto
  ultimately show "conn_ok c' \<and> c_fd c' = c_fd (cbuf_at st s) \<and> tx w' = tx (net st) \<and> os_fault w' = os_fault (net st) \<and> closed w' = closed (net st)"
    using conn_okI_state [of "cbuf_at st s" c'] by (simp add: conn_ok_def cbuf_ok_def queue_ok_def)
qed

lemma write_conn_ok:
  assumes "pkt_ok st" "in_range s st"
  shows "step_ok st (snd (on_cbuf pktsocket_write s st)) \<and>
    upper (snd (on_cbuf pktsocket_write s st)) = upper st"
proof -
  obtain r st' where wr: "on_cbuf pktsocket_write s st = (r, st')" by fastforce
  note eff = on_cbuf_write [OF assms(2) pkt_ok_queue [OF assms] wr]
  have "conn_ok (cbuf_at st' s)"
    using conn_okI_state [OF pkt_okD [OF assms(1), of "nat s"], of "cbuf_at st' s"] eff in_rangeD [OF assms(2)]
    by auto
  then have "step_ok st st'" using step_ok_conn [OF assms(1) _ assms(2)] eff pkt_ok_fd [OF assms] by simp
  then show ?thesis using wr eff by (simp add: only_conn_def)
qed

lemma pkt_ok_net:
  "pkt_ok st \<Longrightarrow> \<not> os_fault w \<Longrightarrow> pkt_ok (st\<lparr>net := w\<rparr>)"
  by (simp add: pkt_ok_def pollset_ok_def poll_fds_def in_range_def)

lemma add_pollfd_ok:
  assumes "pkt_ok st" "in_range fd st"
  shows "step_ok st (snd (add_pollfd fd st)) \<and> upper (snd (add_pollfd fd st)) = upper st"
proof -
  obtain r st' where st': "add_pollfd fd st = (r, st')" by fastforce
  then show ?thesis
    using add_pollfd_fds [OF _ assms(2) st'] assms(1) by (simp add: pkt_ok_def step_ok_def in_range_def)
qed

lemma raw_disconnect_ok:
  assumes "pkt_ok st" "in_range s st"
  shows "step_ok st (handle_raw_disconnect s st) \<and> upper (handle_raw_disconnect s st) = upper st"
proof -
  let ?st1 = "upd_c s (\<lambda>c. c\<lparr>c_ssl_con := False\<rparr>) (upd_net (os_close (c_fd (cbuf_at st s))) st)"
  let ?st2 = "delete_pollfd (c_fd (cbuf_at st s)) ?st1"
  have "pkt_ok (upd_net (os_close (c_fd (cbuf_at st s))) st)"
    using pkt_ok_net [OF assms(1)] assms(1) by (simp add: upd_net_def os_close_def pkt_ok_def)
  then have 1: "pkt_ok ?st1"
    using upd_c_ok [of "upd_net (os_close (c_fd (cbuf_at st s))) st" s "\<lambda>c. c\<lparr>c_ssl_con := False\<rparr>"] assms(2)
    by (simp add: step_ok_def)
  then have 2: "pkt_ok ?st2" "cbufs ?st2 = cbufs ?st1" "upper ?st2 = upper st"
      "length (g_pollset ?st2) = length (g_pollset st)"
    using delete_pollfd_fds [of ?st1] by (simp_all add: pkt_ok_def in_range_def)
  have "step_ok ?st2 (upd_c s (\<lambda>c. c\<lparr>c_state := DISCONNECTED\<rparr>) ?st2)"
    using 2 assms(2)
    by (intro upd_c_ok) (auto simp: in_range_def)
  then show ?thesis using 2 by (simp add: handle_raw_disconnect_def Let_def step_ok_def)
qed

lemma handle_disconnect_fd [simp]: "c_fd (handle_disconnect c) = c_fd c"
  by (simp add: handle_disconnect_def)

lemma handle_disconnect_conn [simp]: "conn_ok c \<Longrightarrow> conn_ok (handle_disconnect c)"
  by (simp add: handle_disconnect_def conn_ok_def cbuf_ok_def queue_ok_def)

lemma new_conn_ok [simp]:
  "\<not> reading x \<Longrightarrow> conn_ok (zero_cbuf\<lparr>c_fd := n, c_newmsg := b, c_state := x, c_is_ssl := i, c_disp := OK\<rparr>)"
  by (simp add: conn_ok_def cbuf_ok_def queue_ok_def zero_cbuf_def MAX_SENDPACKET_QUEUE_def)



lemma next_answer_ok:
  "pkt_ok st \<Longrightarrow> next_answer (net st) = (a, w) \<Longrightarrow> pkt_ok (st\<lparr>net := w\<rparr>)"
  using next_answer_frame(3) [of "net st"] by (simp add: pkt_ok_net pkt_ok_def pollset_ok_def poll_fds_def in_range_def)

lemma accept_ok:
  assumes "pkt_ok st" "in_range l st"
  shows "step_ok st (snd (pktsocket_accept l st)) \<and> upper (snd (pktsocket_accept l st)) = upper st"
proof -
  obtain ns w where ns: "sys_accept (net st) = (ns, w)" by fastforce
  have "os_fault w = os_fault (net st)"
    using ns by (auto simp: sys_accept_def next_answer_def split: list.splits answer.splits)
  then have 0: "pkt_ok (st\<lparr>net := w\<rparr>)" using assms(1) pkt_ok_net [OF assms(1), of w] by (simp add: pkt_ok_def)
  let ?st1 = "upd_c l (\<lambda>c. c\<lparr>c_disp := OK\<rparr>) (st\<lparr>net := w\<rparr>)"
  obtain a w2 where a: "next_answer (net ?st1) = (a, w2)" by fastforce
  let ?ssl = "c_state (cbuf_at ?st1 l) = LISTEN_SOCKET_SSL"
  let ?new = "zero_cbuf\<lparr>c_fd := ns, c_newmsg := True,
    c_state := (if ?ssl then WANT_SSL_ACCEPT else ACCEPTED), c_is_ssl := ?ssl, c_disp := OK\<rparr>"
  let ?st2 = "upd_c ns (\<lambda>_. ?new) (?st1\<lparr>net := w2\<rparr>)"
  have 1: "pkt_ok ?st1" "pkt_ok (upd_c l (\<lambda>c. c\<lparr>c_disp := BLOCKED\<rparr>) (st\<lparr>net := w\<rparr>))"
    using upd_c_ok [OF 0, of l "\<lambda>c. c\<lparr>c_disp := OK\<rparr>"] upd_c_ok [OF 0, of l "\<lambda>c. c\<lparr>c_disp := BLOCKED\<rparr>"] assms(2)
    by (simp_all add: step_ok_def)
  have 2: "pkt_ok (?st1\<lparr>net := w2\<rparr>)" by (rule next_answer_ok [OF 1(1) a])
  have 3: "pkt_ok (upd_net (os_close ns) ?st1)"
    using pkt_ok_net [OF 1(1), of "os_close ns (net ?st1)"] 1(1) by (simp add: upd_net_def os_close_def pkt_ok_def)
  have 4: "step_ok ?st2 (snd (add_pollfd ns ?st2)) \<and> upper (snd (add_pollfd ns ?st2)) = upper st"
    if "0 \<le> ns" "ns < max_users st"
  proof -
    have "in_range ns (?st1\<lparr>net := w2\<rparr>)" using that by (simp add: in_range_def)
    then have "pkt_ok ?st2" "in_range ns ?st2"
      using upd_c_ok [OF 2, of ns "\<lambda>_. ?new"] by (simp_all add: step_ok_def)
    then show ?thesis using add_pollfd_ok [of ?st2 ns] by simp
  qed
  show ?thesis
    using ns a 0 1 2 3 4 by (auto simp: pktsocket_accept_def Let_def step_ok_def split: prod.splits)
qed

section \<open>The program behind the callbacks\<close>

text \<open>
  The contract between the packet layer and the program that uses it: while \<open>I\<close> holds of the
  program's state, every callback, called with a descriptor of the table, acts on connections
  only through the interface of \<open>pktserv.h\<close>, and keeps \<open>I\<close>.
\<close>

locale upper_layer =
  fixes cb :: "'u pktserv_cb" and I :: "nat \<Rightarrow> 'u \<Rightarrow> bool"
  assumes idle_api: "cb_idle cb = Some f \<Longrightarrow> I (length (cbufs st)) (upper st) \<Longrightarrow>
      api st (f x st) \<and> I (length (cbufs st)) (upper (f x st))"
    and dispatch_api: "cb_dispatch cb = Some g \<Longrightarrow> I (length (cbufs st)) (upper st) \<Longrightarrow> in_range s st \<Longrightarrow>
      api st (g s d st) \<and> I (length (cbufs st)) (upper (g s d st))"
    and new_client_api: "cb_new_client cb = Some h \<Longrightarrow> I (length (cbufs st)) (upper st) \<Longrightarrow> in_range s st \<Longrightarrow>
      api st (h s b st) \<and> I (length (cbufs st)) (upper (h s b st))"
    and lost_client_api: "cb_lost_client cb = Some k \<Longrightarrow> I (length (cbufs st)) (upper st) \<Longrightarrow> in_range s st \<Longrightarrow>
      api st (k s st) \<and> I (length (cbufs st)) (upper (k s st))"
begin

definition good :: "'u pkt \<Rightarrow> bool" where
  "good st \<longleftrightarrow> pkt_ok st \<and> I (length (cbufs st)) (upper st)"

definition moves :: "'u pkt \<Rightarrow> 'u pkt \<Rightarrow> bool" where
  "moves st st' \<longleftrightarrow> good st' \<and> length (cbufs st') = length (cbufs st) \<and>
     length (g_pollset st) \<le> length (g_pollset st')"

lemma moves_refl: "good st \<Longrightarrow> moves st st"
  by (simp add: moves_def)

lemma moves_trans: "moves st st1 \<Longrightarrow> moves st1 st' \<Longrightarrow> moves st st'"
  by (simp add: moves_def)

lemma moves_step: "good st \<Longrightarrow> step_ok st st' \<and> upper st' = upper st \<Longrightarrow> moves st st'"
  by (simp add: moves_def good_def step_ok_def)

lemma moves_api: "good st \<Longrightarrow> api st st' \<and> I (length (cbufs st)) (upper st') \<Longrightarrow> moves st st' \<and> same_conns st st'"
  using api_ok by (auto simp: moves_def good_def same_conns_def)

lemma moves_range: "moves st st' \<Longrightarrow> in_range s st' = in_range s st"
  by (simp add: moves_def in_range_def)

lemma moves_good: "moves st st' \<Longrightarrow> good st'"
  by (simp add: moves_def)

lemma good_fd: "good st \<Longrightarrow> in_range s st \<Longrightarrow> in_range (c_fd (cbuf_at st s)) st"
  by (simp add: good_def pkt_ok_fd)

lemma moves_upd_c:
  "good st \<Longrightarrow> in_range s st \<Longrightarrow> (\<And>c. conn_ok c \<Longrightarrow> conn_ok (f c)) \<Longrightarrow>
    (\<And>c. in_range (c_fd c) st \<Longrightarrow> in_range (c_fd (f c)) st) \<Longrightarrow> moves st (upd_c s f st)"
  by (rule moves_step) (auto simp: good_def intro: upd_c_ok)

lemma finish_packet_ok:
  assumes "good st" "in_range s st"
  shows "moves st (finish_packet cb s st)"
proof (cases "cb_dispatch cb = None \<or> c_state (cbuf_at st s) \<noteq> COMPLETE_PACKET")
  case True
  then show ?thesis using assms moves_refl by (auto simp: finish_packet_def split: option.splits)
next
  case False
  then obtain f where f: "cb_dispatch cb = Some f" and c: "c_state (cbuf_at st s) = COMPLETE_PACKET" by auto
  let ?st1 = "f (c_fd (cbuf_at st s)) (m_data (the (c_rbuf (cbuf_at st s)))) st"
  have 1: "moves st ?st1" "same_conns st ?st1"
    using moves_api [OF assms(1) dispatch_api [OF f]] assms(1) good_fd [OF assms] by (auto simp: good_def)
  have "conn_ok (cbuf_at st s)" using assms pkt_okD in_rangeD unfolding good_def by blast
  then have "c_rbuf (cbuf_at st s) \<noteq> None"
    using c by (auto simp: conn_ok_def cbuf_ok_def split: option.splits)
  then have "c_rbuf (cbuf_at ?st1 s) \<noteq> None" using 1(2) in_rangeD [OF assms(2)] by (simp add: same_conns_def)
  then have eq: "upd_net (os_flag (c_rbuf (cbuf_at ?st1 s) = None)) ?st1 = ?st1"
    by (auto simp: upd_net_def)
  have "moves ?st1 (upd_c s (\<lambda>c. c\<lparr>c_rbuf := None, c_state := WANT_HEADER\<rparr>) ?st1)"
    using 1(1) assms(2) moves_range moves_good by (intro moves_upd_c) auto
  then show ?thesis using f c eq moves_trans [OF 1(1)] by (simp add: finish_packet_def)
qed

lemma want_read_ok:
  assumes "good st" "in_range s st" "c_state (cbuf_at st s) \<in> {WANT_HEADER, WANT_READ} \<or> \<not> readable"
  shows "moves st (want_read cb readable s st)"
proof -
  have rd: "moves st (finish_packet cb s (snd (on_cbuf pktsocket_read s st)))" if readable
  proof -
    have 1: "moves st (snd (on_cbuf pktsocket_read s st))"
      using read_conn_ok assms that by (intro moves_step) (auto simp: good_def)
    then show ?thesis
      using finish_packet_ok [of "snd (on_cbuf pktsocket_read s st)" s] assms(2) moves_range moves_good moves_trans
      by blast
  qed
  have "moves st (if b then set_state s WANT_WRITE st' else st')" if "moves st st'" for st' b
  proof -
    have "moves st' (set_state s WANT_WRITE st')"
      unfolding set_state_def
      by (rule moves_upd_c) (use that assms(2) moves_range [OF that] moves_good in simp_all)
    then show ?thesis using that moves_trans [OF that] by simp
  qed
  then show ?thesis using rd moves_refl [OF assms(1)] by (simp add: want_read_def Let_def)
qed

lemma machine_step_ok:
  assumes "good st" "in_range s st"
  shows "moves st (snd (machine_step cb readable writeable s st))"
proof -
  have P: "pkt_ok st" using assms(1) by (simp add: good_def)
  have st: "moves st (set_state s x st)" if "\<not> reading x" for x
    using moves_upd_c [OF assms, of "\<lambda>c. c\<lparr>c_state := x\<rparr>"] that by (simp add: set_state_def)
  show ?thesis
  proof (cases "c_state (cbuf_at st s)")
    case ACCEPTED
    let ?st1 = "set_state s WANT_HEADER st"
    have 1: "moves st ?st1" using st by simp
    have rng: "in_range (c_fd (cbuf_at ?st1 s)) ?st1" using good_fd [OF moves_good [OF 1]] assms(2) by simp
    have "moves ?st1 (f (c_fd (cbuf_at ?st1 s)) b ?st1)" if "cb_new_client cb = Some f" for f b
      using moves_api [OF moves_good [OF 1] new_client_api [OF that _ rng]] moves_good [OF 1] by (simp add: good_def)
    then show ?thesis
      using moves_trans [OF 1] 1 ACCEPTED
      by (auto simp: machine_step_def Let_def simp del: cbufs_upd_c set_state_frame split: option.splits)
  next
    case WANT_DISCONNECT
    let ?st1 = "case cb_lost_client cb of None \<Rightarrow> st | Some f \<Rightarrow> f (c_fd (cbuf_at st s)) st"
    have 1: "moves st ?st1"
      using moves_refl [OF assms(1)] moves_api [OF assms(1) lost_client_api] assms(1) good_fd [OF assms]
      by (auto simp: good_def split: option.splits)
    then have "moves ?st1 (upd_c s handle_disconnect ?st1)"
      using assms(2) moves_range moves_good by (intro moves_upd_c) auto
    then show ?thesis using moves_trans [OF 1] WANT_DISCONNECT by (simp add: machine_step_def)
  next
    case WANT_WRITE
    let ?st1 = "if writeable then snd (on_cbuf pktsocket_write s st) else st"
    have 1: "moves st ?st1"
      using moves_refl [OF assms(1)] moves_step [OF assms(1) write_conn_ok [OF P assms(2)]] by simp
    then have "moves ?st1 (upd_c s (\<lambda>c. c\<lparr>c_disp := OK\<rparr>) ?st1)"
      using assms(2) moves_range moves_good by (intro moves_upd_c) auto
    then show ?thesis
      using 1 moves_trans [OF 1] WANT_WRITE by (auto simp: machine_step_def Let_def)
  next
    case IDLE
    let ?st1 = "if readable then set_state s WANT_HEADER st else st"
    have 1: "moves st ?st1" using st moves_refl [OF assms(1)] by simp
    have "moves ?st1 (want_read cb readable s ?st1)"
      using 1 assms(2) moves_range moves_good in_rangeD [OF assms(2)] by (intro want_read_ok) auto
    then show ?thesis using moves_trans [OF 1] IDLE by (simp add: machine_step_def)
  next
    case WANT_SSL_READ
    then show ?thesis
      using moves_refl [OF assms(1)] moves_step [OF assms(1) read_conn_ok [OF P assms(2)]]
      by (auto simp: machine_step_def)
  next
    case WANT_SSL_ACCEPT
    then show ?thesis
      using moves_refl [OF assms(1)] moves_step [OF assms(1) ssl_accept_conn_ok [OF P assms(2)]]
      by (auto simp: machine_step_def)
  next
    case WANT_SSL_WRITE
    then show ?thesis
      using moves_refl [OF assms(1)] moves_step [OF assms(1) write_conn_ok [OF P assms(2)]]
      by (auto simp: machine_step_def)
  qed (use assms P moves_refl [OF assms(1)] moves_step [OF assms(1)] accept_ok [OF P assms(2)]
      raw_disconnect_ok [OF P assms(2)] moves_upd_c [OF assms] want_read_ok [OF assms]
      in \<open>simp_all add: machine_step_def\<close>)
qed

end

context upper_layer
begin

lemma machine_loop_ok:
  "good st \<Longrightarrow> in_range s st \<Longrightarrow> machine_loop cb readable writeable s n st = Some st' \<Longrightarrow> moves st st'"
proof (induction n arbitrary: st)
  case 0
  then show ?case by simp
next
  case (Suc n)
  obtain ret st1 where st1: "machine_step cb readable writeable s st = (ret, st1)" by fastforce
  then have 1: "moves st st1" using machine_step_ok [OF Suc.prems(1,2)] by (metis snd_conv)
  show ?case
    using Suc.prems(3) Suc.IH [of st1] st1 1 moves_trans [OF 1] moves_refl [OF Suc.prems(1)]
      moves_good [OF 1] moves_range [OF 1] Suc.prems(2)
    by (auto split: if_splits)
qed

lemma state_machine_ok:
  assumes "good st" "in_range (p_fd p) st" "pollfd_state_machine cb n p st = Some st'"
  shows "moves st st'"
proof -
  let ?s = "p_fd p"
  let ?st1 = "if POLLIN \<in> p_revents p \<or> POLLOUT \<in> p_revents p
    then upd_c ?s (\<lambda>c. c\<lparr>c_disp := OK\<rparr>) st else st"
  let ?lost = "case cb_lost_client cb of
      Some f \<Rightarrow> (if c_state (cbuf_at st ?s) \<noteq> LISTEN_SOCKET \<and> c_state (cbuf_at st ?s) \<noteq> LISTEN_SOCKET_SSL
                 then f (c_fd (cbuf_at st ?s)) st else st) | None \<Rightarrow> st"
  have 1: "moves st ?st1" using moves_refl moves_upd_c assms by simp
  have 2: "moves st ?lost"
    using moves_refl [OF assms(1)] moves_api [OF assms(1) lost_client_api] assms(1) good_fd [OF assms(1,2)]
    by (auto simp: good_def split: option.splits)
  then have 3: "moves ?lost (upd_c ?s handle_disconnect ?lost)"
    using assms(2) moves_range moves_good by (intro moves_upd_c) auto
  have loop: "moves st st'"
    if "machine_loop cb (POLLIN \<in> p_revents p) (POLLOUT \<in> p_revents p) ?s n ?st1 = Some st'"
    using machine_loop_ok [OF moves_good [OF 1] _ that] moves_range [OF 1] assms(2) moves_trans [OF 1] by blast
  show ?thesis
    using assms(3) moves_refl [OF assms(1)] moves_trans [OF 2 3] loop
    unfolding pollfd_state_machine_def Let_def by (auto simp del: if_split split: if_split_asm)
qed

lemma run_pollfds_ok:
  assumes "good st" "list_all (\<lambda>i. i < length (g_pollset st)) is" "run_pollfds cb n is st = Some st'"
  shows "moves st st'"
  using assms
proof (induction "is" arbitrary: st)
  case Nil
  then show ?case using moves_refl by simp
next
  case (Cons i "is")
  obtain st1 where st1: "pollfd_state_machine cb n (g_pollset st ! i) st = Some st1"
      "run_pollfds cb n is st1 = Some st'"
    using Cons.prems(3) by (auto simp: bind_eq_Some_conv)
  have "in_range (p_fd (g_pollset st ! i)) st"
    using Cons.prems(1,2) by (simp add: good_def pkt_ok_def pollset_ok_def list_all_iff)
  then have 1: "moves st st1" using state_machine_ok Cons.prems(1) st1(1) by blast
  have "list_all (\<lambda>i. i < length (g_pollset st1)) is"
    using Cons.prems(2) 1 by (auto simp: moves_def list_all_iff)
  then show ?case using Cons.IH [OF moves_good [OF 1] _ st1(2)] moves_trans [OF 1] by blast
qed

lemma handle_idle_ok:
  assumes "good st"
  shows "moves st (handle_idle cb st)"
proof -
  let ?st1 = "case cb_idle cb of None \<Rightarrow> st | Some f \<Rightarrow> f 0 st"
  have 1: "moves st ?st1"
    using moves_refl [OF assms(1)] moves_api [OF assms(1) idle_api] assms(1)
    by (auto simp: good_def split: option.splits)
  have "fold (idle_one cb) is ?st1 = ?st1" if "list_all (\<lambda>i. i < length (cbufs ?st1)) is" for "is"
    using that
  proof (induction "is")
    case (Cons i "is")
    have "c_disp (cbufs ?st1 ! i) \<noteq> IGNORE"
      using moves_good [OF 1] Cons.prems by (simp add: good_def pkt_ok_def conn_ok_def list_all_iff)
    then show ?case using Cons by (simp add: idle_one_def Let_def)
  qed simp
  then show ?thesis using 1 by (simp add: handle_idle_def Let_def list_all_iff)
qed

lemma pkt_ok_events:
  assumes "pkt_ok st" "\<And>p. p_fd (f p) = p_fd p"
  shows "pkt_ok (st\<lparr>g_pollset := map f (take (g_pollsetsize st) (g_pollset st))
    @ drop (g_pollsetsize st) (g_pollset st)\<rparr>)"
proof -
  let ?n = "g_pollsetsize st"
  have "map p_fd (map f (take ?n (g_pollset st))) = poll_fds st"
    by (simp add: poll_fds_def assms(2))
  then show ?thesis
    using assms
    by (auto simp: pkt_ok_def pollset_ok_def poll_fds_def in_range_def list_all_iff comp_def
        dest: in_set_takeD in_set_dropD)
qed

lemma events_ok: "good st \<Longrightarrow> moves st (update_pollfd_events st) \<and> moves st (report_events ev st)"
  using pkt_ok_events [of st]
  by (auto simp: moves_def good_def update_pollfd_events_def report_events_def Let_def)

lemma turn_ok:
  assumes "good st" "pktserv_turn cb n pr (k, st) = Some (k', st')"
  shows "moves st st'"
proof -
  let ?st1 = "update_pollfd_events st"
  have 1: "moves st ?st1" using events_ok assms(1) by blast
  have idle: "moves st2 (handle_idle cb st2)" if "moves st st2" for st2
    using handle_idle_ok moves_good that by blast
  show ?thesis
  proof (cases pr)
    case (Polled m ev)
    let ?st2 = "report_events ev ?st1"
    have 2: "moves st ?st2" using events_ok moves_good 1 moves_trans by blast
    obtain st3 where 3: "(if m > 0 then handle_pollfds cb n ?st2 else Some ?st2) = Some st3"
        "st' = handle_idle cb st3"
      using assms(2) Polled by (auto simp: pktserv_turn_def Let_def bind_eq_Some_conv)
    have "list_all (\<lambda>i. i < length (g_pollset ?st2)) [0..<g_pollsetsize ?st2]"
      using moves_good [OF 2] by (auto simp: good_def pkt_ok_def pollset_ok_def list_all_iff)
    then have "moves ?st2 st3"
      using 3(1) run_pollfds_ok [OF moves_good [OF 2]] moves_refl [OF moves_good [OF 2]]
      by (auto simp: handle_pollfds_def split: if_splits)
    then have "moves st st3" using moves_trans [OF 2] by blast
    then show ?thesis using 3(2) idle moves_trans by blast
  qed (use assms(2) 1 idle [OF 1] moves_trans [OF 1] in \<open>auto simp: pktserv_turn_def Let_def split: if_splits\<close>)
qed

lemma run_ok:
  "good st \<Longrightarrow> pktserv_run cb n prs (k, st) = Some (k', st') \<Longrightarrow> moves st st'"
proof (induction prs arbitrary: k st)
  case Nil
  then show ?case using moves_refl by simp
next
  case (Cons pr prs)
  then obtain k1 st1 where 1: "pktserv_turn cb n pr (k, st) = Some (k1, st1)"
      "pktserv_run cb n prs (k1, st1) = Some (k', st')"
    by (auto simp: bind_eq_Some_conv)
  then have "moves st st1" using turn_ok Cons.prems(1) by blast
  then show ?case using Cons.IH [OF _ 1(2)] moves_good moves_trans by blast
qed

end

end
