(* ===== verification/PktProps.thy ===== *)
theory PktProps
  imports PktInv
begin

text \<open>
  Properties of the packet layer of \<open>pktserv/pktserv.c\<close>: that a disconnect is carried out, and the
  situations in which the state machine does not do what it is meant to.
\<close>

section \<open>Where the state machine ends, and where it does not\<close>

definition alarm :: "pollfd \<Rightarrow> bool" where
  "alarm p \<longleftrightarrow> POLLERR \<in> p_revents p \<or> POLLHUP \<in> p_revents p \<or> POLLNVAL \<in> p_revents p"

definition active :: "pollfd \<Rightarrow> bool" where
  "active p \<longleftrightarrow> POLLIN \<in> p_revents p \<or> POLLOUT \<in> p_revents p"

lemma machine_active:
  assumes "in_range (p_fd p) st" "\<not> alarm p" "active p"
  shows "pollfd_state_machine cb n p st =
    machine_loop cb (POLLIN \<in> p_revents p) (POLLOUT \<in> p_revents p) (p_fd p) n
      (upd_c (p_fd p) (\<lambda>c. c\<lparr>c_disp := OK\<rparr>) st)"
  using assms in_rangeD [OF assms(1)] by (auto simp: pollfd_state_machine_def alarm_def active_def Let_def)

lemma loop_raw_disconnect:
  assumes "in_range s st" "pollset_ok st" "c_state (cbuf_at st s) = WANT_RAW_DISCONNECT"
    "c_disp (cbuf_at st s) = OK"
  shows "\<exists>st'. machine_loop cb rd wr s (Suc (Suc (Suc n))) st = Some st' \<and>
    c_state (cbuf_at st' s) = DISCONNECTED \<and> c_disp (cbuf_at st' s) = BLOCKED \<and>
    closed (net st') = closed (net st) @ [c_fd (cbuf_at st s)] \<and>
    poll_fds st' = remove1 (c_fd (cbuf_at st s)) (poll_fds st)"
proof -
  note r = in_rangeD [OF assms(1)]
  let ?fd = "c_fd (cbuf_at st s)"
  let ?st1 = "upd_c s (\<lambda>c. c\<lparr>c_ssl_con := False\<rparr>) (upd_net (os_close ?fd) st)"
  let ?st2 = "upd_c s (\<lambda>c. c\<lparr>c_state := DISCONNECTED\<rparr>) (delete_pollfd ?fd ?st1)"
  have "pollset_ok ?st1" "poll_fds ?st1 = poll_fds st"
    using assms(2) by (simp_all add: pollset_ok_def poll_fds_def in_range_def)
  then have del: "poll_fds (delete_pollfd ?fd ?st1) = remove1 ?fd (poll_fds st)"
      "cbufs (delete_pollfd ?fd ?st1) = cbufs ?st1" "net (delete_pollfd ?fd ?st1) = net ?st1"
    using delete_pollfd_fds [of ?st1 ?fd] by auto
  have raw: "handle_raw_disconnect s st = ?st2" by (simp add: handle_raw_disconnect_def Let_def)
  have c2: "c_state (cbuf_at ?st2 s) = DISCONNECTED" "c_disp (cbuf_at ?st2 s) = OK"
    using r del assms(4) by simp_all
  let ?st3 = "upd_c s (\<lambda>c. c\<lparr>c_disp := BLOCKED\<rparr>) ?st2"
  have "machine_loop cb rd wr s (Suc (Suc (Suc n))) st = Some ?st3"
    using assms(3,4) raw c2 r del by (simp add: machine_step_def)
  moreover have "poll_fds ?st3 = remove1 ?fd (poll_fds st)" using del(1) by (simp add: poll_fds_def)
  ultimately show ?thesis
    using r del c2(1) by (intro exI [of _ ?st3]) (simp add: os_close_def)
qed

text \<open>
  C37 (disconnecting): a connection in state \<open>WANT_DISCONNECT\<close> or \<open>WANT_RAW_DISCONNECT\<close> that
  polls as readable or writeable is taken down in one run of the state machine, whatever the
  callback that is told of it does within its interface: four turns of the loop suffice, its
  descriptor is closed exactly once and leaves the poll set, and the machine stops with the
  connection blocked and disconnected.\<close>

theorem disconnect_completes:
  assumes "upper_layer cb I" "pkt_ok st" "I (length (cbufs st)) (upper st)"
    and "in_range (p_fd p) st" "\<not> alarm p" "active p"
    and "c_state (cbufs st ! nat (p_fd p)) \<in> {WANT_DISCONNECT, WANT_RAW_DISCONNECT}"
    and "c_fd (cbufs st ! nat (p_fd p)) = p_fd p"
  shows "\<exists>st'. pollfd_state_machine cb (Suc (Suc (Suc (Suc n)))) p st = Some st' \<and>
    c_state (cbufs st' ! nat (p_fd p)) = DISCONNECTED \<and> c_disp (cbufs st' ! nat (p_fd p)) = BLOCKED \<and>
    closed (net st') = closed (net st) @ [p_fd p] \<and> poll_fds st' = remove1 (p_fd p) (poll_fds st)"
proof -
  let ?s = "p_fd p"
  let ?st0 = "upd_c ?s (\<lambda>c. c\<lparr>c_disp := OK\<rparr>) st"
  note r = in_rangeD [OF assms(4)]
  have 0: "pkt_ok ?st0" using upd_c_ok [OF assms(2,4), of "\<lambda>c. c\<lparr>c_disp := OK\<rparr>"] by (simp add: step_ok_def)
  note m = machine_active [OF assms(4-6)]
  have fds: "poll_fds ?st0 = poll_fds st" by (simp add: poll_fds_def)
  show ?thesis
  proof (cases "c_state (cbuf_at st ?s) = WANT_RAW_DISCONNECT")
    case True
    then show ?thesis
      using loop_raw_disconnect [of ?s ?st0 cb _ _ "Suc n"] 0 assms(4,8) r fds m
      by (simp add: pkt_ok_def del: machine_loop.simps)
  next
    case False
    then have want: "c_state (cbuf_at ?st0 ?s) = WANT_DISCONNECT" using assms(7) r by simp
    let ?st1 = "case cb_lost_client cb of None \<Rightarrow> ?st0 | Some f \<Rightarrow> f (c_fd (cbuf_at ?st0 ?s)) ?st0"
    have "api ?st0 ?st1"
      using upper_layer.lost_client_api [OF assms(1)] assms(3) api_refl pkt_ok_fd [OF 0, of ?s] assms(4)
      by (auto split: option.splits)
    then have 1: "pkt_ok ?st1" "same_conns ?st0 ?st1" using api_ok 0 by auto
    let ?st2 = "upd_c ?s handle_disconnect ?st1"
    have r2: "in_range ?s ?st2" using 1(2) assms(4) by (simp add: same_conns_def in_range_def)
    have "pkt_ok ?st2"
      using upd_c_ok [OF 1(1), of ?s handle_disconnect] r2 by (simp add: step_ok_def)
    moreover have "c_state (cbuf_at ?st2 ?s) = WANT_RAW_DISCONNECT" "c_disp (cbuf_at ?st2 ?s) = OK"
        "c_fd (cbuf_at ?st2 ?s) = ?s" "closed (net ?st2) = closed (net st)" "poll_fds ?st2 = poll_fds st"
      using r 1(2) assms(8) in_rangeD [OF r2] by (simp_all add: handle_disconnect_def same_conns_def poll_fds_def)
    moreover have "machine_loop cb rd wr ?s (Suc (Suc (Suc (Suc n)))) ?st0 =
        machine_loop cb rd wr ?s (Suc (Suc (Suc n))) ?st2" for rd wr
      using want r by (simp add: machine_step_def)
    ultimately show ?thesis
      using loop_raw_disconnect [of ?s ?st2 cb _ _ n] r2 m by (simp add: pkt_ok_def del: machine_loop.simps)
  qed
qed

definition wit_poll :: "poll_event set \<Rightarrow> pollfd" where
  "wit_poll ev = \<lparr>p_fd = 5, p_events = {POLLIN}, p_revents = ev\<rparr>"

text \<open>The callbacks before \<open>pktserv_init\<close>, and one that counts the lost clients.\<close>

definition no_cb :: "nat pktserv_cb" where
  "no_cb = \<lparr>cb_idle = None, cb_dispatch = None, cb_new_client = None, cb_lost_client = None,
     cb_ok2read = None\<rparr>"

definition count_cb :: "nat pktserv_cb" where
  "count_cb = no_cb\<lparr>cb_lost_client := Some (\<lambda>s st. st\<lparr>upper := upper st + 1\<rparr>)\<rparr>"

lemma count_cb_upper: "upper_layer count_cb (\<lambda>_ _. True)"
  by unfold_locales (auto simp: count_cb_def no_cb_def intro: api_upper api_refl)

theorem disconnect_completes_witness:
  "\<exists>st'. pollfd_state_machine count_cb 4 (wit_poll {POLLOUT})
     (snd (pktserv_disconnect 5 (wit_pkt wit_cbuf (wit_os [] [])))) = Some st' \<and>
   c_state (cbufs st' ! 5) = DISCONNECTED \<and> closed (net st') = [5] \<and> poll_fds st' = []"
proof -
  let ?st = "snd (pktserv_disconnect 5 (wit_pkt wit_cbuf (wit_os [] [])))"
  let ?p = "wit_poll {POLLOUT}"
  have "pkt_ok ?st" "in_range (p_fd ?p) ?st" "\<not> alarm ?p" "active ?p"
    "c_state (cbufs ?st ! nat (p_fd ?p)) = WANT_DISCONNECT" "c_fd (cbufs ?st ! nat (p_fd ?p)) = p_fd ?p"
    "closed (net ?st) = []" "poll_fds ?st = [5]" by code_simp+
  then show ?thesis
    using disconnect_completes [OF count_cb_upper, of ?st ?p 0] by (auto simp: wit_poll_def numeral_eq_Suc)
qed

text \<open>
  C38 (a hang of the whole server): if a client whose output is waiting sends something while
  the server cannot write to it, or if a write to it was retried more than ten times, the state
  machine never returns: no number of turns is enough. The server is single-threaded, so no other
  client is served any more.\<close>

theorem write_spin:
  assumes "in_range (p_fd p) st" "\<not> alarm p"
    and "c_state (cbufs st ! nat (p_fd p)) = WANT_WRITE"
    and "POLLIN \<in> p_revents p \<and> POLLOUT \<notin> p_revents p \<or>
      POLLOUT \<in> p_revents p \<and> c_retries (cbufs st ! nat (p_fd p)) > 10"
  shows "pollfd_state_machine cb fuel p st = None"
proof -
  let ?s = "p_fd p"
  let ?st0 = "upd_c ?s (\<lambda>c. c\<lparr>c_disp := OK\<rparr>) st"
  note r = in_rangeD [OF assms(1)]
  have act: "active p" using assms(4) by (auto simp: active_def)
  have "machine_loop cb (POLLIN \<in> p_revents p) (POLLOUT \<in> p_revents p) ?s n ?st0 = None" for n
  proof (induction n)
    case (Suc n)
    have "on_cbuf pktsocket_write ?s ?st0 = (-1, ?st0)" if "POLLOUT \<in> p_revents p"
      using that assms(4) r
      by (simp add: on_cbuf_def pktsocket_write_def MAX_SENDPACKET_RETRIES_def upd_c_def)
    then have "machine_step cb (POLLIN \<in> p_revents p) (POLLOUT \<in> p_revents p) ?s ?st0 = (False, ?st0)"
      using assms(3) r by (simp add: machine_step_def)
    then show ?case using Suc r by simp
  qed simp
  then show ?thesis using machine_active [OF assms(1,2) act] by simp
qed

theorem write_spin_witness:
  "pollfd_state_machine no_cb 1000 (wit_poll {POLLIN})
     (snd (pktserv_send 5 ''abcabc'' (wit_pkt wit_cbuf (wit_os [] [Grant 2 False])))) = None"
proof (rule write_spin)
  show "in_range (p_fd (wit_poll {POLLIN}))
      (snd (pktserv_send 5 ''abcabc'' (wit_pkt wit_cbuf (wit_os [] [Grant 2 False]))))" by code_simp
  show "\<not> alarm (wit_poll {POLLIN})" by code_simp
  show "c_state (cbufs (snd (pktserv_send 5 ''abcabc'' (wit_pkt wit_cbuf (wit_os [] [Grant 2 False])))) !
      nat (p_fd (wit_poll {POLLIN}))) = WANT_WRITE" by code_simp
qed (simp add: wit_poll_def)

text \<open>
  C39 (a hung-up connection is never closed): when \<open>poll\<close> reports \<open>POLLHUP\<close>, \<open>POLLERR\<close> or
  \<open>POLLNVAL\<close> for a connection, the state machine tells the program and marks the connection, but
  returns before it would close the descriptor. Since \<open>poll\<close> goes on reporting the hang-up, however
  often the entry is looked at, the descriptor stays open and in the poll set.\<close>

theorem hup_never_closed:
  assumes "upper_layer cb I" "pkt_ok st" "I (length (cbufs st)) (upper st)"
    and "i < g_pollsetsize st" "alarm (g_pollset st ! i)"
  shows "\<exists>st'. run_pollfds cb fuel (replicate n i) st = Some st' \<and> closed (net st') = closed (net st) \<and>
    poll_fds st' = poll_fds st \<and>
    (n > 0 \<longrightarrow> c_state (cbufs st' ! nat (p_fd (g_pollset st ! i))) = WANT_RAW_DISCONNECT)"
  using assms(2-)
proof (induction n arbitrary: st)
  case 0
  then show ?case by simp
next
  case (Suc n)
  let ?p = "g_pollset st ! i"
  let ?s = "p_fd ?p"
  let ?c = "cbuf_at st ?s"
  have rng: "in_range ?s st"
    using Suc.prems(1,3) by (auto simp: pkt_ok_def pollset_ok_def list_all_length)
  let ?st1 = "case cb_lost_client cb of
      Some f \<Rightarrow> (if c_state ?c \<noteq> LISTEN_SOCKET \<and> c_state ?c \<noteq> LISTEN_SOCKET_SSL then f (c_fd ?c) st else st)
    | None \<Rightarrow> st"
  have a: "api st ?st1 \<and> I (length (cbufs st)) (upper ?st1)"
    using upper_layer.lost_client_api [OF assms(1)] Suc.prems(2) api_refl pkt_ok_fd [OF Suc.prems(1) rng]
    by (auto split: option.splits)
  then have 1: "pkt_ok ?st1" "same_conns st ?st1" using api_ok Suc.prems(1) by auto
  let ?st2 = "upd_c ?s handle_disconnect ?st1"
  have r1: "in_range ?s ?st1" using 1(2) rng by (simp add: same_conns_def in_range_def)
  have 2: "pkt_ok ?st2" using upd_c_ok [OF 1(1) r1, of handle_disconnect] by (simp add: step_ok_def)
  have m: "pollfd_state_machine cb fuel ?p st = Some ?st2"
    using in_rangeD [OF rng] Suc.prems(4) by (auto simp: pollfd_state_machine_def alarm_def Let_def)
  have eqs: "g_pollset ?st2 = g_pollset st" "g_pollsetsize ?st2 = g_pollsetsize st"
      "closed (net ?st2) = closed (net st)" "length (cbufs ?st2) = length (cbufs st)" "upper ?st2 = upper ?st1"
    using 1(2) by (simp_all add: same_conns_def)
  then obtain st' where st': "run_pollfds cb fuel (replicate n i) ?st2 = Some st'"
      "closed (net st') = closed (net st)" "poll_fds st' = poll_fds st"
      "n > 0 \<longrightarrow> c_state (cbufs st' ! nat ?s) = WANT_RAW_DISCONNECT"
    using Suc.IH [OF 2] Suc.prems(3,4) a by (auto simp: poll_fds_def)
  moreover have "c_state (cbuf_at ?st2 ?s) = WANT_RAW_DISCONNECT"
    using in_rangeD [OF r1] by (simp add: handle_disconnect_def)
  ultimately show ?case using m by (cases n) auto
qed

definition wit_hup :: "nat pkt" where
  "wit_hup = (wit_pkt wit_cbuf (wit_os [] []))\<lparr>g_pollset := [wit_poll {POLLIN, POLLHUP}]\<rparr>"

theorem hup_never_closed_witness:
  "\<exists>st'. run_pollfds count_cb 4 [0, 0, 0] wit_hup = Some st' \<and> closed (net st') = [] \<and>
    poll_fds st' = [5] \<and> c_state (cbufs st' ! 5) = WANT_RAW_DISCONNECT"
proof -
  have h: "pkt_ok wit_hup" "0 < g_pollsetsize wit_hup" "alarm (g_pollset wit_hup ! 0)"
    "closed (net wit_hup) = []" "poll_fds wit_hup = [5]" "p_fd (g_pollset wit_hup ! 0) = 5" by code_simp+
  have "replicate 3 0 = [0, 0, 0 :: nat]" by (simp add: numeral_eq_Suc)
  then show ?thesis
    using hup_never_closed [OF count_cb_upper h(1) _ h(2,3), of 4 3] h(4-) by simp
qed

text \<open>
  A packet cut off by a send: if the server sends to a plain client after reading only
  part of a packet from it, and the send goes through, the connection is set back to wanting a
  header: the next read throws away what was read and takes the next byte of the old packet as a
  length byte.\<close>

lemma send_cuts_packet:
  assumes "in_range s st" "partway pkt rest i (cbufs st ! nat s) (net st)" "i < length pkt"
    and "c_state (cbufs st ! nat s) = WANT_READ" "c_wlist (cbufs st ! nat s) = []"
    and "c_wlist_size (cbufs st ! nat s) = 0" "c_retries (cbufs st ! nat s) \<le> 10"
    and "mallocs (net st) = []" "answers (net st) = Grant (length p) b # Grant k b' # as"
  shows "fst (pktserv_send s p st) = 0 \<and> c_state (cbufs (snd (pktserv_send s p st)) ! nat s) = WANT_HEADER \<and>
    (\<exists>m. c_rbuf (cbufs (snd (on_cbuf pktsocket_read s (snd (pktserv_send s p st)))) ! nat s) = Some m \<and>
      m_len m = byte_of (pkt ! i) + 1)"
proof -
  note r = in_rangeD [OF assms(1)]
  let ?c = "cbuf_at st s"
  let ?c' = "?c\<lparr>c_wlist := [], c_wlist_size := 0, c_retries := 0, c_state := WANT_HEADER\<rparr>"
  let ?w' = "put_tx (c_fd ?c) p (net st\<lparr>answers := Grant k b' # as\<rparr>)"
  have plain: "\<not> c_is_ssl ?c" and rx: "rx (net st) (c_fd ?c) = drop i pkt @ rest"
    using assms(2) by (auto simp: partway_def)
  have wr: "sys_write fd p (net st) = (int (length p), put_tx fd p (net st\<lparr>answers := Grant k b' # as\<rparr>))" for fd
    using assms(9) by (simp add: sys_write_def next_answer_def)
  have send: "pktserv_send s p st = (0, upd_c s (\<lambda>_. ?c') (st\<lparr>net := ?w'\<rparr>))"
    using r plain assms(4-8) wr
    by (simp add: pktserv_send_def set_state_def upd_c_def on_cbuf_def pktsocket_write_def msgbuf_alloc_def
        malloc_def MAX_SENDPACKET_QUEUE_def MAX_SENDPACKET_RETRIES_def sock_write_def Let_def)
  have "awaiting (drop i pkt) rest ?c' ?w'"
    using assms(2,8) plain rx by (auto simp: awaiting_def partway_def put_tx_def split: option.splits)
  then obtain m where "c_rbuf (fst (snd (pktsocket_read ?c' ?w'))) = Some m" "m_len m = byte_of (drop i pkt ! 0) + 1"
    using header_length [of "drop i pkt" rest ?c' ?w' k b' as] assms(3) by (auto simp: put_tx_def)
  then show ?thesis using send r assms(3) by (auto simp: on_cbuf_def split: prod.splits)
qed

definition wit_part :: cbuf where
  "wit_part = wit_cbuf\<lparr>c_state := WANT_READ, c_rbuf := Some \<lparr>m_sz = 256, m_len = 8, m_pos = 4,
     m_data = take 4 (frame_packet ''bhello'') @ replicate 252 (CHR 0x00)\<rparr>\<rparr>"

definition wit_part_pkt :: "nat pkt" where
  "wit_part_pkt = wit_pkt wit_part (wit_os (drop 4 (frame_packet ''bhello'')) [Grant 3 False, Grant 0 False])"

lemma send_cuts_packet_example:
  "c_state (cbufs wit_part_pkt ! 5) = WANT_READ \<and>
   c_state (cbufs (snd (pktserv_send 5 ''dxx'' wit_part_pkt)) ! 5) = WANT_HEADER \<and>
   (\<exists>m. c_rbuf (cbufs (snd (on_cbuf pktsocket_read 5 (snd (pktserv_send 5 ''dxx'' wit_part_pkt)))) ! 5) = Some m \<and>
     m_len m = byte_of CHR ''l'' + 1)"
proof -
  note [simp] = wit_part_pkt_def wit_pkt_def wit_part_def wit_cbuf_def wit_os_def zero_cbuf_def frame_packet_def
  have nth: "cbufs wit_part_pkt ! nat 5 = wit_part" by (simp add: nth_append)
  have h: "in_range 5 wit_part_pkt" "4 < length (frame_packet ''bhello'')" by (simp_all add: in_range_def)
  have part: "partway (frame_packet ''bhello'') [] 4 (cbufs wit_part_pkt ! nat 5) (net wit_part_pkt)"
    unfolding nth by (simp add: partway_def rbuf_sized_def)
  have c: "c_state (cbufs wit_part_pkt ! nat 5) = WANT_READ" "c_wlist (cbufs wit_part_pkt ! nat 5) = []"
    "c_wlist_size (cbufs wit_part_pkt ! nat 5) = 0" "c_retries (cbufs wit_part_pkt ! nat 5) \<le> 10"
    "mallocs (net wit_part_pkt) = []"
    "answers (net wit_part_pkt) = Grant (length ''dxx'') False # Grant 0 False # []"
    unfolding nth by simp_all
  have l: "frame_packet ''bhello'' ! 4 = CHR ''l''" by simp
  show ?thesis
    using send_cuts_packet [OF h(1) part h(2) c, unfolded l] c(1)
    by (simp del: wit_part_pkt_def wit_pkt_def wit_part_def wit_cbuf_def wit_os_def)
qed

text \<open>
  A disconnect asked for by the handler is forgotten: after a complete packet was handed
  to the dispatcher, the connection wants the next header, or wants to write if packets are
  queued, even where the handler has asked for this very connection to be disconnected.\<close>

lemma dispatch_forgets_disconnect:
  assumes "upper_layer cb I" "pkt_ok st" "I (length (cbufs st)) (upper st)" "in_range s st"
    and "cb_dispatch cb \<noteq> None" "c_state (cbufs st ! nat s) = COMPLETE_PACKET"
  shows "c_state (cbufs (finish_packet cb s st) ! nat s) = WANT_HEADER \<and>
    c_rbuf (cbufs (finish_packet cb s st) ! nat s) = None"
proof -
  obtain f where f: "cb_dispatch cb = Some f" using assms(5) by auto
  let ?st1 = "f (c_fd (cbuf_at st s)) (m_data (the (c_rbuf (cbuf_at st s)))) st"
  have "same_conns st ?st1"
    using upper_layer.dispatch_api [OF assms(1) f assms(3) pkt_ok_fd [OF assms(2,4)]] api_ok assms(2) by blast
  then have "0 \<le> s \<and> nat s < length (cbufs ?st1)" using in_rangeD [OF assms(4)] by (simp add: same_conns_def)
  then show ?thesis using f assms(6) by (simp add: finish_packet_def Let_def)
qed

text \<open>A handler that answers every packet by dropping the client.\<close>

definition drop_cb :: "nat pktserv_cb" where
  "drop_cb = no_cb\<lparr>cb_dispatch := Some (\<lambda>s d st. snd (pktserv_disconnect s st))\<rparr>"

lemma drop_cb_upper: "upper_layer drop_cb (\<lambda>_ _. True)"
  by unfold_locales (auto simp: drop_cb_def no_cb_def intro: api_refl api_disconnect [OF api_refl])

definition wit_complete :: "nat pkt" where
  "wit_complete = wit_pkt (wit_cbuf\<lparr>c_state := COMPLETE_PACKET, c_rbuf := Some \<lparr>m_sz = 256, m_len = 5,
     m_pos = 5, m_data = frame_packet ''bhi'' @ replicate 251 (CHR 0x00)\<rparr>\<rparr>) (wit_os [] [])"

lemma dispatch_forgets_disconnect_example:
  "c_state (cbufs wit_complete ! 5) = COMPLETE_PACKET \<and>
   c_state (cbufs (snd (pktserv_disconnect 5 wit_complete)) ! 5) = WANT_DISCONNECT \<and>
   c_state (cbufs (finish_packet drop_cb 5 wit_complete) ! 5) = WANT_HEADER"
proof -
  note [simp] = wit_complete_def wit_pkt_def wit_cbuf_def wit_os_def zero_cbuf_def zero_pollfd_def
    frame_packet_def in_range_def nth_append
  have zero: "conn_ok zero_cbuf"
    by (simp add: conn_ok_def cbuf_ok_def queue_ok_def MAX_SENDPACKET_QUEUE_def)
  have "conn_ok (cbufs wit_complete ! 5)"
    by (simp add: conn_ok_def cbuf_ok_def queue_ok_def MAX_SENDPACKET_QUEUE_def rbuf_sized_def rbuf_room_def)
  with zero have ok: "pkt_ok wit_complete"
    by (simp add: pkt_ok_def pollset_ok_def poll_fds_def list_all_iff)
  have h: "in_range 5 wit_complete" "cb_dispatch drop_cb \<noteq> None"
    "c_state (cbufs wit_complete ! nat 5) = COMPLETE_PACKET"
    by (simp_all add: drop_cb_def)
  have d: "c_state (cbufs (snd (pktserv_disconnect 5 wit_complete)) ! 5) = WANT_DISCONNECT"
    by (simp add: pktserv_disconnect_def set_state_def need_c_def upd_net_def upd_c_def)
  show ?thesis
    using dispatch_forgets_disconnect [OF drop_cb_upper ok _ h] h(3) d by (simp del: wit_complete_def)
qed

text \<open>
  Restoring the sockets crashes: \<open>pktserv_loadsockets\<close> sets the size of the poll set before
  it has an array, so that the first \<open>add_pollfd\<close> looks for the descriptor in memory that was
  never allocated: on a fresh process every dump with at least one socket makes it read through
  a null pointer.\<close>

lemma loadsockets_fault:
  assumes "g_pollset st = []" "0 < n" "n < fuel"
  shows "\<exists>st'. pktserv_loadsockets fuel (int n # fds) st = Some st' \<and> os_fault (net st')"
proof -
  have add: "\<exists>st'. snd (add_pollfd k st) = st' \<and> g_pollset st' = [] \<and> g_pollsetsize st' = g_pollsetsize st \<and>
      os_fault (net st')"
    if "g_pollset st = []" "0 < g_pollsetsize st" for k and st :: "'a pkt"
    using that by (simp add: add_pollfd_def Let_def)
  have "\<exists>xs' st'. load_fds fuel i k xs st = Some (xs', st') \<and> (os_fault (net st) \<or> i < g_pollsetsize st \<longrightarrow> os_fault (net st'))"
    if "g_pollset st = []" "0 < g_pollsetsize st" "g_pollsetsize st - i < fuel" for fuel i k xs and st :: "'a pkt"
    using that
  proof (induction fuel arbitrary: i k xs st)
    case (Suc fuel)
    obtain k' xs' where sc: "scan k xs = (k', xs')" by fastforce
    obtain st1 where st1: "snd (add_pollfd k' st) = st1" "g_pollset st1 = []"
        "g_pollsetsize st1 = g_pollsetsize st" "os_fault (net st1)"
      using add Suc.prems by blast
    have ih: "\<exists>xs'' st'. load_fds fuel (i + 1) k' xs' st1 = Some (xs'', st') \<and> os_fault (net st')"
      if "i < g_pollsetsize st"
      using Suc.IH [of st1 "i + 1" k' xs'] Suc.prems st1 that by auto
    show ?case
      using ih sc st1(1) by auto
  qed simp
  from this [of "st\<lparr>g_pollsetsize := n\<rparr>" 0 fuel "int n" fds] assms show ?thesis
    by (auto simp: pktserv_loadsockets_def scan_def split: list.splits)
qed

lemma loadsockets_fault_example:
  "\<exists>st'. pktserv_loadsockets 3 [2, 3, 4, 0, 0]
     ((wit_pkt wit_cbuf (wit_os [] []))\<lparr>g_pollset := [], g_pollsetsize := 0\<rparr>) = Some st' \<and> os_fault (net st')"
  using loadsockets_fault [of "(wit_pkt wit_cbuf (wit_os [] []))\<lparr>g_pollset := [], g_pollsetsize := 0\<rparr>" 2 3 "[3, 4, 0, 0]"]
  by simp

end
