(* ===== verification/Server.thy ===== *)
theory Server
  imports Frame PktProps
begin

text \<open>
  The whole server: the callbacks \<open>main\<close> of \<open>server/main.c\<close> gives to the packet layer, and the
  start of the server with empty tables. The program's state is the one of theory \<open>Tables\<close>; a
  list of observations of the outside world (the clock, files, peers) goes with it, of which each
  callback takes the next. What a callback has sent and whom it has disconnected is carried out
  through \<open>pktserv_send\<close> and \<open>pktserv_disconnect\<close>, in the order of the calls. The locale
  \<open>upper_layer\<close> of the packet layer is interpreted on these callbacks.
\<close>

section \<open>The start\<close>

text \<open>\<open>main\<close>, without \<open>-R\<close>, from \<open>init_groups\<close> to \<open>nickwritetime\<close>.\<close>

abbreviation (input) PERM_NULL :: int where "PERM_NULL \<equiv> 0"

definition server_start :: "srv \<Rightarrow> srv" where
  "server_start st =
     (let st = clear_users (init_groups st);
          st = st\<lparr>S_kill := map (\<lambda>_. 0) (S_kill st)\<rparr>;
          st = fill_user_entry (NICKSERV st) (Some ''server'') (Some (thishost st)) (Some ''Server'') (Some [])
                 (Some ''ICB'') (Some []) (now st) 0 1 PERM_NULL st;
          st = upd_u (NICKSERV st) (\<lambda>u. u\<lparr>u_login := LOGIN_COMPLETE, u_t_on := now st, u_t_recv := now st,
                 u_realname := ''registered''\<rparr>) st;
          st = fill_group_entry 0 ''ICB'' ''...here to serve you!'' SUPERSECRET RESTRICTED (NICKSERV st) QUIET st;
          st = snd (nickwritetime (NICKSERV st) 0 st)
      in st\<lparr>lpriv_id := map (\<lambda>_. -1) (lpriv_id st), pong_req := map (\<lambda>_. -1) (pong_req st),
            ping_time := map (\<lambda>_. 0) (ping_time st)\<rparr>)"

section \<open>The callbacks\<close>

record tick =
  t_now :: int
  t_world :: env
  t_remote :: "int \<Rightarrow> cstring option"

type_synonym host = "srv \<times> tick list"

fun refresh :: "host \<Rightarrow> host" where
  "refresh (s, []) = (s, [])"
| "refresh (s, t # ts) = (s\<lparr>now := t_now t, world := t_world t, remotename := t_remote t\<rparr>, ts)"

datatype action = Send_packet int cstring | Close int

text \<open>What was sent and whom was disconnected in one list; \<open>k\<close> counts the packets.\<close>

fun actions :: "nat \<Rightarrow> (int \<times> cstring) list \<Rightarrow> (nat \<times> int) list \<Rightarrow> action list" where
  "actions k [] ds = map (\<lambda>d. Close (snd d)) ds"
| "actions k (p # ps) [] = map (\<lambda>p. Send_packet (fst p) (snd p)) (p # ps)"
| "actions k (p # ps) (d # ds) =
     (if fst d \<le> k then Close (snd d) # actions k (p # ps) ds
      else Send_packet (fst p) (snd p) # actions (Suc k) ps (d # ds))"

fun perform :: "action \<Rightarrow> 'u pkt \<Rightarrow> 'u pkt" where
  "perform (Send_packet d p) st = snd (pktserv_send d p st)"
| "perform (Close d) st = snd (pktserv_disconnect d st)"

text \<open>A callback; after \<open>exit\<close> or \<open>exec\<close> there is none any more.\<close>

definition run_cb :: "(srv \<Rightarrow> srv) \<Rightarrow> host pkt \<Rightarrow> host pkt" where
  "run_cb f st =
     (let (s, ts) = refresh (upper st)
      in if halted s then st
         else let s' = f s
           in fold perform (actions (length (out s)) (drop (length (out s)) (out s'))
                              (drop (length (dropped s)) (dropped s')))
                (st\<lparr>upper := (s', ts)\<rparr>))"

text \<open>
  The loop of \<open>s_lost_user\<close> that does not end is a fault after which nothing runs; a run of as
  many turns as there are groups is long enough for it. The fuel of \<open>s_packet\<close> is the length of
  the packet: a command that is sent to the server in a command is shorter than that.
\<close>

definition lost_cb :: "int \<Rightarrow> srv \<Rightarrow> srv" where
  "lost_cb n s =
     (case s_lost_user (Suc (length (g_tab s))) n s of
        None \<Rightarrow> (flag_fault True s)\<lparr>halted := True\<rparr>
      | Some (r, s) \<Rightarrow> s)"

definition server_cb :: "host pktserv_cb" where
  "server_cb = \<lparr>cb_idle = Some (\<lambda>n. run_cb (s_didpoll n)),
     cb_dispatch = Some (\<lambda>n data. run_cb (s_packet (Suc (length data)) n data)),
     cb_new_client = Some (\<lambda>n secure. run_cb (s_new_user n (of_bool secure))),
     cb_lost_client = Some (\<lambda>n. run_cb (lost_cb n)),
     cb_ok2read = Some (\<lambda>n st. ok2read n (fst (upper st)))\<rparr>"

section \<open>The contract\<close>

text \<open>What holds of the program's state between callbacks.\<close>

definition server_inv :: "nat \<Rightarrow> host \<Rightarrow> bool" where
  "server_inv k h \<longleftrightarrow> length (u_tab (fst h)) = k \<and> list_all (packet_for (fst h)) (out (fst h)) \<and>
     list_all (drop_of (fst h)) (dropped (fst h))"

lemma cbufs_send [simp]: "length (cbufs (snd (pktserv_send s p st))) = length (cbufs st)"
  by (simp add: pktserv_send_def Let_def set_state_def upd_c_def need_c_def upd_net_def on_cbuf_def
      split: prod.split option.split)

lemma cbufs_disconnect [simp]: "length (cbufs (snd (pktserv_disconnect s st))) = length (cbufs st)"
  by (simp add: pktserv_disconnect_def set_state_def upd_c_def need_c_def upd_net_def)

definition act_in :: "nat \<Rightarrow> action \<Rightarrow> bool" where
  "act_in k a \<longleftrightarrow> (case a of Send_packet d p \<Rightarrow> 0 \<le> d \<and> d < int k | Close d \<Rightarrow> 0 \<le> d \<and> d < int k)"

lemma perform_api:
  "api st st1 \<Longrightarrow> list_all (act_in (length (cbufs st1))) as \<Longrightarrow> api st (fold perform as st1)"
proof (induction "as" arbitrary: st1)
  case (Cons a "as")
  have "api st (perform a st1)" "length (cbufs (perform a st1)) = length (cbufs st1)"
    using Cons.prems by (cases a; auto simp: act_in_def in_range_def intro: api_send api_disconnect)+
  then show ?case using Cons.IH Cons.prems(2) by simp
qed simp

lemma perform_upper: "upper (fold perform as st) = upper st"
proof (induction "as" arbitrary: st)
  case (Cons a "as")
  have "upper (perform a st) = upper st"
    by (cases a) (simp_all add: pktserv_send_def pktserv_disconnect_def Let_def set_state_def upd_c_def
        need_c_def upd_net_def on_cbuf_def split: prod.split option.split)
  then show ?case using Cons by simp
qed simp

lemma actions_in:
  "list_all (packet_for s) ps \<Longrightarrow> list_all (drop_of s) ds \<Longrightarrow>
    list_all (act_in (length (u_tab s))) (actions k ps ds)"
  by (induction k ps ds rule: actions.induct)
    (auto simp: list_all_iff act_in_def packet_for_def drop_of_def in_tab_def)

lemma packet_for_cong: "length (u_tab s) = length (u_tab s') \<Longrightarrow> packet_for s = packet_for s'"
  by (simp add: fun_eq_iff packet_for_def)

lemma drop_of_cong: "length (u_tab s) = length (u_tab s') \<Longrightarrow> drop_of s = drop_of s'"
  by (simp add: fun_eq_iff drop_of_def in_tab_def)

lemma run_cb_api:
  assumes "server_inv (length (cbufs st)) (upper st)"
    and "\<And>s. length (u_tab s) = length (cbufs st) \<Longrightarrow> runs s (f s)"
  shows "api st (run_cb f st) \<and> server_inv (length (cbufs st)) (upper (run_cb f st))"
proof -
  obtain s ts where s: "refresh (upper st) = (s, ts)" by fastforce
  then have eq: "u_tab s = u_tab (fst (upper st))" "out s = out (fst (upper st))" "dropped s = dropped (fst (upper st))"
    by (cases "upper st" rule: refresh.cases; auto)+
  show ?thesis
  proof (cases "halted s")
    case True
    then show ?thesis using s assms(1) by (simp add: run_cb_def api_refl)
  next
    case False
    have r: "runs s (f s)" using assms(1) eq by (intro assms(2)) (simp add: server_inv_def)
    then obtain ps ds where pd: "out (f s) = out s @ ps" "list_all (packet_for s) ps"
        "dropped (f s) = dropped s @ ds" "list_all (drop_of s) ds"
      by (auto simp: runs_def)
    let ?as = "actions (length (out s)) ps ds"
    have run: "run_cb f st = fold perform ?as (st\<lparr>upper := (f s, ts)\<rparr>)"
      using s False pd by (simp add: run_cb_def)
    have "list_all (act_in (length (cbufs st))) ?as"
      using actions_in [OF pd(2,4)] assms(1) eq by (simp add: server_inv_def)
    then have "api st (run_cb f st)" unfolding run by (intro perform_api api_upper api_refl) simp
    moreover have "server_inv (length (cbufs st)) (f s, ts)"
      using assms(1) eq pd runs_len [OF r] packet_for_cong [of "f s" s] drop_of_cong [of "f s" s]
        packet_for_cong [of s "fst (upper st)"] drop_of_cong [of s "fst (upper st)"]
      by (simp add: server_inv_def)
    ultimately show ?thesis by (simp add: run perform_upper)
  qed
qed

lemma lost_cb_runs: "runs s (lost_cb n s)"
  using run.P_s_lost_user [OF runs_refl, of s "Suc (length (g_tab s))" n] run.P_halt [OF run.P_flag [OF runs_refl]]
  by (auto simp: lost_cb_def split: option.splits)

interpretation server: upper_layer server_cb server_inv
proof unfold_locales
  fix f x and st :: "host pkt"
  assume "cb_idle server_cb = Some f" "server_inv (length (cbufs st)) (upper st)"
  then show "api st (f x st) \<and> server_inv (length (cbufs st)) (upper (f x st))"
    using run_cb_api [of st "s_didpoll x"] run.P_s_didpoll [OF runs_refl] by (auto simp: server_cb_def)
next
  fix g n d and st :: "host pkt"
  assume "cb_dispatch server_cb = Some g" "server_inv (length (cbufs st)) (upper st)" "in_range n st"
  then show "api st (g n d st) \<and> server_inv (length (cbufs st)) (upper (g n d st))"
    using run_cb_api [of st "s_packet (Suc (length d)) n d"] run.P_s_packet [OF runs_refl]
    by (auto simp: server_cb_def in_range_def in_tab_def)
next
  fix h n b and st :: "host pkt"
  assume "cb_new_client server_cb = Some h" "server_inv (length (cbufs st)) (upper st)" "in_range n st"
  then show "api st (h n b st) \<and> server_inv (length (cbufs st)) (upper (h n b st))"
    using run_cb_api [of st "s_new_user n (of_bool b)"] run.P_s_new_user [OF runs_refl]
    by (auto simp: server_cb_def in_range_def in_tab_def)
next
  fix k n and st :: "host pkt"
  assume "cb_lost_client server_cb = Some k" "server_inv (length (cbufs st)) (upper st)" "in_range n st"
  then show "api st (k n st) \<and> server_inv (length (cbufs st)) (upper (k n st))"
    using run_cb_api [of st "lost_cb n"] lost_cb_runs by (auto simp: server_cb_def)
qed

section \<open>The whole server\<close>


text \<open>Two clients, of whom the first, \<open>ann\<close>, sends an open message; \<open>bob\<close> gets it.\<close>

definition wit_server :: "host pkt" where
  "wit_server = \<lparr>cbufs = [zero_cbuf\<lparr>c_fd := 0, c_state := WANT_HEADER\<rparr>, zero_cbuf\<lparr>c_fd := 1, c_state := WANT_HEADER\<rparr>,
       zero_cbuf, zero_cbuf],
     net = \<lparr>rx = (\<lambda>_. [])(0 := frame_packet ''bhi''), tx = \<lambda>_. [],
       answers = [Grant 1 False, Grant 4 False, Grant 20 False], mallocs = [],
       ewouldblock = False, closed = [], os_fault = False\<rparr>,
     g_pollset = [\<lparr>p_fd = 0, p_events = {POLLIN}, p_revents = {}\<rparr>, \<lparr>p_fd = 1, p_events = {POLLIN}, p_revents = {}\<rparr>],
     g_pollsetsize = 2, port_fd = -1, sslport_fd = -1, upper = (demo, [])\<rparr>"

lemma wit_server_run:
  "map_option (\<lambda>(k, st). tx (net st) 1)
     (pktserv_run server_cb 9 [Polled 1 (\<lambda>fd. if fd = 0 then {POLLIN} else {})] (0, wit_server)) =
   Some (frame_packet (''bann'' @ SEP # ''hi''))"
  by code_simp



end
