(* ===== verification/NickProps.thy ===== *)
theory NickProps
  imports Server
begin

text \<open>
  Nicknames: no two users have the same one. The locale \<open>naming\<close> of theory \<open>Frame\<close> is interpreted
  on the list of all nicknames, which nothing but three operations changes, and the locale \<open>serving\<close>
  on the property that they are different.
\<close>

definition nicks :: "srv \<Rightarrow> cstring list" where
  "nicks st = map u_nickname (u_tab st)"

definition unique_nicks :: "srv \<Rightarrow> bool" where
  "unique_nicks st \<longleftrightarrow> (\<forall>i < length (nicks st). \<forall>j < length (nicks st). i \<noteq> j \<longrightarrow> nicks st ! i \<noteq> [] \<longrightarrow> \<not> strcaseeq (nicks st ! i) (nicks st ! j))"

lemma unique_nicks_cong: "nicks st = nicks st' \<Longrightarrow> unique_nicks st = unique_nicks st'"
  by (simp add: unique_nicks_def)

text \<open>All the changes of the state but those of a nickname.\<close>

lemma nicks_upd_u: "nicks (upd_u i f st) = (if in_tab i (u_tab st) then (nicks st)[nat i := u_nickname (f (usr st i))] else nicks st)"
  by (auto simp: nicks_def upd_u_def need_u_def flag_fault_def usr_def in_tab_def map_update)

lemma nicks_keep: "keeps_nick f \<Longrightarrow> nicks (upd_u i f st) = nicks st"
  unfolding nicks_upd_u by (auto simp: keeps_nick_def usr_def nicks_def in_tab_def list_update_same_conv)

lemma nick_at: "0 \<le> i \<Longrightarrow> i < int (length (nicks st)) \<Longrightarrow> u_nickname (usr st i) = nicks st ! nat i"
  by (simp add: nicks_def usr_def in_tab_def)

lemma nicks_same: "u_tab st = u_tab st' \<Longrightarrow> nicks st = nicks st'"
  by (simp add: nicks_def)

lemma nicks_others:
  "nicks (upd_g i g st) = nicks st" "nicks (flag_fault b st) = nicks st" "nicks (disconnect i st) = nicks st"
  by (simp_all add: nicks_def upd_g_def need_g_def flag_fault_def disconnect_def)

lemma nicks_fields:
  "nicks (st\<lparr>S_kill := ks\<rparr>) = nicks st" "nicks (st\<lparr>lpriv_id := ks\<rparr>) = nicks st" "nicks (st\<lparr>pong_req := ks\<rparr>) = nicks st"
  "nicks (st\<lparr>ping_time := ks\<rparr>) = nicks st" "nicks (st\<lparr>pfields := fs\<rparr>) = nicks st"
  by (simp_all add: nicks_def)

interpretation nm: naming "\<lambda>st. nicks st = N" for N
  by unfold_locales (simp_all add: nicks_keep nicks_others, simp_all add: nicks_def)

text \<open>A nickname that nobody else has may be taken.\<close>

lemma find_user_none: "find_user name st < 0 \<Longrightarrow> name \<noteq> [] \<Longrightarrow> x \<in> set (nicks st) \<Longrightarrow> \<not> strcaseeq x name"
  by (auto simp: find_user_def find_index_neg nicks_def)

lemma unique_take:
  assumes u: "unique_nicks st" and free: "name = [] \<or> (\<forall>j < length (nicks st). j \<noteq> k \<longrightarrow> \<not> strcaseeq (nicks st ! j) name)"
    and new: "nicks st' = (nicks st)[k := name]"
  shows "unique_nicks st'"
  unfolding unique_nicks_def new length_list_update
proof (intro allI impI)
  fix i j
  assume ij: "i < length (nicks st)" "j < length (nicks st)" "i \<noteq> j" "(nicks st)[k := name] ! i \<noteq> []"
  show "\<not> strcaseeq ((nicks st)[k := name] ! i) ((nicks st)[k := name] ! j)"
    using ij u free by (cases "i = k"; cases "j = k") (auto simp: unique_nicks_def nth_list_update strcaseeq_sym)
qed

lemma let_two: "A a \<Longrightarrow> (\<And>x. A x \<Longrightarrow> B (f x)) \<Longrightarrow> B (Let a f)"
  by simp

lemma nicks_rename:
  "nicks (rename n name st) = (if in_tab n (u_tab st) then (nicks st)[nat n := name] else nicks st)" (is "_ = ?N")
proof -
  have set: "nicks (upd_u n (\<lambda>u. u\<lparr>u_nickname := name\<rparr>) s) = ?N" if "nicks s = nicks st" for s
    using that by (simp add: nicks_upd_u) (metis in_tab_def length_map nicks_def)
  show ?thesis
    unfolding rename_def
    by (rule let_two [where A = "\<lambda>_. True"], simp, rule let_two [where A = "\<lambda>s. nicks s = nicks st"], intro framed,
        rule refl, rule let_two [where A = "\<lambda>s. nicks s = nicks st"], intro framed, assumption,
        rule let_two [where A = "\<lambda>s. nicks s = ?N"], erule set, intro framed, assumption+)
qed

lemma nicks_clear_user_item:
  "nicks (clear_user_item n st) = (if in_tab n (u_tab st) then (nicks st)[nat n := []] else nicks st)"
proof -
  obtain s where "nicks (clear_user_item n st) = nicks (upd_u n cleared_user s)" "u_tab s = u_tab st"
    using nickwritetime_db [of n 1 "need_u n st"] by (auto simp: clear_user_item_def Let_def nicks_def)
  then show ?thesis by (simp add: nicks_upd_u cleared_user_def) (simp add: nicks_def)
qed

interpretation uq: serving unique_nicks
proof unfold_locales
  show "unique_nicks (clear_user_item i st)" if "unique_nicks st" for i st
    using that unique_take [of st "[]" "nat i" "clear_user_item i st"] unique_nicks_cong [of "clear_user_item i st" st]
    by (cases "in_tab i (u_tab st)") (simp_all add: nicks_clear_user_item)
  show "unique_nicks (rename n name st)"
    if u: "unique_nicks st" and f: "find_user name st < 0 \<or> strcaseeq name (u_nickname (usr st n))" for st name n
  proof (cases "in_tab n (u_tab st)")
    case True
    have "\<not> strcaseeq (nicks st ! j) name" if "name \<noteq> []" "j < length (nicks st)" "j \<noteq> nat n" for j
      using f
    proof
      assume "strcaseeq name (u_nickname (usr st n))"
      moreover from this True have "nicks st ! nat n = u_nickname (usr st n)" "nat n < length (nicks st)"
        by (auto simp: nicks_def usr_def in_tab_def)
      ultimately show ?thesis
        using u that unfolding unique_nicks_def strcaseeq_def by (metis list.map_disc_iff)
    qed (use that find_user_none in auto)
    then show ?thesis using unique_take [OF u] True nicks_rename by metis
  qed (use u unique_nicks_cong [of "rename n name st" st] in \<open>simp add: nicks_rename\<close>)
qed (erule unique_nicks_cong [THEN iffD1, rotated], (simp add: nicks_keep nicks_others | simp add: nicks_def))+

section \<open>Login\<close>

lemma unique_fill:
  assumes "unique_nicks st" "nicks s = nicks st" "find_user name st < 0" "filternickname name = name" "length name \<le> MAX_NICKLEN"
  shows "unique_nicks (fill_user_entry n i h (Some (filternickname name)) pw gn aw lg eb nb pm s)"
proof -
  let ?s = "fill_user_entry n i h (Some (filternickname name)) pw gn aw lg eb nb pm s"
  have len: "in_tab n (u_tab s) = in_tab n (u_tab st)" using assms(2) by (metis in_tab_def length_map nicks_def)
  then have "nicks ?s = (if in_tab n (u_tab st) then (nicks st)[nat n := name] else nicks st)"
    using assms(2,4,5) by (simp add: fill_user_entry_def nicks_upd_u copy_user_field_def)
  moreover have "name = [] \<or> (\<forall>j < length (nicks st). j \<noteq> nat n \<longrightarrow> \<not> strcaseeq (nicks st ! j) name)"
    using find_user_none [OF assms(3)] nth_mem by blast
  ultimately show ?thesis
    using unique_take [OF assms(1)] unique_nicks_cong [of ?s st] assms(1) by (cases "in_tab n (u_tab st)") simp_all
qed

text \<open>The nickname of a login packet.\<close>

definition login_nick :: "cstring \<Rightarrow> srv \<Rightarrow> cstring" where
  "login_nick pkt st = field (snd (split_packet pkt st)) 1"

lemma unique_loginmsg:
  assumes "unique_nicks st" "filternickname (login_nick pkt st) = login_nick pkt st"
  shows "unique_nicks (snd (loginmsg n pkt st))"
proof -
  define s where "s = upd_u n (\<lambda>u. u\<lparr>u_login := LOGIN_FALSE\<rparr>) (need_u n st)"
  obtain k t where split: "split_packet pkt s = (k, t)" by fastforce
  have s: "unique_nicks s" unfolding s_def by (intro framed assms)
  have t: "unique_nicks t" using uq.P_split_packet [OF s, of pkt] split by simp
  have nick: "field t 1 = login_nick pkt st"
    using split by (auto simp: split_packet_def login_nick_def s_def field_def split: prod.splits)
  have "unique_nicks (snd (login_user n wg t))" for wg
  proof (rule nm.login_user_steps [of t "nicks t" unique_nicks, OF refl])
    show "unique_nicks s'" if "nicks s' = nicks t" for s' using that t unique_nicks_cong by blast
    show "unique_nicks (fill_user_entry n i h (Some (filternickname (field t 1))) pw gn aw lg eb nb pm s')"
      if "nicks s' = nicks t" "find_user (field t 1) t < 0" "length (field t 1) \<le> MAX_NICKLEN"
      for s' i h pw gn aw lg eb nb pm
      using unique_fill [OF t that(1,2) _ that(3)] assms(2) nick by simp
  qed (rule uq.P_senders uq.P_login_enter, assumption)+
  then show ?thesis
    using t split unfolding loginmsg_def Let_def s_def [symmetric]
    by (auto intro!: uq.P_senders uq.P_who_login uq.P_need assms)
qed

section \<open>Every run\<close>

text \<open>
  The events of the server: a packet, the end of a poll, a lost and a new connection, and whatever happens outside
  (the time, the files, the answers of the system). The nickname of a login packet has only allowed characters.
\<close>

definition clean_login :: "string \<Rightarrow> srv \<Rightarrow> bool" where
  "clean_login data st \<longleftrightarrow> (let pkt = c_str (drop 1 data); nick = login_nick (drop 1 pkt) st
     in take 1 pkt = ''a'' \<longrightarrow> filternickname nick = nick)"

inductive event :: "srv \<Rightarrow> srv \<Rightarrow> bool" where
  packet: "in_tab n (u_tab st) \<Longrightarrow> clean_login data st \<Longrightarrow> event st (s_packet fuel n data st)"
| polled: "event st (s_didpoll n st)"
| lost: "s_lost_user fuel n st = Some (r, st') \<Longrightarrow> event st st'"
| new: "in_tab n (u_tab st) \<Longrightarrow> event st (s_new_user n secure st)"
| outside: "u_tab st' = u_tab st \<Longrightarrow> event st st'"

lemma unique_dispatch:
  assumes "unique_nicks st" "in_tab n (u_tab st)" "take 1 pkt = ''a'' \<longrightarrow> filternickname (login_nick (drop 1 pkt) st) = login_nick (drop 1 pkt) st"
  shows "unique_nicks (dispatch fuel n pkt st)"
proof (cases pkt)
  case Nil
  then show ?thesis by (simp add: dispatch_def) (intro framed assms)
next
  case (Cons c rest)
  show ?thesis
  proof (cases "c = CHR ''a'' \<and> n < MAX_REAL_USERS st")
    case True
    then have "unique_nicks (snd (loginmsg n rest st))" using unique_loginmsg [OF assms(1)] assms(3) Cons by simp
    then show ?thesis using Cons True uq.P_cells(1) [OF uq.P_senders(3)] uq.P_kill
      by (auto simp: dispatch_def Let_def split: prod.split)
  next
    case False
    have "in_tab n (u_tab (sendexit n (senderror n m st)))" if "n \<ge> MAX_REAL_USERS st" for m
      using assms(2) refused_tab [OF that] by simp
    then show ?thesis
      using False unfolding dispatch_def Cons list.case by (auto intro!: framed assms(1) uq.P_drop)
  qed
qed

lemma unique_event: "event st st' \<Longrightarrow> unique_nicks st \<Longrightarrow> unique_nicks st'"
proof (induction rule: event.induct)
  case (packet n st data fuel)
  then show ?case by (auto simp: s_packet_def clean_login_def Let_def intro: unique_dispatch)
next
  case (lost fuel n st r st')
  then show ?case using uq.P_s_lost_user [of st fuel n] by simp
next
  case (outside st' st)
  then show ?case using nicks_same unique_nicks_cong by metis
qed (auto intro: uq.P_s_didpoll uq.P_s_new_user)


lemma nicks_clear_users:
  "length (nicks (fold (\<lambda>i st. clear_user_item i (upd_u i init_user st)) is st)) = length (nicks st) \<and>
   (\<forall>k < length (nicks st). nicks (fold (\<lambda>i st. clear_user_item i (upd_u i init_user st)) is st) ! k =
     (if int k \<in> set is then [] else nicks st ! k))"
proof (induction "is" arbitrary: st)
  case (Cons i "is")
  let ?s = "clear_user_item i (upd_u i init_user st)"
  have "keeps_nick init_user" by (simp add: keeps_nick_def init_user_def)
  then have "nicks ?s = (if in_tab i (u_tab st) then (nicks st)[nat i := []] else nicks st)"
    by (simp add: nicks_clear_user_item nicks_keep)
  moreover have "in_tab i (u_tab st) \<longleftrightarrow> 0 \<le> i \<and> i < int (length (nicks st))" by (simp add: in_tab_def nicks_def)
  ultimately have "length (nicks ?s) = length (nicks st)"
    "\<And>k. k < length (nicks st) \<Longrightarrow> nicks ?s ! k = (if int k = i then [] else nicks st ! k)"
    by (auto simp: nth_list_update)
  then show ?case using Cons.IH [of ?s] by auto
qed simp

lemma unique_start: "unique_nicks (server_start st)" "length (nicks (server_start st)) = length (nicks st)"
proof -
  define a where "a = clear_users (init_groups st)"
  have len: "length (nicks a) = length (nicks st)"
    using nicks_clear_users [of "[0..MAX_USERS (init_groups st) - 1]" "init_groups st"]
    by (simp add: a_def clear_users_def init_groups_def) (simp add: nicks_def)
  have nil: "nicks a ! k = []" if "k < length (nicks a)" for k
    using that nicks_clear_users [of "[0..MAX_USERS (init_groups st) - 1]" "init_groups st"]
    by (simp add: a_def clear_users_def init_groups_def) (simp add: nicks_def)
  define b where "b = fill_user_entry (NICKSERV a) (Some ''server'') (Some (thishost a)) (Some ''Server'') (Some [])
    (Some ''ICB'') (Some []) (now a) 0 1 PERM_NULL (a\<lparr>S_kill := map (\<lambda>_. 0) (S_kill a)\<rparr>)"
  have "nicks b = nicks a \<or> (\<exists>k. nicks b = (nicks a)[k := ''Server''])"
    unfolding b_def fill_user_entry_def nicks_upd_u by (auto simp: copy_user_field_def nicks_def)
  then have "unique_nicks b" and lb: "length (nicks b) = length (nicks a)"
    using unique_take [of a "''Server''" _ b] nil unique_nicks_cong [of b a] by (auto simp: unique_nicks_def)
  moreover have "nicks (server_start st) = nicks b"
    unfolding server_start_def a_def [symmetric] Let_def fill_group_entry_def
    by (simp add: nicks_fields nm.P_nickwritetime [OF refl] nicks_others nicks_keep keeps_nick_fields b_def)
  ultimately show "unique_nicks (server_start st)" "length (nicks (server_start st)) = length (nicks st)"
    using unique_nicks_cong [of "server_start st" b] lb len by simp_all
qed

text \<open>
  C2 (nicknames are unique): from the start of the server, whatever packets of whatever clients arrive, whatever
  connections come and go and whatever time passes, no two users have the same nickname (up to case), provided
  the nicknames of the login packets have only characters that nicknames may have.\<close>

theorem nick_unique:
  assumes "event\<^sup>*\<^sup>* (server_start st0) st"
  shows "unique_nicks st"
  using assms by (induction rule: rtranclp_induct) (auto intro: unique_start unique_event)

theorem nick_unique_witness:
  "unique_nicks (s_didpoll 3 (s_packet 9 1 (CHR 0x20 # ''hname'' @ SEP # ''ann'') (server_start demo)))"
proof -
  let ?d = "CHR 0x20 # ''hname'' @ SEP # ''ann''"
  have "length (u_tab (server_start demo)) = 4" using unique_start(2) [of demo] by (simp add: nicks_def)
  then have "event (server_start demo) (s_packet 9 1 ?d (server_start demo))"
    by (intro event.packet) (simp_all add: in_tab_def clean_login_def c_str_def)
  then have "event\<^sup>*\<^sup>* (server_start demo) (s_didpoll 3 (s_packet 9 1 ?d (server_start demo)))"
    by (meson event.polled converse_rtranclp_into_rtranclp r_into_rtranclp)
  then show ?thesis by (rule nick_unique)
qed

text \<open>
  C17 (nicknames are not unique): without that proviso there can be two users of the same name. If somebody is
  called what \<open>filternickname\<close> makes of the nickname in a login packet (as after an earlier login with the same packet),
  and nobody is called what the packet says, then a login that is not refused for its address or its login id gets
  the nickname that is already in use.\<close>

theorem nick_duplicate:
  assumes "in_tab n (u_tab st)" "in_tab j (u_tab st)" "j \<noteq> n" "u_nickname (usr st j) = filternickname (field st 1)"
    and "find_user (field st 1) st < 0" "field st 1 \<noteq> []" "length (field st 1) \<le> MAX_NICKLEN"
    and "field st 0 \<noteq> []" "length (field st 0) \<le> MAX_IDLEN" "list_all is_alnum (field st 0)"
    and "get_perms n (field st 0) st = (PERM_NULL, st)" "read_file (world st) ''./icbd.deny'' = None"
  shows "u_nickname (usr (snd (login_user n wg st)) n) = filternickname (field st 1) \<and>
    u_nickname (usr (snd (login_user n wg st)) j) = filternickname (field st 1)"
proof -
  let ?nick = "filternickname (field st 1)"
  define s where "s = st\<lparr>pfields := (pfields st)[1 := ?nick]\<rparr>"
  define f where "f = fill_user_entry n (Some (field st 0)) (Some (u_nodeid (usr st n))) (Some ?nick) (Some (field s 4))
    (Some []) (Some []) LOGIN_FALSE 0 0 PERM_NULL s"
  have f: "nicks f = (nicks st)[nat n := ?nick]"
    using assms(1,7) by (simp add: f_def s_def fill_user_entry_def nicks_upd_u copy_user_field_def nicks_fields filternickname_def)
  have "snd (login_user n wg st) = senderror n ''Nickname already in use.'' f \<or> snd (login_user n wg st) = snd (login_enter n wg f)"
    using assms(5-12) by (simp add: login_user_def Let_def f_def s_def)
  then have "nicks (snd (login_user n wg st)) = nicks f"
    using nm.P_senders(1) [OF refl, of n _ f] nm.P_login_enter [OF refl, of n wg f] by auto
  then have new: "nicks (snd (login_user n wg st)) = (nicks st)[nat n := ?nick]" using f by simp
  have tab: "0 \<le> n" "n < int (length (nicks st))" "0 \<le> j" "j < int (length (nicks st))"
    using assms(1,2) by (simp_all add: in_tab_def nicks_def)
  then have "nicks st ! nat j = ?nick" using nick_at [of j st] assms(4) by simp
  then show ?thesis
    using tab assms(3) nick_at [of n "snd (login_user n wg st)"] nick_at [of j "snd (login_user n wg st)"]
    by (simp add: new nth_list_update)
qed

theorem nick_duplicate_witness:
  "u_nickname (usr (snd (login_user 1 ''x'' (demo\<lparr>u_tab := [demo_user ''a_b'' ''x'', blank_user, demo_user ''Server'' ''ICB''],
     pfields := [''me'', ''a b'', ''x'', ''login'', []]\<rparr>))) 1) = ''a_b''"
proof -
  let ?st = "demo\<lparr>u_tab := [demo_user ''a_b'' ''x'', blank_user, demo_user ''Server'' ''ICB''],
     pfields := [''me'', ''a b'', ''x'', ''login'', []]\<rparr>"
  have "field ?st 1 = ''a b''" "field ?st 0 = ''me''" "filternickname ''a b'' = ''a_b''" "u_nickname (usr ?st 0) = ''a_b''"
    "find_user ''a b'' ?st < 0" "list_all is_alnum ''me''" by code_simp+
  moreover have "get_perms 1 ''me'' ?st = (PERM_NULL, ?st)" by (simp add: get_perms_def demo_def)
  moreover have "read_file (world ?st) ''./icbd.deny'' = None" by (simp add: demo_def)
  ultimately show ?thesis using nick_duplicate [of 1 ?st 0 "''x''"] by (simp add: in_tab_def)
qed

end
