(* ===== verification/Dump.thy ===== *)
theory Dump
  imports NickProps "HOL-Library.State_Monad"
begin

text \<open>
  \<open>icbdump\<close> and \<open>icbload\<close> of \<open>server/icbutil.c\<close>: the tables as a text file, for a restart. The reader
  is written in the state monad over the file and the variables of \<open>icbload\<close>; \<open>fgets\<close> and \<open>fscanf\<close>
  are those of the C library, with what they leave alone at the end of the file.
\<close>

abbreviation (input) MAX_REALLEN :: nat where "MAX_REALLEN \<equiv> 64"

abbreviation (input) NL :: char where "NL \<equiv> CHR 0x0A"

section \<open>Writing\<close>

definition put_int :: "int \<Rightarrow> string" where
  "put_int k = dec_int k @ [NL]"

definition put_str :: "cstring \<Rightarrow> string" where
  "put_str s = s @ [CHR ''X'', NL]"

definition put_list :: "nlist \<Rightarrow> string" where
  "put_list l = put_int (nl_count l) @ concat (map put_str (read_list l))"

definition dump_user :: "user_item \<Rightarrow> string" where
  "dump_user u = put_str (u_loginid u) @ put_str (u_nodeid u) @ put_str (u_nickname u) @ put_str (u_password u) @
     put_str (u_realname u) @ put_str (u_group u) @ put_str (u_awaymsg u) @ put_int (u_lastaway u) @
     put_int (u_lastawaytime u) @ put_int (u_login u) @ put_int (u_echoback u) @ put_int (u_nobeep u) @
     put_int (u_perms u) @ put_int (u_t_notify u) @ put_int (u_t_on u) @ put_int (u_t_sent u) @ put_int (u_t_recv u) @
     put_int (u_t_group u) @ put_list (pri_n_hushed u) @ put_list (pub_n_hushed u) @ put_list (pri_s_hushed u) @
     put_list (pub_s_hushed u) @ put_list (n_notifies u) @ put_list (s_notifies u)"

definition dump_group :: "group_item \<Rightarrow> string" where
  "dump_group g = put_str (g_name g) @ put_str (g_topic g) @ put_int (g_visibility g) @ put_int (g_control g) @
     put_int (g_mod g) @ put_int (g_modtimeout g) @ put_str (g_missingmod g) @ put_int (g_volume g) @
     put_list (n_invites g) @ put_list (nr_invites g) @ put_list (s_invites g) @ put_list (sr_invites g) @
     put_list (n_bars g) @ put_list (n_nr_bars g) @ put_list (s_bars g) @ put_list (s_nr_bars g) @
     put_list (n_talk g) @ put_list (nr_talk g) @ put_int (g_size g) @ put_int (g_idleboot g) @
     put_str (g_idleboot_msg g) @ put_int (g_idlemod g)"

text \<open>The numbers of \<open>pktserv_dumpsockets\<close> come first. The file is not written if it cannot be opened.\<close>

definition icbdump :: "bool \<Rightarrow> int list \<Rightarrow> srv \<Rightarrow> string option \<Rightarrow> string option" where
  "icbdump opened sockets st file =
     (if \<not> opened then file
      else Some (concat (map put_int sockets) @ concat (map put_int (S_kill st)) @
             concat (map dump_user (u_tab st)) @ concat (map dump_group (g_tab st))))"

section \<open>Reading\<close>

text \<open>
  The rest of the file, the variables \<open>name\<close>, \<open>j\<close> and \<open>k\<close> (none before they are set), and whether
  anything was read before it was set or written outside its array.
\<close>

record loader =
  l_text :: string
  l_name :: "cstring option"
  l_j :: "int option"
  l_k :: "int option"
  l_bad :: bool

definition fgets :: "nat \<Rightarrow> string \<Rightarrow> string \<times> string" where
  "fgets n s =
     (let line = takeWhile (\<lambda>c. c \<noteq> NL) s;
          r = take (n - 1) (take (length line + 1) s)
      in (r, drop (length r) s))"

text \<open>A conversion of an integer and a line feed, which stands for any white space.\<close>

definition fscanf_int :: "string \<Rightarrow> int option \<times> string" where
  "fscanf_int s =
     (let s = dropWhile is_cspace s;
          neg = (take 1 s = ''-'');
          ds = (if neg \<or> take 1 s = ''+'' then drop 1 s else s)
      in if takeWhile is_digit ds = [] then (None, ds)
         else (Some (if neg then - digits_val ds else digits_val ds), dropWhile is_cspace (dropWhile is_digit ds)))"

definition scan_j :: "(loader, int) state" where
  "scan_j = State (\<lambda>l. case fscanf_int (l_text l) of
     (Some v, s) \<Rightarrow> (to_int32 v, l\<lparr>l_text := s, l_j := Some (to_int32 v)\<rparr>)
   | (None, s) \<Rightarrow> (case l_j l of Some j \<Rightarrow> (j, l\<lparr>l_text := s\<rparr>) | None \<Rightarrow> (0, l\<lparr>l_text := s, l_bad := True\<rparr>)))"

definition scan_k :: "(loader, int) state" where
  "scan_k = State (\<lambda>l. case fscanf_int (l_text l) of
     (Some v, s) \<Rightarrow> (clamp_long v, l\<lparr>l_text := s, l_k := Some (clamp_long v)\<rparr>)
   | (None, s) \<Rightarrow> (case l_k l of Some k \<Rightarrow> (k, l\<lparr>l_text := s\<rparr>) | None \<Rightarrow> (0, l\<lparr>l_text := s, l_bad := True\<rparr>)))"

text \<open>A line without its last two characters, into an array of \<open>sz\<close> bytes.\<close>

definition read_str :: "nat \<Rightarrow> (loader, cstring) state" where
  "read_str sz = State (\<lambda>l.
     let (line, s) = fgets 256 (l_text l);
         name = (if l_text l = [] then l_name l else Some (c_str line));
         l = l\<lparr>l_text := s, l_name := name\<rparr>
     in case name of
          None \<Rightarrow> ([], l\<lparr>l_bad := True\<rparr>)
        | Some name \<Rightarrow>
            (if length name < 2 then ([], l\<lparr>l_bad := True\<rparr>)
             else (take (length name - 2) name, l\<lparr>l_bad := l_bad l \<or> length name - 2 \<ge> sz\<rparr>)))"

fun put_names :: "nat \<Rightarrow> nlist \<Rightarrow> (loader, nlist) state" where
  "put_names 0 l = State_Monad.return l"
| "put_names (Suc n) l = do { name2 \<leftarrow> read_str 256; put_names n (nl_put name2 l) }"

definition set_j :: "int \<Rightarrow> (loader, unit) state" where
  "set_j j = State (\<lambda>l. ((), l\<lparr>l_j := Some j\<rparr>))"

definition load_list :: "nlist \<Rightarrow> (loader, nlist) state" where
  "load_list l = do {
     j \<leftarrow> scan_j;
     l \<leftarrow> put_names (nat j) l;
     _ \<leftarrow> set_j (min j 0);
     State_Monad.return l }"

text \<open>The time of the last away message is set from \<open>j\<close>, not from \<open>k\<close> which was read for it.\<close>

definition load_user :: "user_item \<Rightarrow> (loader, user_item) state" where
  "load_user u = do {
     loginid \<leftarrow> read_str (MAX_IDLEN + 1);
     nodeid \<leftarrow> read_str (MAX_NODELEN + 1);
     nickname \<leftarrow> read_str (MAX_NICKLEN + 1);
     password \<leftarrow> read_str (MAX_PASSWDLEN + 1);
     realname \<leftarrow> read_str (MAX_REALLEN + 1);
     grpname \<leftarrow> read_str (MAX_GROUPLEN + 1);
     awaymsg \<leftarrow> read_str (MAX_AWAY_LEN + 1);
     lastaway \<leftarrow> scan_j;
     _ \<leftarrow> scan_k;
     login \<leftarrow> scan_j;
     echoback \<leftarrow> scan_j;
     nobeep \<leftarrow> scan_j;
     perms \<leftarrow> scan_k;
     t_notify \<leftarrow> scan_j;
     t_on \<leftarrow> scan_k;
     t_sent \<leftarrow> scan_k;
     t_recv \<leftarrow> scan_k;
     t_group \<leftarrow> scan_k;
     l1 \<leftarrow> load_list (pri_n_hushed u);
     l2 \<leftarrow> load_list (pub_n_hushed u);
     l3 \<leftarrow> load_list (pri_s_hushed u);
     l4 \<leftarrow> load_list (pub_s_hushed u);
     l5 \<leftarrow> load_list (n_notifies u);
     l6 \<leftarrow> load_list (s_notifies u);
     State_Monad.return (u\<lparr>u_loginid := loginid, u_nodeid := nodeid, u_nickname := nickname, u_password := password,
       u_realname := realname, u_group := grpname, u_awaymsg := awaymsg, u_lastaway := lastaway,
       u_lastawaytime := lastaway, u_login := login, u_echoback := echoback, u_nobeep := nobeep, u_perms := perms,
       u_t_notify := t_notify, u_t_on := t_on, u_t_sent := t_sent, u_t_recv := t_recv, u_t_group := t_group,
       pri_n_hushed := l1, pub_n_hushed := l2, pri_s_hushed := l3, pub_s_hushed := l4, n_notifies := l5,
       s_notifies := l6\<rparr>) }"

definition load_group :: "group_item \<Rightarrow> (loader, group_item) state" where
  "load_group g = do {
     name \<leftarrow> read_str (MAX_GROUPLEN + 1);
     topic \<leftarrow> read_str (MAX_TOPICLEN + 1);
     visibility \<leftarrow> scan_j;
     control \<leftarrow> scan_j;
     md \<leftarrow> scan_j;
     modtimeout \<leftarrow> scan_k;
     missingmod \<leftarrow> read_str (MAX_NICKLEN + 1);
     volume \<leftarrow> scan_j;
     l1 \<leftarrow> load_list (n_invites g);
     l2 \<leftarrow> load_list (nr_invites g);
     l3 \<leftarrow> load_list (s_invites g);
     l4 \<leftarrow> load_list (sr_invites g);
     l5 \<leftarrow> load_list (n_bars g);
     l6 \<leftarrow> load_list (n_nr_bars g);
     l7 \<leftarrow> load_list (s_bars g);
     l8 \<leftarrow> load_list (s_nr_bars g);
     l9 \<leftarrow> load_list (n_talk g);
     l10 \<leftarrow> load_list (nr_talk g);
     msize \<leftarrow> scan_j;
     idleboot \<leftarrow> scan_j;
     idleboot_msg \<leftarrow> read_str IDLEBOOT_MSG_LEN;
     idlemod \<leftarrow> scan_j;
     State_Monad.return (g\<lparr>g_name := name, g_topic := topic, g_visibility := visibility, g_control := control,
       g_mod := md, g_modtimeout := modtimeout, g_missingmod := missingmod, g_volume := volume,
       n_invites := l1, nr_invites := l2, s_invites := l3, sr_invites := l4, n_bars := l5, n_nr_bars := l6,
       s_bars := l7, s_nr_bars := l8, n_talk := l9, nr_talk := l10, g_size := msize, g_idleboot := idleboot,
       g_idleboot_msg := idleboot_msg, g_idlemod := idlemod\<rparr>) }"

text \<open>
  \<open>pktserv_loadsockets\<close> reads the number of sockets, one number in each turn of its loop and two more.
  The number of turns is an argument (theory \<open>PktServ\<close> has what the packet layer does with the numbers).
  The entries of \<open>S_kill\<close> are of type \<open>short\<close>.
\<close>

definition to_int16 :: "int \<Rightarrow> int" where
  "to_int16 v = (v + 2 ^ 15) mod 2 ^ 16 - 2 ^ 15"

definition load_tables :: "nat \<Rightarrow> srv \<Rightarrow> (loader, int list \<times> user_item list \<times> group_item list) state" where
  "load_tables turns st = do {
     _ \<leftarrow> traverse_list (\<lambda>_. scan_j) [0..<turns + 3];
     kills \<leftarrow> traverse_list (\<lambda>_. scan_k) (S_kill st);
     us \<leftarrow> traverse_list load_user (u_tab st);
     gs \<leftarrow> traverse_list load_group (g_tab st);
     State_Monad.return (map to_int16 kills, us, gs) }"

text \<open>The file is removed once it is loaded.\<close>

definition icbload :: "nat \<Rightarrow> string option \<Rightarrow> srv \<Rightarrow> string option \<times> srv" where
  "icbload turns file st =
     (case file of
        None \<Rightarrow> (None, st)
      | Some text \<Rightarrow>
          (let st = clear_users (init_groups st);
               ((kills, us, gs), l) = run_state (load_tables turns st)
                 \<lparr>l_text = text, l_name = None, l_j = None, l_k = None, l_bad = False\<rparr>
           in (None, flag_fault (l_bad l) (st\<lparr>S_kill := kills, u_tab := us, g_tab := gs\<rparr>))))"


text \<open>\<open>main\<close> for a restart, up to the event loop.\<close>

definition server_restart :: "bool \<Rightarrow> nat \<Rightarrow> string option \<Rightarrow> srv \<Rightarrow> srv" where
  "server_restart quiet turns file st =
     (let st = clear_users (init_groups st);
          st = snd (icbload turns file st);
          st = fold (\<lambda>i st. if u_login (usr st i) > LOGIN_FALSE \<and> (\<not> quiet \<or> strcaseeq (u_nickname (usr st i)) ''admin'')
                             then sendimport i (if quiet then ''Quiet-Restart'' else ''Restart'') ''Server is back up.'' st
                             else st) [0..MAX_USERS st - 1] st
      in st\<lparr>lpriv_id := map (\<lambda>_. -1) (lpriv_id st), pong_req := map (\<lambda>_. -1) (pong_req st),
            ping_time := map (\<lambda>_. 0) (ping_time st)\<rparr>)"

section \<open>Reading back what was written\<close>

text \<open>
  \<open>parses b p s x\<close>: the reader \<open>p\<close> takes exactly the text \<open>s\<close> from the file and returns \<open>x\<close>, whatever
  follows; after a number (\<open>b\<close>) what follows must not begin with white space.
\<close>

definition heads :: "string \<Rightarrow> bool" where
  "heads s \<longleftrightarrow> s \<noteq> [] \<and> \<not> is_cspace (hd s)"

definition parses :: "bool \<Rightarrow> (loader, 'a) state \<Rightarrow> string \<Rightarrow> 'a \<Rightarrow> bool" where
  "parses b p s x \<longleftrightarrow> (\<forall>rest l. l_text l = s @ rest \<longrightarrow> (b \<longrightarrow> rest = [] \<or> heads rest) \<longrightarrow>
     (\<exists>l'. run_state p l = (x, l') \<and> l_text l' = rest \<and> l_bad l' = l_bad l))"

lemma heads_append: "heads s \<Longrightarrow> heads (s @ t)"
  by (simp add: heads_def)

lemma parses_bind:
  assumes "parses b p s x" "parses c (q x) t y" "b \<Longrightarrow> heads t"
  shows "parses c (p \<bind> q) (s @ t) y"
  unfolding parses_def
proof (intro allI impI)
  fix rest and l :: loader
  assume l: "l_text l = (s @ t) @ rest" and r: "c \<longrightarrow> rest = [] \<or> heads rest"
  then obtain l1 where l1: "run_state p l = (x, l1)" "l_text l1 = t @ rest" "l_bad l1 = l_bad l"
    using assms(1) heads_append [OF assms(3)] unfolding parses_def by (metis append_assoc)
  then obtain l2 where "run_state (q x) l1 = (y, l2)" "l_text l2 = rest" "l_bad l2 = l_bad l"
    using assms(2) r unfolding parses_def by metis
  with l1 show "\<exists>l'. run_state (p \<bind> q) l = (y, l') \<and> l_text l' = rest \<and> l_bad l' = l_bad l"
    by (simp add: run_state_bind)
qed

lemma parses_return: "parses b p s x \<Longrightarrow> parses b (p \<bind> (\<lambda>x. State_Monad.return (f x))) s (f x)"
  by (fastforce simp: parses_def run_state_bind)

lemma parses_end:
  assumes "parses b p s x" "parses False (q x) [] y"
  shows "parses b (p \<bind> q) s y"
  unfolding parses_def
proof (intro allI impI)
  fix rest and l :: loader
  assume "l_text l = s @ rest" "b \<longrightarrow> rest = [] \<or> heads rest"
  then obtain l1 where l1: "run_state p l = (x, l1)" "l_text l1 = rest" "l_bad l1 = l_bad l"
    using assms(1) unfolding parses_def by blast
  moreover from l1 obtain l2 where "run_state (q x) l1 = (y, l2)" "l_text l2 = rest" "l_bad l2 = l_bad l"
    using assms(2) unfolding parses_def by (metis append_Nil)
  ultimately show "\<exists>l'. run_state (p \<bind> q) l = (y, l') \<and> l_text l' = rest \<and> l_bad l' = l_bad l" by simp
qed

lemma parses_run:
  assumes "parses b p s x"
  obtains l where "run_state p \<lparr>l_text = s, l_name = nm, l_j = j, l_k = k, l_bad = False\<rparr> = (x, l)" "\<not> l_bad l"
proof -
  let ?l = "\<lparr>l_text = s, l_name = nm, l_j = j, l_k = k, l_bad = False\<rparr>"
  have "l_text ?l = s @ []" by simp
  with assms obtain l' where "run_state p ?l = (x, l')" "l_bad l' = l_bad ?l" unfolding parses_def by blast
  then show thesis using that by simp
qed

lemma parses_weaken: "parses False p s x \<Longrightarrow> parses True p s x"
  by (simp add: parses_def)

subsection \<open>Numbers\<close>

lemma heads_put_int: "heads (put_int k @ t)"
proof -
  have "\<not> is_cspace c" if "is_digit c" for c using that by (auto simp: is_digit_def is_cspace_def)
  then show ?thesis using hd_dec_nat by (auto simp: heads_def put_int_def dec_int_def is_cspace_def)
qed

lemma digits_val_append: "(\<forall>c \<in> set ds. is_digit c) \<Longrightarrow> rest = [] \<or> \<not> is_digit (hd rest) \<Longrightarrow> digits_val (ds @ rest) = digits_val ds"
  by (cases rest) (simp_all add: digits_val_def takeWhile_append takeWhile_eq_all_conv [THEN iffD2])

lemma fscanf_put_int:
  assumes "rest = [] \<or> heads rest"
  shows "fscanf_int (put_int k @ rest) = (Some k, rest)"
proof -
  have rest: "dropWhile is_cspace (NL # rest) = rest" using assms by (cases rest) (auto simp: heads_def is_cspace_def)
  have nl: "\<not> is_digit NL" by (simp add: is_digit_def)
  have nat: "takeWhile is_digit (dec_nat n @ NL # rest) = dec_nat n" "dropWhile is_digit (dec_nat n @ NL # rest) = NL # rest"
      "digits_val (dec_nat n @ NL # rest) = int n" for n
    using dec_nat_digits [of n] nl
    by (simp_all add: takeWhile_append dropWhile_append digits_val_append digits_val_dec_nat)
  obtain c cs where c: "dec_nat (nat k) = c # cs" by (meson dec_nat_ne list.exhaust)
  then have "is_digit c" using hd_dec_nat [of "nat k"] by simp
  then have "\<not> is_cspace c" "c \<noteq> CHR ''-''" "c \<noteq> CHR ''+''" by (auto simp: is_digit_def is_cspace_def)
  then show ?thesis
    using nat [of "nat k"] nat [of "nat (- k)"] rest c
    by (auto simp: fscanf_int_def put_int_def dec_int_def Let_def is_cspace_def)
qed

lemma parses_j: "- (2 ^ 31) \<le> k \<Longrightarrow> k < 2 ^ 31 \<Longrightarrow> parses True scan_j (put_int k) k"
  by (simp add: parses_def scan_j_def fscanf_put_int to_int32_id)

lemma parses_k: "- (2 ^ 63) \<le> k \<Longrightarrow> k < 2 ^ 63 \<Longrightarrow> parses True scan_k (put_int k) k"
  by (simp add: parses_def scan_k_def fscanf_put_int clamp_long_def)

subsection \<open>Strings\<close>

definition str_ok :: "nat \<Rightarrow> cstring \<Rightarrow> bool" where
  "str_ok sz s \<longleftrightarrow> length s < sz \<and> length s \<le> 253 \<and> NL \<notin> set s \<and> CHR 0x00 \<notin> set s"

definition unled :: "cstring \<Rightarrow> bool" where
  "unled s \<longleftrightarrow> s = [] \<or> \<not> is_cspace (hd s)"

lemma heads_put_str: "unled s \<Longrightarrow> heads (put_str s @ t)"
  by (cases s) (auto simp: heads_def put_str_def unled_def is_cspace_def)

lemma fgets_put_str: "str_ok sz s \<Longrightarrow> fgets 256 (put_str s @ rest) = (put_str s, rest)"
proof -
  assume ok: "str_ok sz s"
  then have "takeWhile (\<lambda>c. c \<noteq> NL) (s @ CHR ''X'' # NL # rest) = s @ [CHR ''X'']"
    by (subst takeWhile_append2) (auto simp: str_ok_def)
  moreover have "min (255 - length s) 2 = 2" using ok by (auto simp: str_ok_def min_def)
  ultimately show ?thesis by (simp add: fgets_def put_str_def Let_def)
qed

lemma parses_str: "str_ok sz s \<Longrightarrow> parses False (read_str sz) (put_str s) s"
proof -
  assume ok: "str_ok sz s"
  have "c_str (put_str s) = put_str s" using ok by (intro c_str_id) (auto simp: put_str_def str_ok_def)
  moreover have "put_str s \<noteq> []" "length (put_str s) = length s + 2" "take (length s) (put_str s) = s" by (simp_all add: put_str_def)
  ultimately show ?thesis using ok fgets_put_str [OF ok] by (simp add: parses_def read_str_def Let_def) (simp add: str_ok_def)
qed


subsection \<open>Lists of names\<close>

definition names_ok :: "cstring list \<Rightarrow> bool" where
  "names_ok ss \<longleftrightarrow> list_all (str_ok 256) ss \<and> (ss \<noteq> [] \<longrightarrow> unled (hd ss))"

definition relist :: "nlist \<Rightarrow> nlist \<Rightarrow> nlist" where
  "relist l0 l = fold nl_put (read_list l) l0"

lemma length_read_list: "length (read_list l) = length (names l)"
proof -
  have "length (fst (nl_gets k l)) = k" for k l by (induction k l rule: nl_gets.induct) (auto split: prod.split)
  then show ?thesis by (simp add: read_list_def nl_count_def)
qed

lemma parses_names:
  "list_all (str_ok 256) ss \<Longrightarrow> parses False (put_names (length ss) l) (concat (map put_str ss)) (fold nl_put ss l)"
proof (induction ss arbitrary: l)
  case (Cons s ss)
  then show ?case using parses_bind [OF parses_str [of 256 s] Cons.IH] by simp
qed (simp add: parses_def)

lemma parses_load_list:
  assumes "names_ok (read_list l)" "nl_count l < 2 ^ 31"
  shows "parses True (load_list l0) (put_list l) (relist l0 l)"
proof -
  let ?ss = "read_list l" and ?t = "concat (map put_str (read_list l))"
  have j: "parses True scan_j (put_int (nl_count l)) (nl_count l)"
    using assms(2) by (intro parses_j) (simp_all add: nl_count_def)
  have n: "parses False (put_names (nat (nl_count l)) l0) ?t (relist l0 l)"
    using parses_names [of ?ss l0] assms length_read_list [of l] by (simp add: names_ok_def relist_def nl_count_def)
  have s: "parses False (set_j (min (nl_count l) 0) \<bind> (\<lambda>_. State_Monad.return (relist l0 l))) [] (relist l0 l)"
    by (simp add: parses_def set_j_def)
  show ?thesis
  proof (cases "?ss = []")
    case True
    then have z: "nl_count l = 0" using length_read_list [of l] by (simp add: nl_count_def)
    have "parses True (load_list l0) (put_int 0) l0"
      using j z by (simp add: load_list_def parses_def set_j_def) fastforce
    then show ?thesis using True z by (simp add: put_list_def relist_def)
  next
    case False
    then have "heads ?t" using assms(1) heads_put_str [of "hd ?ss" "concat (map put_str (tl ?ss))"]
      by (cases ?ss) (simp_all add: names_ok_def)
    then have "parses False (load_list l0) (put_list l) (relist l0 l)"
      unfolding load_list_def put_list_def by (intro parses_bind [OF j] parses_end [OF n] s)
    then show ?thesis by (rule parses_weaken)
  qed
qed

lemma heads_put_list: "heads (put_list l @ t)"
  by (simp add: put_list_def heads_put_int)

subsection \<open>Tables\<close>

text \<open>
  A table is written entry by entry and read into a table of the same size. An entry that is read back is made of the
  entry that was there and the one that was written.
\<close>

locale table_io =
  fixes put :: "'a \<Rightarrow> string" and get :: "'b \<Rightarrow> (loader, 'c) state" and new :: "'b \<Rightarrow> 'a \<Rightarrow> 'c" and ok :: "'a \<Rightarrow> bool"
  assumes entry: "ok x \<Longrightarrow> parses True (get x0) (put x) (new x0 x)"
    and begins: "ok x \<Longrightarrow> heads (put x)"
begin

lemma table: "length xs0 = length xs \<Longrightarrow> list_all ok xs \<Longrightarrow>
    parses True (traverse_list get xs0) (concat (map put xs)) (map2 new xs0 xs)"
proof (induction xs0 xs rule: list_induct2)
  case (Cons x0 xs0 x xs)
  have IH: "parses True (traverse_list get xs0 \<bind> (\<lambda>ys. State_Monad.return (new x0 x # ys)))
      (concat (map put xs)) (new x0 x # map2 new xs0 xs)"
    using parses_return [OF Cons.IH, of "(#) (new x0 x)"] Cons.prems by simp
  show ?case
  proof (cases xs)
    case Nil
    with Cons have "xs0 = []" by simp
    with Nil Cons.prems show ?thesis using parses_return [OF entry [of x x0], of "\<lambda>y. [y]"] by simp
  next
    case (Cons y ys)
    then have "heads (concat (map put xs))" using Cons.prems by (simp add: heads_append begins)
    then show ?thesis
      using Cons.prems by (auto intro!: parses_bind [OF entry, where q = "\<lambda>y. traverse_list get xs0 \<bind> (\<lambda>ys. State_Monad.return (y # ys))"] IH)
  qed
qed (simp add: parses_def)

lemma table_begins: "list_all ok xs \<Longrightarrow> xs \<noteq> [] \<Longrightarrow> heads (concat (map put xs))"
  by (cases xs) (simp_all add: heads_append begins)

end


definition int32_ok :: "int \<Rightarrow> bool" where
  "int32_ok k \<longleftrightarrow> - (2 ^ 31) \<le> k \<and> k < 2 ^ 31"

definition int64_ok :: "int \<Rightarrow> bool" where
  "int64_ok k \<longleftrightarrow> - (2 ^ 63) \<le> k \<and> k < 2 ^ 63"

definition list_ok :: "nlist \<Rightarrow> bool" where
  "list_ok l \<longleftrightarrow> names_ok (read_list l) \<and> nl_count l < 2 ^ 31"

text \<open>The entries that can be written and read back.\<close>

definition user_savable :: "user_item \<Rightarrow> bool" where
  "user_savable u \<longleftrightarrow> unled (u_loginid u) \<and> str_ok (MAX_IDLEN + 1) (u_loginid u) \<and> str_ok (MAX_NODELEN + 1) (u_nodeid u) \<and>
     str_ok (MAX_NICKLEN + 1) (u_nickname u) \<and> str_ok (MAX_PASSWDLEN + 1) (u_password u) \<and>
     str_ok (MAX_REALLEN + 1) (u_realname u) \<and> str_ok (MAX_GROUPLEN + 1) (u_group u) \<and>
     str_ok (MAX_AWAY_LEN + 1) (u_awaymsg u) \<and>
     list_all int32_ok [u_lastaway u, u_login u, u_echoback u, u_nobeep u, u_t_notify u] \<and>
     list_all int64_ok [u_lastawaytime u, u_perms u, u_t_on u, u_t_sent u, u_t_recv u, u_t_group u] \<and>
     list_all list_ok (user_lists u)"

definition group_savable :: "group_item \<Rightarrow> bool" where
  "group_savable g \<longleftrightarrow> unled (g_name g) \<and> unled (g_missingmod g) \<and> unled (g_idleboot_msg g) \<and>
     str_ok (MAX_GROUPLEN + 1) (g_name g) \<and> str_ok (MAX_TOPICLEN + 1) (g_topic g) \<and>
     str_ok (MAX_NICKLEN + 1) (g_missingmod g) \<and> str_ok IDLEBOOT_MSG_LEN (g_idleboot_msg g) \<and>
     list_all int32_ok [g_visibility g, g_control g, g_mod g, g_volume g, g_size g, g_idleboot g, g_idlemod g] \<and>
     int64_ok (g_modtimeout g) \<and> list_all list_ok (group_lists g)"

text \<open>What is read back: all but the time of the last away message, the kind of the connection and the order of the names.\<close>

definition reload_user :: "user_item \<Rightarrow> user_item \<Rightarrow> user_item" where
  "reload_user u0 u = u\<lparr>u_lastawaytime := u_lastaway u, u_secure := u_secure u0,
     pri_n_hushed := relist (pri_n_hushed u0) (pri_n_hushed u), pub_n_hushed := relist (pub_n_hushed u0) (pub_n_hushed u),
     pri_s_hushed := relist (pri_s_hushed u0) (pri_s_hushed u), pub_s_hushed := relist (pub_s_hushed u0) (pub_s_hushed u),
     n_notifies := relist (n_notifies u0) (n_notifies u), s_notifies := relist (s_notifies u0) (s_notifies u)\<rparr>"

definition reload_group :: "group_item \<Rightarrow> group_item \<Rightarrow> group_item" where
  "reload_group g0 g = g\<lparr>
     n_invites := relist (n_invites g0) (n_invites g), nr_invites := relist (nr_invites g0) (nr_invites g),
     s_invites := relist (s_invites g0) (s_invites g), sr_invites := relist (sr_invites g0) (sr_invites g),
     n_bars := relist (n_bars g0) (n_bars g), n_nr_bars := relist (n_nr_bars g0) (n_nr_bars g),
     s_bars := relist (s_bars g0) (s_bars g), s_nr_bars := relist (s_nr_bars g0) (s_nr_bars g),
     n_talk := relist (n_talk g0) (n_talk g), nr_talk := relist (nr_talk g0) (nr_talk g)\<rparr>"

lemmas parses_fields = parses_bind [OF parses_str] parses_bind [OF parses_j] parses_bind [OF parses_k]
  parses_bind [OF parses_load_list] parses_return [OF parses_load_list] parses_return [OF parses_j]

lemmas heads_fields = heads_put_int heads_put_str heads_put_list heads_put_list [where t = "[]", unfolded append_Nil2]

lemmas savable = user_savable_def group_savable_def user_lists_def group_lists_def int32_ok_def int64_ok_def list_ok_def

interpretation ut: table_io dump_user load_user reload_user user_savable
proof
  fix u u0
  assume ok: "user_savable u"
  have "reload_user u0 u = u0\<lparr>u_loginid := u_loginid u, u_nodeid := u_nodeid u, u_nickname := u_nickname u, u_password := u_password u,
       u_realname := u_realname u, u_group := u_group u, u_awaymsg := u_awaymsg u, u_lastaway := u_lastaway u,
       u_lastawaytime := u_lastaway u, u_login := u_login u, u_echoback := u_echoback u, u_nobeep := u_nobeep u, u_perms := u_perms u,
       u_t_notify := u_t_notify u, u_t_on := u_t_on u, u_t_sent := u_t_sent u, u_t_recv := u_t_recv u, u_t_group := u_t_group u,
       pri_n_hushed := relist (pri_n_hushed u0) (pri_n_hushed u), pub_n_hushed := relist (pub_n_hushed u0) (pub_n_hushed u),
       pri_s_hushed := relist (pri_s_hushed u0) (pri_s_hushed u), pub_s_hushed := relist (pub_s_hushed u0) (pub_s_hushed u),
       n_notifies := relist (n_notifies u0) (n_notifies u), s_notifies := relist (s_notifies u0) (s_notifies u)\<rparr>"
    by (simp add: reload_user_def)
  then show "parses True (load_user u0) (dump_user u) (reload_user u0 u)"
    unfolding load_user_def dump_user_def
    using ok by (simp only:) (intro parses_fields heads_fields, simp_all add: savable)
  show "heads (dump_user u)" using ok by (simp add: dump_user_def heads_put_str user_savable_def)
qed

interpretation gt: table_io dump_group load_group reload_group group_savable
proof
  fix g g0
  assume ok: "group_savable g"
  have "reload_group g0 g = g0\<lparr>g_name := g_name g, g_topic := g_topic g, g_visibility := g_visibility g, g_control := g_control g,
       g_mod := g_mod g, g_modtimeout := g_modtimeout g, g_missingmod := g_missingmod g, g_volume := g_volume g,
       n_invites := relist (n_invites g0) (n_invites g), nr_invites := relist (nr_invites g0) (nr_invites g),
       s_invites := relist (s_invites g0) (s_invites g), sr_invites := relist (sr_invites g0) (sr_invites g),
       n_bars := relist (n_bars g0) (n_bars g), n_nr_bars := relist (n_nr_bars g0) (n_nr_bars g),
       s_bars := relist (s_bars g0) (s_bars g), s_nr_bars := relist (s_nr_bars g0) (s_nr_bars g),
       n_talk := relist (n_talk g0) (n_talk g), nr_talk := relist (nr_talk g0) (nr_talk g), g_size := g_size g,
       g_idleboot := g_idleboot g, g_idleboot_msg := g_idleboot_msg g, g_idlemod := g_idlemod g\<rparr>"
    by (simp add: reload_group_def)
  then show "parses True (load_group g0) (dump_group g) (reload_group g0 g)"
    unfolding load_group_def dump_group_def
    using ok by (simp only:) (intro parses_fields heads_fields, simp_all add: savable)
  show "heads (dump_group g)" using ok by (simp add: dump_group_def heads_put_str group_savable_def)
qed

interpretation jt: table_io put_int "\<lambda>_. scan_j" "\<lambda>_ k. k" int32_ok
  by unfold_locales (use heads_put_int [where t = "[]"] in \<open>auto simp: int32_ok_def parses_j\<close>)

interpretation kt: table_io put_int "\<lambda>_. scan_k" "\<lambda>_ k. k" int64_ok
  by unfold_locales (use heads_put_int [where t = "[]"] in \<open>auto simp: int64_ok_def parses_k\<close>)


section \<open>The name lists\<close>

lemma nl_gets_part:
  "cursor l + k < length (names l) \<Longrightarrow> nl_gets k l = (take k (drop (cursor l) (names l)), l\<lparr>cursor := cursor l + k\<rparr>)"
proof (induction k arbitrary: l)
  case (Suc k)
  then have c: "cursor l < length (names l)" "Suc (cursor l) \<noteq> length (names l)" by simp_all
  then show ?case
    using Suc.IH [of "l\<lparr>cursor := Suc (cursor l)\<rparr>"] Suc.prems Cons_nth_drop_Suc [OF c(1)]
    by (simp add: nl_get_def) (metis take_Suc_Cons)
qed simp

lemma nl_gets_add: "nl_gets (j + k) l = (let (xs, l) = nl_gets j l; (ys, l) = nl_gets k l in (xs @ ys, l))"
  by (induction j arbitrary: l) (auto simp: Let_def split: prod.split)

lemma read_list_rotate: "nl_ok l \<Longrightarrow> read_list l = drop (cursor l) (names l) @ take (cursor l) (names l)"
proof (cases "names l = []")
  case False
  assume "nl_ok l"
  with False have c: "cursor l < length (names l)" by (simp add: nl_ok_def)
  let ?j = "length (names l) - cursor l"
  have "nl_gets ?j l = (drop (cursor l) (names l), l\<lparr>cursor := 0\<rparr>)" using c by (intro nl_gets_from) simp_all
  moreover have "nl_gets (cursor l) (l\<lparr>cursor := 0\<rparr>) = (take (cursor l) (names l), l)"
    using nl_gets_part [of "l\<lparr>cursor := 0\<rparr>" "cursor l"] c by simp
  ultimately have "nl_gets (?j + cursor l) l = (drop (cursor l) (names l) @ take (cursor l) (names l), l)"
    by (simp add: nl_gets_add)
  then show ?thesis using c by (simp add: read_list_def nl_count_def)
qed (simp add: read_list_def nl_count_def)

lemma names_puts:
  "distinct (map (map tolower) (rev ss @ names l)) \<Longrightarrow> int (length ss + length (names l)) \<le> limit l \<Longrightarrow>
   names (fold nl_put ss l) = rev ss @ names l"
proof (induction ss arbitrary: l)
  case (Cons s ss)
  have "\<not> nl_present s l" using Cons.prems(1) by (auto simp: nl_present_def strcaseeq_def)
  then have "names (nl_put s l) = s # names l" using Cons.prems(2) by (simp add: nl_put_new nl_count_def)
  then show ?case using Cons.IH [of "nl_put s l"] Cons.prems by simp
qed simp

lemma names_relist:
  assumes "nl_ok l" "names l0 = []" "nl_count l \<le> limit l0"
  shows "names (relist l0 l) = rev (read_list l)" "mset (names (relist l0 l)) = mset (names l)"
proof -
  have m: "mset (read_list l) = mset (names l)"
    using read_list_rotate [OF assms(1)] by (metis append_take_drop_id mset_append union_commute)
  then have "distinct (map (map tolower) (rev (read_list l)))"
    using assms(1) unfolding nl_ok_def by (metis mset_eq_imp_distinct_iff mset_map mset_rev)
  then show "names (relist l0 l) = rev (read_list l)"
    using names_puts [of "read_list l" l0] assms(2,3) by (simp add: relist_def length_read_list nl_count_def)
  then show "mset (names (relist l0 l)) = mset (names l)" using m by simp
qed

section \<open>The empty tables\<close>

definition blank :: "user_item \<Rightarrow> bool" where
  "blank u \<longleftrightarrow> u_secure u = 0 \<and> list_all (\<lambda>l. names l = [] \<and> limit l = MAX_HUSHED) (user_lists u)"

lemma blank_cleared: "blank (cleared_user (init_user u))"
  by (simp add: blank_def cleared_user_def init_user_def user_lists_def nl_clear_def nl_init_def)

lemma clear_users_fold:
  assumes "list_all (\<lambda>i. in_tab i (u_tab st)) is"
  defines "s \<equiv> fold (\<lambda>i st. clear_user_item i (upd_u i init_user st)) is st"
  shows "length (u_tab s) = length (u_tab st) \<and> g_tab s = g_tab st \<and> length (S_kill s) = length (S_kill st) \<and>
    fault s = fault st \<and> (\<forall>k < length (u_tab st). int k \<in> set is \<or> blank (u_tab st ! k) \<longrightarrow> blank (u_tab s ! k))"
  using assms(1) unfolding s_def
proof (induction "is" arbitrary: st)
  case (Cons i "is")
  let ?s = "clear_user_item i (upd_u i init_user st)"
  have i: "in_tab i (u_tab st)" "in_tab i (u_tab (upd_u i init_user st))" using Cons.prems by simp_all
  note t = clear_user_item_tabs [OF i(2)]
  have u: "u_tab ?s = (u_tab st)[nat i := cleared_user (init_user (usr st i))]"
    using t(1) i(1) by (simp add: u_tab_upd_u)
  have b: "blank (u_tab ?s ! k)" if "k < length (u_tab st)" "int k = i \<or> blank (u_tab st ! k)" for k
    using that u by (cases "nat i = k") (auto simp: blank_cleared)
  have "list_all (\<lambda>i. in_tab i (u_tab ?s)) is" using Cons.prems u by (simp add: in_tab_def)
  from Cons.IH [OF this] show ?case using t(2,3,7) u i(1) b by auto
qed simp

lemma clear_users_empty:
  defines "s \<equiv> \<lambda>st. clear_users (init_groups st)"
  shows "length (u_tab (s st)) = length (u_tab st)" "g_tab (s st) = map init_group (g_tab st)"
    "length (S_kill (s st)) = length (S_kill st)" "fault (s st) = fault st"
    "k < length (u_tab st) \<Longrightarrow> blank (u_tab (s st) ! k)"
  using clear_users_fold [of "init_groups st" "[0..MAX_USERS (init_groups st) - 1]"]
  by (auto simp: s_def clear_users_def init_groups_def list_all_iff in_tab_def)

section \<open>The round trip\<close>

lemma to_int16_id: "- (2 ^ 15) \<le> v \<Longrightarrow> v < 2 ^ 15 \<Longrightarrow> to_int16 v = v"
  by (simp add: to_int16_def)


definition lists_fit :: "int \<Rightarrow> nlist list \<Rightarrow> bool" where
  "lists_fit m ls \<longleftrightarrow> list_all (\<lambda>l. nl_ok l \<and> nl_count l \<le> m) ls"

definition saves :: "srv \<Rightarrow> bool" where
  "saves st \<longleftrightarrow> u_tab st \<noteq> [] \<and> g_tab st \<noteq> [] \<and> length (S_kill st) = length (u_tab st) \<and>
     list_all (\<lambda>k. - (2 ^ 15) \<le> k \<and> k < 2 ^ 15) (S_kill st) \<and>
     list_all (\<lambda>u. user_savable u \<and> lists_fit MAX_HUSHED (user_lists u)) (u_tab st) \<and>
     list_all (\<lambda>g. group_savable g \<and> lists_fit MAX_INVITES (group_lists g)) (g_tab st)"

definition same_names :: "nlist \<Rightarrow> nlist \<Rightarrow> bool" where
  "same_names l l' \<longleftrightarrow> names l' = rev (read_list l) \<and> mset (names l') = mset (names l)"

text \<open>An entry and what it is after the restart.\<close>

definition same_user :: "user_item \<Rightarrow> user_item \<Rightarrow> bool" where
  "same_user u v \<longleftrightarrow> u_lastawaytime v = u_lastaway u \<and> u_secure v = 0 \<and> list_all2 same_names (user_lists u) (user_lists v) \<and>
     v\<lparr>u_lastawaytime := u_lastawaytime u, u_secure := u_secure u, pri_n_hushed := pri_n_hushed u, pub_n_hushed := pub_n_hushed u,
       pri_s_hushed := pri_s_hushed u, pub_s_hushed := pub_s_hushed u, n_notifies := n_notifies u, s_notifies := s_notifies u\<rparr> = u"

definition same_group :: "group_item \<Rightarrow> group_item \<Rightarrow> bool" where
  "same_group g h \<longleftrightarrow> list_all2 same_names (group_lists g) (group_lists h) \<and>
     h\<lparr>n_invites := n_invites g, nr_invites := nr_invites g, s_invites := s_invites g, sr_invites := sr_invites g,
       n_bars := n_bars g, n_nr_bars := n_nr_bars g, s_bars := s_bars g, s_nr_bars := s_nr_bars g,
       n_talk := n_talk g, nr_talk := nr_talk g\<rparr> = g"

lemma same_names_relist: "nl_ok l \<Longrightarrow> names l0 = [] \<Longrightarrow> nl_count l \<le> limit l0 \<Longrightarrow> same_names l (relist l0 l)"
  using names_relist [of l l0] by (simp add: same_names_def)

lemma same_user_reload: "blank u0 \<Longrightarrow> lists_fit MAX_HUSHED (user_lists u) \<Longrightarrow> same_user u (reload_user u0 u)"
  by (simp add: same_user_def reload_user_def blank_def lists_fit_def user_lists_def same_names_relist)

lemma same_group_reload: "lists_fit MAX_INVITES (group_lists g) \<Longrightarrow> same_group g (reload_group (init_group g0) g)"
  by (simp add: same_group_def reload_group_def lists_fit_def group_lists_def same_names_relist
      init_group_def cleared_group_def nl_clear_def nl_init_def)

lemma load_tables_dump:
  assumes "saves st" "list_all int32_ok sockets" "length sockets = turns + 3"
    and "length (S_kill s) = length (S_kill st)" "length (u_tab s) = length (u_tab st)" "length (g_tab s) = length (g_tab st)"
  shows "parses True (load_tables turns s) (the (icbdump True sockets st old))
    (S_kill st, map2 reload_user (u_tab s) (u_tab st), map2 reload_group (g_tab s) (g_tab st))"
proof -
  have k: "list_all int64_ok (S_kill st)" "map to_int16 (S_kill st) = S_kill st" "S_kill st \<noteq> []"
    using assms(1) by (auto simp: saves_def list_all_iff int64_ok_def to_int16_id intro!: map_idI)
  have u: "list_all user_savable (u_tab st)" "u_tab st \<noteq> []" and g: "list_all group_savable (g_tab st)" "g_tab st \<noteq> []"
    using assms(1) by (auto simp: saves_def list_all_iff)
  have ret: "map2 (\<lambda>_ k. k) xs ys = ys" if "length xs = length ys" for xs :: "'x list" and ys :: "int list"
    using that by (induction xs ys rule: list_induct2) simp_all
  have p1: "parses True (traverse_list (\<lambda>_. scan_j) [0..<turns + 3]) (concat (map put_int sockets)) sockets"
    using jt.table [of "[0..<turns + 3]" sockets] ret [of "[0..<turns + 3]" sockets] assms(2,3) by simp
  have p2: "parses True (traverse_list (\<lambda>_. scan_k) (S_kill s)) (concat (map put_int (S_kill st))) (S_kill st)"
    using kt.table [of "S_kill s" "S_kill st"] ret [of "S_kill s" "S_kill st"] assms(4) k(1) by simp
  have "parses True (load_tables turns s) (the (icbdump True sockets st old))
      (map to_int16 (S_kill st), map2 reload_user (u_tab s) (u_tab st), map2 reload_group (g_tab s) (g_tab st))"
    unfolding load_tables_def icbdump_def option.sel simp_thms if_False
    by (intro parses_bind [OF p1] parses_bind [OF p2] parses_bind [OF ut.table [OF assms(5) u(1)]]
        parses_return [OF gt.table [OF assms(6) g(1)]]
        gt.table_begins g heads_append [OF ut.table_begins] heads_append [OF kt.table_begins] u k)
  then show ?thesis using k(2) by simp
qed


lemma load_dump:
  fixes old :: "string option"
  assumes "saves st" "list_all int32_ok sockets" "length sockets = turns + 3"
    and "length (S_kill st0) = length (S_kill st)" "length (u_tab st0) = length (u_tab st)" "length (g_tab st0) = length (g_tab st)"
  defines "new \<equiv> snd (icbload turns (icbdump True sockets st old) st0)"
  shows "S_kill new = S_kill st \<and> list_all2 same_user (u_tab st) (u_tab new) \<and> list_all2 same_group (g_tab st) (g_tab new) \<and>
    fault new = fault st0"
proof -
  define s where "s = clear_users (init_groups st0)"
  note e = clear_users_empty [where st = st0, folded s_def]
  let ?us = "map2 reload_user (u_tab s) (u_tab st)" and ?gs = "map2 reload_group (g_tab s) (g_tab st)"
  have "length (S_kill s) = length (S_kill st)" "length (u_tab s) = length (u_tab st)" "length (g_tab s) = length (g_tab st)"
    using e(1-3) assms(4-6) by simp_all
  from parses_run [OF load_tables_dump [OF assms(1-3) this]] obtain l where l: "run_state (load_tables turns s)
      \<lparr>l_text = the (icbdump True sockets st old), l_name = None, l_j = None, l_k = None, l_bad = False\<rparr> =
      ((S_kill st, ?us, ?gs), l)" "\<not> l_bad l"
    by blast
  then have new: "new = flag_fault False (s\<lparr>S_kill := S_kill st, u_tab := ?us, g_tab := ?gs\<rparr>)"
    by (simp add: new_def icbload_def icbdump_def s_def [symmetric] Let_def)
  have "list_all2 same_user (u_tab st) ?us"
    using assms(1,5) e(1) e(5) by (auto simp: list_all2_conv_all_nth saves_def list_all_length intro: same_user_reload)
  moreover have "list_all2 same_group (g_tab st) ?gs"
    using assms(1,6) e(2) by (auto simp: list_all2_conv_all_nth saves_def list_all_length intro: same_group_reload)
  ultimately show ?thesis using new e(4) by simp
qed

lemma same_user_nick: "same_user u v \<Longrightarrow> u_nickname v = u_nickname u"
proof -
  assume "same_user u v"
  then have "u_nickname (v\<lparr>u_lastawaytime := u_lastawaytime u, u_secure := u_secure u, pri_n_hushed := pri_n_hushed u,
      pub_n_hushed := pub_n_hushed u, pri_s_hushed := pri_s_hushed u, pub_s_hushed := pub_s_hushed u,
      n_notifies := n_notifies u, s_notifies := s_notifies u\<rparr>) = u_nickname u" unfolding same_user_def by metis
  then show ?thesis by simp
qed

lemma restart_nicks: "nicks (server_restart quiet turns file st) = nicks (snd (icbload turns file (clear_users (init_groups st))))"
  unfolding server_restart_def Let_def nicks_fields by (intro nm.P_fold nm.P_if nm.P_senders) (assumption | rule refl)+



end
