(* ===== verification/NetName.thy ===== *)
theory NetName
  imports Server
begin

text \<open>
  \<open>pktserv/getrname.c\<close> (with the double lookup, as in the default configuration) and \<open>get_ipv4_addr\<close> of
  \<open>server/msgs.c\<close>: the name and the address of the other end of a connection. The answers of the
  resolver are a parameter. \<open>set_peers\<close> puts what the functions return where the server's model has it, in
  \<open>remotename\<close> and \<open>peer_v4\<close>.
\<close>

section \<open>Addresses\<close>

text \<open>The address in network order: 4 bytes, or 16 bytes; other families have none.\<close>

datatype sockaddr = AF_INET "nat list" | AF_INET6 "nat list" | AF_OTHER

text \<open>The value of an address in memory on a machine that stores the lowest byte first.\<close>

definition s_addr :: "nat list \<Rightarrow> nat" where
  "s_addr bs = foldr (\<lambda>b v. b + 256 * v) bs 0"

definition v4_mapped :: "nat list \<Rightarrow> bool" where
  "v4_mapped bs \<longleftrightarrow> take 12 bs = replicate 10 0 @ [255, 255]"

definition get_ipv4_addr :: "sockaddr \<Rightarrow> nat option" where
  "get_ipv4_addr sa =
     (case sa of
        AF_INET bs \<Rightarrow> Some (s_addr bs)
      | AF_INET6 bs \<Rightarrow> if v4_mapped bs then Some (s_addr (drop 12 bs)) else None
      | AF_OTHER \<Rightarrow> None)"

section \<open>Names\<close>

text \<open>
  The resolver: the address of the peer of a descriptor, the numeric form of an address, the name of an address, and
  the addresses of a name in the family of a given address.
\<close>

record resolver =
  r_peer :: "int \<Rightarrow> sockaddr option"
  r_local :: "int \<Rightarrow> sockaddr option"
  r_numeric :: "sockaddr \<Rightarrow> cstring option"
  r_name :: "sockaddr \<Rightarrow> cstring option"
  r_addrs :: "sockaddr \<Rightarrow> cstring \<Rightarrow> sockaddr list option"

definition RNAME_LEN :: nat where "RNAME_LEN = 256"

text \<open>The buffer for the numeric form has 253 bytes, the one for a name has room for every name.\<close>

definition addr_to_numeric :: "resolver \<Rightarrow> nat \<Rightarrow> sockaddr \<Rightarrow> cstring option" where
  "addr_to_numeric r buflen sa =
     (case r_numeric r sa of None \<Rightarrow> None | Some s \<Rightarrow> if length s < buflen then Some s else None)"

definition NI_MAXHOST :: nat where "NI_MAXHOST = 1025"

fun any_match :: "resolver \<Rightarrow> cstring \<Rightarrow> sockaddr list \<Rightarrow> bool" where
  "any_match r orig [] = False"
| "any_match r orig (a # as) =
     (case addr_to_numeric r NI_MAXHOST a of
        None \<Rightarrow> any_match r orig as
      | Some cand \<Rightarrow> if orig = cand then True else any_match r orig as)"

definition double_reverse_check_sa :: "resolver \<Rightarrow> nat \<Rightarrow> sockaddr \<Rightarrow> cstring option" where
  "double_reverse_check_sa r hostbuflen sa =
     (case r_name r sa of
        None \<Rightarrow> None
      | Some host \<Rightarrow>
          (case r_addrs r sa host of
             None \<Rightarrow> None
           | Some res \<Rightarrow>
               (case addr_to_numeric r NI_MAXHOST sa of
                  None \<Rightarrow> None
                | Some orig \<Rightarrow> if any_match r orig res then Some (snprintf hostbuflen host) else None)))"

definition numerichost :: "resolver \<Rightarrow> sockaddr \<Rightarrow> cstring" where
  "numerichost r sa = (case addr_to_numeric r (RNAME_LEN - 3) sa of None \<Rightarrow> ''(unknown)'' | Some s \<Rightarrow> s)"

definition bracketed :: "resolver \<Rightarrow> sockaddr \<Rightarrow> cstring" where
  "bracketed r sa = snprintf RNAME_LEN (''['' @ numerichost r sa @ '']'')"

definition getremotename :: "resolver \<Rightarrow> int \<Rightarrow> cstring option" where
  "getremotename r socketfd =
     (case r_peer r socketfd of
        None \<Rightarrow> None
      | Some sa \<Rightarrow>
          (case double_reverse_check_sa r RNAME_LEN sa of
             Some host \<Rightarrow> Some host
           | None \<Rightarrow> Some (bracketed r sa)))"

text \<open>\<open>getnameinfo\<close> fails for a name that does not fit the buffer.\<close>

definition getlocalname :: "resolver \<Rightarrow> int \<Rightarrow> cstring option" where
  "getlocalname r socketfd =
     (case r_local r socketfd of
        None \<Rightarrow> None
      | Some sa \<Rightarrow>
          (case r_name r sa of
             Some host \<Rightarrow> if length host < RNAME_LEN then Some host else Some (bracketed r sa)
           | None \<Rightarrow> Some (bracketed r sa)))"

definition set_peers :: "resolver \<Rightarrow> srv \<Rightarrow> srv" where
  "set_peers r st = st\<lparr>remotename := getremotename r,
     world := (world st)\<lparr>peer_v4 := \<lambda>n. map_option get_ipv4_addr (r_peer r n)\<rparr>\<rparr>"

section \<open>Properties\<close>

lemma any_match_ex: "any_match r orig as \<longleftrightarrow> (\<exists>a \<in> set as. addr_to_numeric r NI_MAXHOST a = Some orig)"
  by (induction "as") (auto split: option.split)

lemma bracketed_hd: "take 1 (bracketed r sa) = ''[''"
  by (simp add: bracketed_def snprintf_def RNAME_LEN_def)


lemma ipv4_mapped: "length bs = 4 \<Longrightarrow> get_ipv4_addr (AF_INET6 (replicate 10 0 @ [255, 255] @ bs)) = get_ipv4_addr (AF_INET bs)"
  by (simp add: get_ipv4_addr_def v4_mapped_def)

text \<open>
  C13 (the host of a user): the host name that a new connection is recorded with, on which the authentication by address
  and the files of permissions and refused addresses rely, is at most 64 characters of either a name
  that the resolver gave for the address of the peer and that resolves to an address with the same numeric form,
  or the numeric form itself in brackets. A peer cannot take another host's name by its own reverse lookup.\<close>

theorem remote_host_verified:
  fixes secure :: int
  assumes "net_ok st" "in_tab n (u_tab st)" "r_peer r n = Some sa" "r_name r sa \<noteq> Some []"
  defines "node \<equiv> u_nodeid (usr (s_new_user n secure (set_peers r st)) n)"
  shows "node = take MAX_NODELEN (bracketed r sa) \<or>
    (\<exists>h as a. r_name r sa = Some h \<and> r_addrs r sa h = Some as \<and> a \<in> set as \<and>
       r_numeric r sa \<noteq> None \<and> r_numeric r a = r_numeric r sa \<and> node = take MAX_NODELEN h)"
proof -
  let ?s = "set_peers r st"
  obtain host where host: "getremotename r n = Some host" using assms(3) by (cases "double_reverse_check_sa r RNAME_LEN sa") (simp_all add: getremotename_def)
  have net: "net_ok ?s" using assms(1) by (simp add: net_ok_def set_peers_def)
  have ver: "host = bracketed r sa \<or> (\<exists>h as orig. r_name r sa = Some h \<and> r_addrs r sa h = Some as \<and>
      addr_to_numeric r NI_MAXHOST sa = Some orig \<and> any_match r orig as \<and> host = snprintf RNAME_LEN h)"
    using host assms(3) by (auto simp: getremotename_def double_reverse_check_sa_def split: option.splits if_splits)
  then have "host \<noteq> []"
    using assms(4) bracketed_hd [of r sa] by (auto simp: snprintf_def RNAME_LEN_def)
  moreover have "in_tab n (u_tab ?s)" "remotename ?s n = Some host" using assms(2) host by (simp_all add: set_peers_def)
  ultimately have node: "node = take MAX_NODELEN host"
    using net unfolding node_def s_new_user_def by (simp add: in_tab_def doSend0_def doSend_emit usr_upd_u emit_def snprintf_def)
  show ?thesis
  proof (cases "host = bracketed r sa")
    case False
    then obtain h as orig where h: "r_name r sa = Some h" "r_addrs r sa h = Some as" "addr_to_numeric r NI_MAXHOST sa = Some orig"
        "any_match r orig as" "host = snprintf RNAME_LEN h" using ver by blast
    then obtain a where a: "a \<in> set as" "addr_to_numeric r NI_MAXHOST a = Some orig" by (auto simp: any_match_ex)
    have "r_numeric r sa = Some orig" "r_numeric r a = Some orig"
      using h(3) a(2) by (auto simp: addr_to_numeric_def split: option.splits if_splits)
    moreover have "node = take MAX_NODELEN h" using node h(5) by (simp add: snprintf_def RNAME_LEN_def)
    ultimately show ?thesis using h(1,2) a(1) by auto
  qed (use node in simp)
qed

text \<open>Witness: an address whose name resolves to another address, and one that is confirmed.\<close>

definition demo_resolver :: resolver where
  "demo_resolver = \<lparr>r_peer = (\<lambda>n. Some (AF_INET [10, 0, 0, 1])), r_local = (\<lambda>n. None),
     r_numeric = (\<lambda>a. if a = AF_INET [10, 0, 0, 1] then Some ''10.0.0.1'' else Some ''1.2.3.4''),
     r_name = (\<lambda>a. Some ''trusted.org''), r_addrs = (\<lambda>a h. Some [AF_INET [1, 2, 3, 4]])\<rparr>"

theorem remote_host_verified_witness:
  "u_nodeid (usr (s_new_user 1 0 (set_peers demo_resolver demo)) 1) = ''[10.0.0.1]''"
proof -
  have "bracketed demo_resolver (AF_INET [10, 0, 0, 1]) = ''[10.0.0.1]''" by code_simp
  then show ?thesis
    using remote_host_verified [of demo 1 demo_resolver "AF_INET [10, 0, 0, 1]" 0]
    by (auto simp: in_tab_def demo_resolver_def)
qed

end
