(* ===== verification/EventProps.thy ===== *)
theory EventProps
  imports Frame
begin

text \<open>
  Properties of \<open>s_didpoll\<close>, which runs at the end of every round of the event loop: whom it disconnects, and who
  becomes the moderator of a group whose moderator is missing. The locale \<open>naming\<close> of theory \<open>Frame\<close> is interpreted on the list of the
  disconnects, which gives that no group, user or other command makes any.
\<close>

interpretation dr: naming "\<lambda>st. dropped st = D" for D
  by unfold_locales (simp_all add: upd_u_def upd_g_def need_u_def need_g_def flag_fault_def)

section \<open>Disconnects\<close>

definition marked :: "srv \<Rightarrow> int \<Rightarrow> bool" where
  "marked st i \<longleftrightarrow> u_login (usr st i) > LOGIN_FALSE \<and> S_kill st ! nat i > 0"

lemma dropped_disconnect: "map snd (dropped (disconnect i st)) = map snd (dropped st) @ [i]"
  by (simp add: disconnect_def)

lemma drop_killed_dropped:
  "map snd (dropped (drop_killed st)) = map snd (dropped st) @ filter (marked st) (real_users st)"
proof -
  have "map snd (dropped (fold (\<lambda>i s. if u_login (usr s i) > LOGIN_FALSE \<and> S_kill s ! nat i > 0
        then disconnect i (s\<lparr>stats := (stats s)\<lparr>st_drops := st_drops (stats s) + 1\<rparr>\<rparr>) else s) is s)) =
      map snd (dropped s) @ filter (marked st) is" if "u_tab s = u_tab st" "S_kill s = S_kill st" for "is" s
    using that
  proof (induction "is" arbitrary: s)
    case (Cons i "is")
    then show ?case by (simp add: marked_def usr_def) (simp add: disconnect_def)
  qed simp
  then show ?thesis by (simp add: drop_killed_def)
qed

lemma icbexit_dropped:
  "map snd (dropped (icbexit st)) = map snd (dropped st) @ filter (\<lambda>i. u_login (usr st i) > LOGIN_FALSE) (real_users st)"
proof -
  have "map snd (dropped (fold disconnect is s)) = map snd (dropped s) @ is" for "is" s
    by (induction "is" arbitrary: s) (simp_all add: dropped_disconnect)
  then show ?thesis by (simp add: icbexit_def)
qed

text \<open>The warnings change nothing but what was sent and the counter of the warnings.\<close>

lemma warn_all_tabs:
  assumes "net_ok st"
  shows "u_tab (warn_all m st) = u_tab st \<and> S_kill (warn_all m st) = S_kill st \<and> net_ok (warn_all m st)"
proof -
  have "u_tab (fold (\<lambda>i s. if u_login (usr s i) > LOGIN_FALSE then sendimport i ''Shutdown'' m s else s) is s) = u_tab s \<and>
      S_kill (fold (\<lambda>i s. if u_login (usr s i) > LOGIN_FALSE then sendimport i ''Shutdown'' m s else s) is s) = S_kill s \<and>
      net_ok (fold (\<lambda>i s. if u_login (usr s i) > LOGIN_FALSE then sendimport i ''Shutdown'' m s else s) is s)" if "net_ok s" for "is" s
    using that by (induction "is" arbitrary: s) (simp_all add: sendimport_emit)
  then show ?thesis using assms by (simp add: warn_all_def)
qed

lemma shutdown_warnings_tabs:
  assumes "net_ok st"
  shows "u_tab (shutdown_warnings st) = u_tab st" "S_kill (shutdown_warnings st) = S_kill st"
    "real_users (shutdown_warnings st) = real_users st"
proof -
  define s where "s = (if now st \<ge> TimeToDie st - 300 \<and> TimeToDie st > 0 \<and> ShutdownNotify st = 0
    then let st = warn_all ''Server shutting down in 5 minutes!'' st in st\<lparr>ShutdownNotify := ShutdownNotify st + 1\<rparr> else st)"
  have s: "u_tab s = u_tab st" "S_kill s = S_kill st" "net_ok s"
    using warn_all_tabs [OF assms] assms by (auto simp: s_def Let_def net_ok_def)
  have t: "u_tab (shutdown_warnings st) = u_tab s" "S_kill (shutdown_warnings st) = S_kill s"
    unfolding shutdown_warnings_def s_def [symmetric] using warn_all_tabs [OF s(3)] by (simp_all add: Let_def)
  show "u_tab (shutdown_warnings st) = u_tab st" "S_kill (shutdown_warnings st) = S_kill st"
    "real_users (shutdown_warnings st) = real_users st"
    using s t by (simp_all add: real_users_def)
qed

text \<open>
  C14 (disconnects at the end of a round): if the server is to end, every user who has begun to log in is disconnected and the process
  ends. Otherwise exactly the users are disconnected who are marked and have begun to log in, in the order of
  their slots, once each: the idle checks and the elections of moderators that follow disconnect nobody. So a connection
  that is marked because its login was refused stays connected. The frequent calls (\<open>n\<close> is 1) do nothing.\<close>

theorem didpoll_drops:
  assumes "net_ok st"
  shows "map snd (dropped (s_didpoll n st)) = map snd (dropped st) @
    (if n = 1 then []
     else if now st \<ge> TimeToDie st \<and> TimeToDie st > 0 then filter (\<lambda>i. u_login (usr st i) > LOGIN_FALSE) (real_users st)
     else filter (\<lambda>i. u_login (usr st i) > LOGIN_FALSE \<and> S_kill st ! nat i > 0) (real_users st))"
proof -
  let ?s = "drop_killed (shutdown_warnings st)"
  have w: "dropped (shutdown_warnings st) = dropped st" by (rule dr.P_shutdown_warnings) simp
  have m: "marked (shutdown_warnings st) = marked st" using shutdown_warnings_tabs [OF assms] by (simp add: marked_def usr_def fun_eq_iff)
  have k: "map snd (dropped ?s) = map snd (dropped st) @ filter (marked st) (real_users st)"
    by (simp add: drop_killed_dropped w m shutdown_warnings_tabs [OF assms])
  have "dropped (fold idle_user is (fold (\<lambda>i s. mod_timeout i (idle_mod i s)) js ?s)) = dropped ?s" for "is" js
    by (intro dr.P_fold dr.P_idle_user dr.P_mod_timeout dr.P_idle_mod) (assumption | rule refl)+
  then show ?thesis
    using k by (simp add: s_didpoll_def Let_def icbexit_dropped marked_def [abs_def])
qed


theorem didpoll_drops_witness:
  "map snd (dropped (s_didpoll 0 (demo\<lparr>S_kill := [0, 1, 1, 0], u_tab := (u_tab demo)[2 := blank_user]\<rparr>))) = [1]"
proof -
  let ?st = "demo\<lparr>S_kill := [0, 1, 1, 0], u_tab := (u_tab demo)[2 := blank_user]\<rparr>"
  have "filter (\<lambda>i. u_login (usr ?st i) > LOGIN_FALSE \<and> S_kill ?st ! nat i > 0) (real_users ?st) = [1]" by code_simp
  moreover have "TimeToDie ?st = -1" "dropped ?st = []" "net_ok ?st" by (simp_all add: demo_def net_ok_def)
  ultimately show ?thesis using didpoll_drops [of ?st 0] by simp
qed

section \<open>Missing moderators\<close>

definition eligible :: "int \<Rightarrow> srv \<Rightarrow> int \<Rightarrow> bool" where
  "eligible i st j \<longleftrightarrow> in_tab j (u_tab st) \<and> u_login (usr st j) \<ge> LOGIN_COMPLETE \<and> u_awaymsg (usr st j) = [] \<and>
     strcaseeq (u_group (usr st j)) (g_name (grp st i))"

text \<open>
  C15 (election of a moderator): when the time of a missing or idle moderator has run out, the member who is logged in, not away and least
  idle becomes the moderator, the group waits for nobody any more, and nothing else changes in the tables. If there is no such
  member, nothing changes at all, so that the next round tries again.\<close>

theorem mod_elected:
  assumes "net_ok st" "in_tab i (g_tab st)" "0 < g_modtimeout (grp st i)" "g_modtimeout (grp st i) < now st"
  defines "new \<equiv> mod_timeout i st"
  shows "if \<exists>j. eligible i st j
    then (\<exists>m. eligible i st m \<and> (\<forall>j. eligible i st j \<longrightarrow> u_t_recv (usr st j) \<le> u_t_recv (usr st m)) \<and> u_tab new = u_tab st \<and>
      g_tab new = (g_tab st)[nat i := (grp st i)\<lparr>g_mod := m, g_modtimeout := 0, g_missingmod := []\<rparr>])
    else new = st"
proof -
  let ?ok = "\<lambda>j. member_of i st j \<and> u_awaymsg (usr st j) = []"
  have ok: "eligible i st j \<longleftrightarrow> in_tab j (u_tab st) \<and> ?ok j" for j by (auto simp: eligible_def member_of_def)
  define m where "m = least_idle ?ok st"
  note spec = least_idle_spec [of st ?ok, folded m_def]
  show ?thesis
  proof (cases "\<exists>j. eligible i st j")
    case True
    then have e: "eligible i st m" "\<And>j. eligible i st j \<Longrightarrow> u_t_recv (usr st j) \<le> u_t_recv (usr st m)"
      using spec by (auto simp: ok split: if_splits)
    then have "m \<noteq> -1" by (auto simp: eligible_def in_tab_def)
    let ?g = "\<lambda>g. g\<lparr>g_mod := m, g_modtimeout := 0, g_missingmod := []\<rparr>"
    obtain ps r where "new = emits ps r (upd_g i ?g st)"
      using group_emits [of "upd_g i ?g st" i False "''Timeout''" "u_nickname (usr st m) @ '' is now mod.''"] assms(1-4) \<open>m \<noteq> -1\<close>
      by (auto simp: new_def mod_timeout_def m_def Let_def)
    then have "u_tab new = u_tab st" "g_tab new = (g_tab st)[nat i := ?g (grp st i)]"
      using assms(2) by (simp_all add: upd_g_def need_g_def flag_fault_def grp_def)
    then show ?thesis using True e by auto
  next
    case False
    then have "m = -1" using spec by (auto simp: ok split: if_splits)
    then show ?thesis using False by (simp add: new_def mod_timeout_def m_def)
  qed
qed

theorem mod_elected_witness:
  "g_mod (grp (mod_timeout 1 (upd_g 1 (\<lambda>g. g\<lparr>g_modtimeout := 1\<rparr>) (upd_u 1 (\<lambda>u. u\<lparr>u_t_recv := 900\<rparr>) demo))) 1) = 1"
proof -
  define st where "st = upd_g 1 (\<lambda>g. g\<lparr>g_modtimeout := 1\<rparr>) (upd_u 1 (\<lambda>u. u\<lparr>u_t_recv := 900\<rparr>) demo)"
  have c: "eligible 1 st 1" "\<not> eligible 1 st 2" "\<not> eligible 1 st 3" "u_t_recv (usr st 0) = 0" "u_t_recv (usr st 1) = 900"
    "g_modtimeout (grp st 1) = 1" "now st = 1000" unfolding st_def by code_simp+
  have tab: "in_tab 1 (g_tab st)" "net_ok st" "length (g_tab st) = 4" "length (u_tab st) = 4"
    by (simp_all add: st_def in_tab_def)
  have r: "j = 0 \<or> j = 1 \<or> j = 2 \<or> j = 3" if "eligible 1 st j" for j
    using that tab(4) unfolding eligible_def in_tab_def by linarith
  have "\<exists>j. eligible 1 st j" using c(1) by blast
  with mod_elected [of st 1] c tab obtain m where m: "eligible 1 st m" "u_t_recv (usr st 1) \<le> u_t_recv (usr st m)"
      "g_tab (mod_timeout 1 st) = (g_tab st)[nat 1 := (grp st 1)\<lparr>g_mod := m, g_modtimeout := 0, g_missingmod := []\<rparr>]"
    by (simp only: if_True) force
  have "m \<noteq> 0" using m(2) c(4,5) by auto
  then have "m = 1" using r [OF m(1)] m(1) c(2,3) by blast
  with m(3) tab(3) show ?thesis by (simp add: st_def [symmetric] grp_def in_tab_def)
qed

end
