(* ===== verification/Spec2Isabelle.thy ===== *)
theory Spec2Isabelle
  imports CmdEnds AccessProps NickProps Dump NetName EventProps
begin

text \<open>
  A verification of \<open>icbd\<close>, the server of the ICB chat network (\<open>src/server\<close> and \<open>src/pktserv\<close>).

  \<^bold>\<open>The program.\<close> Clients connect over TCP or TLS and send packets: a length byte, a type, and text in fields. The packet
  layer (\<open>pktserv\<close>) polls the sockets, puts packets together, queues what is to be written and calls the
  server back: a new client, a packet, a lost client, the end of a round. The server keeps a table of users,
  indexed by the descriptor of the connection, whose last entry is the server itself as a user, and a
  table of groups. A login packet makes a connection a user in a group; open messages go to the group; command
  packets run one of some thirty commands; a private message to the server user is a command to it. Registered
  nicknames, their passwords and messages are in a database file. A restart writes the tables to a file
  and reads them back in the new process.

  \<^bold>\<open>Theories and sources.\<close>
  \<^item> \<open>Prelude\<close>: C strings as \<open>char\<close> lists, \<open>strcasecmp\<close>, \<open>atoi\<close>, \<open>snprintf\<close>, the search of a table; facts the others share.
  \<^item> \<open>StrList\<close>, \<open>NameList\<close> (\<open>strlist.c\<close>, \<open>namelist.c\<close>): linked lists on an explicit heap, and the plain lists they implement.
  \<^item> \<open>Wildmat\<close>, \<open>StrUtil\<close>, \<open>Utf8\<close> (\<open>wildmat.c\<close>, \<open>strutil.c\<close>, \<open>utf8.c\<close>): patterns, filters, the fields of a packet, text.
  \<^item> \<open>IcbDbm\<close>, \<open>IcbDb\<close> (\<open>icb_dbm.c\<close>, \<open>icbdb.c\<close>): the hash table with its file, and the user database over it.
  \<^item> \<open>Tables\<close> (\<open>server.h\<close>, \<open>globals.c\<close>, \<open>groups.c\<close>, \<open>users.c\<close>, \<open>lookup.c\<close>): the state of the server as the record
    \<open>srv\<close>: \<open>u_tab\<close> and \<open>g_tab\<close> with records of the fields of the C structures, \<open>S_kill\<close>, \<open>lpriv_id\<close> and the other global arrays, the
    fields of the packet at hand (\<open>pfields\<close>), the database, the clock, what the environment answers, and what was sent
    (\<open>out\<close>) and disconnected (\<open>dropped\<close>).
  \<^item> \<open>Send\<close> (\<open>send.c\<close>): one function per kind of packet, down to the bytes given to \<open>pktserv_send\<close>.
  \<^item> \<open>GroupCmds\<close>, \<open>Status\<close> (\<open>s_group.c\<close>); \<open>Access\<close> (\<open>access.c\<close>, \<open>s_auto.c\<close>); \<open>UserCmds\<close> (\<open>s_user.c\<close>,
    \<open>s_person.c\<close>, \<open>s_beep.c\<close>); \<open>Who\<close> (\<open>s_who.c\<close>, \<open>s_info.c\<close>); \<open>Admin\<close> (\<open>s_admin.c\<close>, \<open>s_motd.c\<close>,
    \<open>s_news.c\<close>, \<open>s_stats.c\<close>, \<open>s_shuttime.c\<close>, \<open>s_version.c\<close>): the commands, each a function of the user, the number of fields
    and the state, with the same name as in the source, that gives its return value and the new state.
  \<^item> \<open>Events\<close> (\<open>ipcf.c\<close>): the idle checks and what happens to the groups of a lost user.
  \<^item> \<open>Msgs\<close> (\<open>msgs.c\<close>, \<open>dispatch.c\<close>): login, open messages, commands, the dispatcher.
  \<^item> \<open>PktSocket\<close>, \<open>PktServ\<close> (\<open>pktbuffers.c\<close>, \<open>pktsocket.c\<close>, \<open>sslsocket.c\<close>, \<open>pktserv.c\<close>): one connection, and the poll
    set with its state machine and event loop; the state of the program behind the callbacks is a type parameter.
  \<^item> \<open>Server\<close> (\<open>main.c\<close>): the start with empty tables, and the chat server as the callbacks of the packet layer.
  \<^item> \<open>Dump\<close> (\<open>icbutil.c\<close>, \<open>main.c\<close>): writing and reading the tables for a restart.
  \<^item> \<open>NetName\<close> (\<open>getrname.c\<close>, \<open>get_ipv4_addr\<close> of \<open>msgs.c\<close>): the name and the address of a peer.

  \<^bold>\<open>What C leaves undefined.\<close> An access outside a table, a copy into an array that is too small, a null pointer and a wrong
  format set the flag \<open>fault\<close>; reading a text buffer that \<open>filtertext\<close> has filled to the last byte sets \<open>overread\<close>. The flags are
  never reset (theory \<open>Frame\<close>), so a theorem that a flag is unchanged says that nothing of the kind has happened. The heap
  operations return \<open>None\<close> instead, and so does a loop that does not end.

  \<^bold>\<open>What comes from outside.\<close> The answers of the kernel, the TLS library, the allocator, the resolver, the clock and the files are
  arguments or lists of answers still to come, and the theorems hold for all of them. Hypotheses on them are named: \<open>net_ok\<close> says that
  sending to a client does not fail, \<open>ready\<close> and \<open>db_ok\<close> that the database is open.

  \<^bold>\<open>Interfaces.\<close> The locale \<open>upper_layer\<close> (\<open>PktInv\<close>) is the contract between the packet layer and the program behind it,
  interpreted on the chat server in \<open>Server\<close>. \<open>name_list\<close> and \<open>kv_store\<close> are what the callers rely on of name lists and the
  database file, \<open>attributes\<close> (\<open>AccessProps\<close>) of the user database. \<open>handler_pred\<close> (\<open>GroupSafe\<close>) and \<open>threaded\<close>,
  \<open>naming\<close>, \<open>serving\<close>, \<open>frame\<close> and \<open>free\<close> (\<open>Frame\<close>), and \<open>quiet\<close> (\<open>AccessProps\<close>) walk through the handlers for any property of the state;
  \<open>list_order\<close> (\<open>MsgProps\<close>) has the sorting of the listings, \<open>table_io\<close> (\<open>Dump\<close>) the reading and writing of a table.

  \<^bold>\<open>What is shown.\<close>
  \<^item> For the whole server: the event loop keeps the invariant of the packet layer and the sizes of the tables and sends only well-formed
    packets to connections of the table (\<open>Server\<close>); nicknames are unique in every reachable state if login packets have
    clean nicknames, and need not be otherwise (\<open>NickProps\<close>).
  \<^item> For the groups: the tables stay well-formed under any sequence of group commands (\<open>Commands\<close>), what changing
    group does on every branch, who gets a message (\<open>GroupProps\<close>), who may change what and enter where (\<open>Commands\<close>), that losing a
    user leaves every group with a moderator who is there (\<open>Events\<close>), whom the end of a round disconnects and how a missing moderator is
    replaced (\<open>EventProps\<close>).
  \<^item> For access: nothing happens before the login, administration needs the password (\<open>MsgProps\<close>), who is
    authenticated at login and which passwords are accepted (\<open>AccessProps\<close>), which host name a connection gets (\<open>NetName\<close>).
  \<^item> For data: the heap lists, the pattern matcher, the UTF-8 decoder, the format check and the hash table against
    reference definitions; round trips of the database file, of attributes, of packets cut into any pieces, and of
    the tables across a restart; bounds of what is sent and stored.
  \<^item> For termination: commands within commands, the loop of \<open>s_lost_user\<close>, the state machine of a connection that is to be closed.
  \<^item> Where the code does not do what it means to, the theorem says when: listings and away messages that leave their buffers, packets
    that are refused, cut or lost, connections that are never closed, and loops that never end.

  \<^bold>\<open>Bounds and fuel.\<close> The sizes of the arrays are those of \<open>icb_config.h\<close>; the numbers of users and groups are
  the lengths of the tables, so the theorems hold for any. \<open>cmdmsg\<close> has fuel, since a command may send a command; the length of the
  packet is always enough (\<open>CmdEnds\<close>). \<open>s_lost_user\<close> has fuel, and one turn more than there are groups is enough (\<open>Events\<close>).
  The state machine and the event loop have fuel and return \<open>None\<close> without it; \<open>PktProps\<close> shows where they end, and two situations
  in which no fuel is enough.

  \<^bold>\<open>Not modelled.\<close> Log messages (\<open>mdb.c\<close>), signals, options of the command line and the process itself (\<open>unix.c\<close>, most of \<open>main.c\<close>),
  which are system calls; the configuration of OpenSSL (\<open>sslconf.c\<close>); the macros of \<open>bsdqueue.h\<close>, which are vendored
  (a queue is a list here); the command \<open>brick\<close>, which the default configuration leaves out; \<open>print_group_title\<close> and
  \<open>printCodePoints\<close>, which are not called.
\<close>

end
